(* ===== verification/Prelude.thy ===== *)
theory Prelude
  imports Main "HOL-Library.Word"
begin

text \<open>
  The shared vocabulary of the development: the machine integers of the C sources, the
  outcome of a fallible operation of the firmware, bounded reads of a byte buffer, the
  wrap-around comparison of clocks, and the generic facts on bits, words and lists the
  component theories use.
\<close>

unbundle bit_operations_syntax

section \<open>Machine integers\<close>

type_synonym u8 = "8 word"
type_synonym u16 = "16 word"
type_synonym u32 = "32 word"
type_synonym u64 = "64 word"

named_theorems bitblast \<open>rules that turn an equation of words into an equation of bits\<close>

text \<open>A word has no bit at or beyond its width.\<close>

lemma bit_u8_out [bitblast]: "8 \<le> n \<Longrightarrow> bit (w :: u8) n \<longleftrightarrow> False"
  using bit_imp_le_length [of w n] by auto

lemma bit_u16_out [bitblast]: "16 \<le> n \<Longrightarrow> bit (w :: u16) n \<longleftrightarrow> False"
  using bit_imp_le_length [of w n] by auto

lemma bit_u32_out [bitblast]: "32 \<le> n \<Longrightarrow> bit (w :: u32) n \<longleftrightarrow> False"
  using bit_imp_le_length [of w n] by auto

text \<open>Bounded quantifiers over bit positions, written out.\<close>

lemma all_less_8:
  "(\<forall>n<8::nat. P n) \<longleftrightarrow> P 0 \<and> P 1 \<and> P 2 \<and> P 3 \<and> P 4 \<and> P 5 \<and> P 6 \<and> P 7"
  by (simp add: numeral_eq_Suc All_less_Suc conj_ac)

lemma all_less_16:
  "(\<forall>n<16::nat. P n) \<longleftrightarrow>
     P 0 \<and> P 1 \<and> P 2 \<and> P 3 \<and> P 4 \<and> P 5 \<and> P 6 \<and> P 7 \<and>
     P 8 \<and> P 9 \<and> P 10 \<and> P 11 \<and> P 12 \<and> P 13 \<and> P 14 \<and> P 15"
  by (simp add: numeral_eq_Suc All_less_Suc conj_ac)

lemma all_less_32:
  "(\<forall>n<32::nat. P n) \<longleftrightarrow> (\<forall>n<16::nat. P n) \<and>
     P 16 \<and> P 17 \<and> P 18 \<and> P 19 \<and> P 20 \<and> P 21 \<and> P 22 \<and> P 23 \<and>
     P 24 \<and> P 25 \<and> P 26 \<and> P 27 \<and> P 28 \<and> P 29 \<and> P 30 \<and> P 31"
  by (simp add: numeral_eq_Suc All_less_Suc conj_ac)

lemma word8_eqI: "(\<forall>n<8. bit (a :: u8) n = bit b n) \<Longrightarrow> a = b"
  by (intro bit_word_eqI) simp

lemma word16_eqI: "(\<forall>n<16. bit (a :: u16) n = bit b n) \<Longrightarrow> a = b"
  by (intro bit_word_eqI) simp

lemma word32_eqI: "(\<forall>n<32. bit (a :: u32) n = bit b n) \<Longrightarrow> a = b"
  by (intro bit_word_eqI) simp

lemma unat_of_nat_small: "n < 2 ^ LENGTH('a) \<Longrightarrow> unat (of_nat n :: 'a::len word) = n"
  by (simp only: unat_of_nat mod_less)

lemma unat_u32_less: "unat (w :: u32) < 2 ^ 32"
  using unsigned_less [of w] by simp

lemma unat_u8_less: "unat (w :: u8) < 256"
  using unsigned_less [of w] by simp

lemma unat_ucast_u8_u32: "unat (ucast (w :: u8) :: u32) = unat w"
  using unat_u8_less [of w] by (simp add: unsigned_ucast_eq take_bit_nat_eq_self)

text \<open>Casts between the widths of the clocks.\<close>

lemma unat_u16_less: "unat (w :: u16) < 65536"
  using unsigned_less [of w] by simp

lemma unat_ucast_u16_u32: "unat (ucast (w :: u16) :: u32) = unat w"
  using unat_u16_less [of w] by (simp add: unsigned_ucast_eq take_bit_nat_eq_self)

lemma ucast_add_down: "ucast (a + b :: u64) = (ucast a + ucast b :: u32)"
proof (transfer, simp)
  show "take_bit 32 (a + b) = take_bit 32 (take_bit 64 a + take_bit 64 b)" for a b :: int
    using take_bit_add [of 32 "take_bit 64 a" "take_bit 64 b"] take_bit_add [of 32 a b] by simp
qed

lemma ucast_scast_u32: "ucast (scast (w :: u32) :: u64) = w"
  by (rule bit_word_eqI) (simp add: bit_simps)

lemma sint_scast_u64: "sint (scast (w :: u32) :: u64) = sint w"
  by (rule bit_eqI) (auto simp: bit_simps min_def)

text \<open>A word below a power of two has no bit at or above the exponent.\<close>

lemma bit_high_unset:
  fixes w :: "'a::len word"
  assumes "w < 2 ^ k" "k < LENGTH('a)" "k \<le> n"
  shows "\<not> bit w n"
proof -
  have "unat (of_nat (2 ^ k) :: 'a word) = 2 ^ k" using assms(2) by (simp only: unat_of_nat) simp
  then have "unat w < 2 ^ k" using assms(1) by (simp add: word_less_nat_alt)
  moreover have "unat (drop_bit k w) = unat w div 2 ^ k"
    by (metis unat_drop_bit_eq drop_bit_eq_div)
  ultimately have "drop_bit k w = 0" by (metis div_less unat_eq_zero)
  then have "\<not> bit (drop_bit k w) (n - k)" by simp
  with assms(3) show ?thesis by (simp add: bit_drop_bit_eq)
qed

section \<open>The outcome of a firmware operation\<close>

text \<open>
  The C macro \<^verbatim>\<open>shutdown(msg)\<close> leaves the operation by \<^verbatim>\<open>longjmp\<close>; the changes made so
  far stay in memory. \<open>Shutdown msg s\<close> records the message and the memory at that point.
  \<open>Fault\<close> is an access C does not define (a read or write outside an array, a NULL
  dereference) or a loop that never ends.
\<close>

datatype ('a, 's) outcome = Ok 'a 's | Shutdown string 's | Fault

primrec andthen :: "('a, 's) outcome \<Rightarrow> ('a \<Rightarrow> 's \<Rightarrow> ('b, 's) outcome) \<Rightarrow> ('b, 's) outcome" where
  "andthen (Ok a s) f = f a s"
| "andthen (Shutdown m s) f = Shutdown m s"
| "andthen Fault f = Fault"

primrec no_fault :: "('a, 's) outcome \<Rightarrow> bool" where
  "no_fault (Ok a s) = True"
| "no_fault (Shutdown m s) = True"
| "no_fault Fault = False"

text \<open>The state an operation ends in: an operation that shuts down keeps its effects.\<close>

fun result_state :: "('a, 's) outcome \<Rightarrow> 's option" where
  "result_state (Ok a s) = Some s"
| "result_state (Shutdown r s) = Some s"
| "result_state Fault = None"

lemma result_state_andthen:
  "result_state (andthen m k) = Some s' \<longleftrightarrow>
     (\<exists>a s. m = Ok a s \<and> result_state (k a s) = Some s') \<or> (\<exists>r. m = Shutdown r s')"
  by (cases m) auto

lemma andthen_Ok_iff:
  "andthen r f = Ok b t \<longleftrightarrow> (\<exists>a s. r = Ok a s \<and> f a s = Ok b t)"
  by (cases r) auto

lemma andthen_cong [fundef_cong]:
  "r = r' \<Longrightarrow> (\<And>a s. r' = Ok a s \<Longrightarrow> f a s = f' a s) \<Longrightarrow> andthen r f = andthen r' f'"
  by (cases r') auto

lemma no_fault_andthen:
  "no_fault r \<Longrightarrow> (\<And>a s. r = Ok a s \<Longrightarrow> no_fault (f a s)) \<Longrightarrow> no_fault (andthen r f)"
  by (cases r) auto

section \<open>Clocks\<close>

text \<open>
  \<^verbatim>\<open>timer_is_before\<close> of \<^verbatim>\<open>src/src/generic/timer_irq.c\<close>: the signed reading of the
  difference of two 32-bit clocks.
\<close>

definition timer_is_before :: "u32 \<Rightarrow> u32 \<Rightarrow> bool" where
  "timer_is_before time1 time2 \<longleftrightarrow> sint (time1 - time2) < 0"

lemma sint_neg_iff: "sint (w :: u32) < 0 \<longleftrightarrow> 2 ^ 31 \<le> unat w"
proof -
  have "sint w < 0 \<longleftrightarrow> bit w 31"
    using bit_last_iff [of w] by simp
  also have "\<dots> \<longleftrightarrow> odd (uint w div 2 ^ 31)"
    using bit_uint_iff [of w 31] by (simp add: bit_iff_odd)
  also have "\<dots> \<longleftrightarrow> 2 ^ 31 \<le> uint w"
  proof (cases "2 ^ 31 \<le> uint w")
    case True
    have "uint w div 2 ^ 31 = 1"
      by (rule int_div_pos_eq [where r = "uint w - 2 ^ 31"])
        (use True uint_lt2p [of w] in simp_all)
    with True show ?thesis by simp
  next
    case False
    then have "uint w div 2 ^ 31 = 0" by (simp add: div_pos_pos_trivial)
    with False show ?thesis by simp
  qed
  also have "\<dots> \<longleftrightarrow> 2 ^ 31 \<le> unat w"
    unfolding uint_nat by (metis of_nat_le_iff of_nat_numeral of_nat_power)
  finally show ?thesis .
qed

lemma timer_is_before_iff:
  "timer_is_before a b \<longleftrightarrow> 2 ^ 31 \<le> unat (a - b)"
  by (simp add: timer_is_before_def sint_neg_iff)

section \<open>Lists read at a position\<close>

lemma nth_update: "xs[p := t] ! k = (if p = k \<and> k < length xs then t else xs ! k)"
  by (cases "p < length xs") (auto simp: nth_list_update list_update_beyond)

lemma drop_eq_ConsD:
  assumes "drop p xs = y # ys"
  shows "p < length xs" and "xs ! p = y" and "drop (Suc p) xs = ys"
proof -
  show p: "p < length xs" using assms by (cases "p < length xs") auto
  from p have "drop p xs = xs ! p # drop (Suc p) xs" by (rule Cons_nth_drop_Suc [symmetric])
  with assms show "xs ! p = y" and "drop (Suc p) xs = ys" by auto
qed

lemma drop_appendD: "drop p xs = ys @ zs \<Longrightarrow> drop (p + length ys) xs = zs"
  by (metis add.commute append_eq_conv_conj drop_drop)

section \<open>Arrays written at a position\<close>

text \<open>
  \<open>write_at arr p bs\<close> stores \<open>bs\<close> from index \<open>p\<close> on; a write that leaves the array is
  \<open>None\<close>. \<open>memchr\<close> is the C library's search for a byte in the first \<open>n\<close> bytes.
\<close>

definition write_at :: "'a list \<Rightarrow> nat \<Rightarrow> 'a list \<Rightarrow> 'a list option" where
  "write_at arr p bs =
     (if p + length bs \<le> length arr
      then Some (take p arr @ bs @ drop (p + length bs) arr) else None)"

lemma write_at_length: "write_at arr p bs = Some arr' \<Longrightarrow> length arr' = length arr"
  by (auto simp: write_at_def split: if_splits)

lemma write_at_take:
  assumes "write_at arr p bs = Some arr'"
  shows "take (p + length bs) arr' = take p arr @ bs"
proof -
  from assms have "p + length bs \<le> length arr" and "arr' = take p arr @ bs @ drop (p + length bs) arr"
    by (simp_all add: write_at_def split: if_splits)
  then show ?thesis by simp
qed

fun memchr :: "'a list \<Rightarrow> 'a \<Rightarrow> nat \<Rightarrow> nat option" where
  "memchr (x # xs) c (Suc n) = (if x = c then Some 0 else map_option Suc (memchr xs c n))"
| "memchr xs c n = None"

lemma memchr_Some:
  "memchr xs c n = Some i \<Longrightarrow> i < n \<and> i < length xs \<and> xs ! i = c \<and> (\<forall>j<i. xs ! j \<noteq> c)"
proof (induction xs c n arbitrary: i rule: memchr.induct)
  case (1 x xs c n)
  then show ?case by (auto simp: nth_Cons split: if_splits nat.splits)
qed auto

lemma memchr_None: "memchr xs c n = None \<Longrightarrow> c \<notin> set (take n xs)"
  by (induction xs c n rule: memchr.induct) (auto split: if_splits)

lemma memchr_first:
  "c \<notin> set xs \<Longrightarrow> length xs < n \<Longrightarrow> memchr (xs @ c # ys) c n = Some (length xs)"
proof (induction xs arbitrary: n)
  case Nil
  then show ?case by (cases n) auto
next
  case (Cons x xs)
  then show ?case by (cases n) auto
qed

end
