(* ===== verification/Crc16.thy ===== *)
theory Crc16
  imports Prelude
begin

text \<open>
  The 16-bit CRC of the serial protocol: the routine of the micro-controller
  (\<^verbatim>\<open>src/src/generic/crc16_ccitt.c\<close>) and its copy in the host
  (\<^verbatim>\<open>src/klippy/chelper/msgblock.c\<close>), a bit-serial reference, and what the checksum
  detects. The detection laws are proved once for any checksum whose byte step is
  injective, and instantiated with the step of the code.
\<close>

section \<open>The routines of the code\<close>

text \<open>One iteration of the loop of \<^verbatim>\<open>crc16_ccitt\<close>.\<close>

definition crc16_step :: "u16 \<Rightarrow> u8 \<Rightarrow> u16" where
  "crc16_step crc data0 =
     (let data1 = data0 XOR ucast (crc AND 0xff);
          data2 = data1 XOR push_bit 4 data1
      in ((push_bit 8 (ucast data2) OR drop_bit 8 crc) XOR ucast (drop_bit 4 data2))
           XOR push_bit 3 (ucast data2))"

definition crc16_ccitt :: "u8 list \<Rightarrow> nat \<Rightarrow> u16" where
  "crc16_ccitt buf len = foldl crc16_step 0xffff (take len buf)"

text \<open>The copy of the host, with its own loop.\<close>

fun msgblock_crc16_loop :: "u16 \<Rightarrow> u8 list \<Rightarrow> nat \<Rightarrow> u16" where
  "msgblock_crc16_loop crc buf 0 = crc"
| "msgblock_crc16_loop crc [] (Suc len) = crc"
| "msgblock_crc16_loop crc (data0 # buf) (Suc len) =
     (let data1 = data0 XOR ucast (crc AND 0xff);
          data2 = data1 XOR push_bit 4 data1;
          crc' = ((push_bit 8 (ucast data2) OR drop_bit 8 crc) XOR ucast (drop_bit 4 data2))
                   XOR push_bit 3 (ucast data2)
      in msgblock_crc16_loop crc' buf len)"

definition msgblock_crc16_ccitt :: "u8 list \<Rightarrow> nat \<Rightarrow> u16" where
  "msgblock_crc16_ccitt buf len = msgblock_crc16_loop 0xffff buf len"

lemma msgblock_crc16_loop_eq: "msgblock_crc16_loop crc buf len = foldl crc16_step crc (take len buf)"
  by (induction crc buf len rule: msgblock_crc16_loop.induct) (auto simp: crc16_step_def Let_def)

lemma msgblock_crc16_eq: "msgblock_crc16_ccitt buf len = crc16_ccitt buf len"
  by (simp add: msgblock_crc16_ccitt_def crc16_ccitt_def msgblock_crc16_loop_eq)

section \<open>A bit-serial reference\<close>

text \<open>
  The standard definition of a reflected CRC with the CCITT polynomial
  \<open>x^16 + x^12 + x^5 + 1\<close> (reversed: 0x8408): shift right once per bit and subtract the
  polynomial when a one falls out.
\<close>

definition crc_bit :: "u16 \<Rightarrow> u16" where
  "crc_bit crc = (if bit crc 0 then drop_bit 1 crc XOR 0x8408 else drop_bit 1 crc)"

definition crc_ref_step :: "u16 \<Rightarrow> u8 \<Rightarrow> u16" where
  "crc_ref_step crc d = (crc_bit ^^ 8) (crc XOR ucast d)"

definition crc_ref :: "u8 list \<Rightarrow> u16" where
  "crc_ref bs = foldl crc_ref_step 0xffff bs"

lemma bit_poly: "bit (0x8408 :: u16) n \<longleftrightarrow> n = 3 \<or> n = 10 \<or> n = 15"
proof (cases "n < 16")
  case True
  have "\<forall>n<16. bit (0x8408 :: u16) n \<longleftrightarrow> (n = 3 \<or> n = 10 \<or> n = 15)"
    unfolding all_less_16 by simp
  with True show ?thesis by blast
next
  case False
  then show ?thesis by (auto simp: bitblast)
qed

lemma bit_crc_bit:
  "bit (crc_bit c) n \<longleftrightarrow> (bit c (n + 1) \<noteq> (bit c 0 \<and> (n = 3 \<or> n = 10 \<or> n = 15)))"
  using bit_poly [of n] by (auto simp: crc_bit_def bit_simps)

lemma funpow_8: "(f ^^ 8) x = f (f (f (f (f (f (f (f x)))))))"
  by (simp add: eval_nat_numeral)

lemma crc16_step_ref: "crc16_step = crc_ref_step"
proof (intro ext word16_eqI)
  fix c d
  show "\<forall>n<16. bit (crc16_step c d) n = bit (crc_ref_step c d) n"
    unfolding all_less_16 crc_ref_step_def funpow_8 bit_crc_bit
    apply (simp add: crc16_step_def Let_def bit_simps bitblast)
    apply (simp add: eval_nat_numeral)
    apply (intro conjI)
                   apply argo+
    done
qed

section \<open>What the checksum detects\<close>

text \<open>
  A checksum folded over the bytes of a block detects every corruption of a single byte
  when its step is injective in the byte and in the running value, and every corruption of
  two neighbouring bytes when the step taken twice is injective in the pair.
\<close>

locale byte_checksum =
  fixes step :: "'c \<Rightarrow> 'b \<Rightarrow> 'c"
  assumes step_state_inj: "step c d = step c' d \<Longrightarrow> c = c'"
    and step2_inj: "step (step c d) e = step (step c d') e' \<Longrightarrow> d = d' \<and> e = e'"
begin

lemma step_data_inj: "step c d = step c d' \<Longrightarrow> d = d'"
  using step2_inj [of c d d d'] by auto

lemma fold_state_inj: "foldl step c xs = foldl step c' xs \<Longrightarrow> c = c'"
  by (induction xs arbitrary: c c') (auto dest: step_state_inj)

lemma one_byte_detected:
  "foldl step c (xs @ d # ys) = foldl step c (xs @ d' # ys) \<Longrightarrow> d = d'"
  by (auto dest!: fold_state_inj step_data_inj)

lemma two_bytes_detected:
  "foldl step c (xs @ d # e # ys) = foldl step c (xs @ d' # e' # ys) \<Longrightarrow> d = d' \<and> e = e'"
  by (auto dest!: fold_state_inj dest: step2_inj)

end

lemma crc16_step_state_inj:
  assumes "crc16_step c d = crc16_step c' d"
  shows "c = c'"
proof (rule word16_eqI)
  have "\<forall>n<16. bit (crc16_step c d) n = bit (crc16_step c' d) n" using assms by simp
  then show "\<forall>n<16. bit c n = bit c' n"
    unfolding all_less_16
    apply (simp add: crc16_step_def Let_def bit_simps bitblast)
    apply argo
    done
qed

lemma crc16_step2_inj:
  assumes "crc16_step (crc16_step c d) e = crc16_step (crc16_step c d') e'"
  shows "d = d' \<and> e = e'"
proof -
  have "\<forall>n<16. bit (crc16_step (crc16_step c d) e) n
             = bit (crc16_step (crc16_step c d') e') n" using assms by simp
  then have "(\<forall>n<8. bit d n = bit d' n) \<and> (\<forall>n<8. bit e n = bit e' n)"
    unfolding all_less_16 all_less_8
    apply (simp add: crc16_step_def Let_def bit_simps bitblast)
    apply argo
    done
  then show ?thesis by (auto intro: word8_eqI)
qed

interpretation crc16: byte_checksum crc16_step
  by unfold_locales (fact crc16_step_state_inj crc16_step2_inj)+

section \<open>Properties\<close>

text \<open>
  C36: the table-free CRC routine of the micro-controller and its copy in the host compute the
  standard reflected CRC with the CCITT polynomial, bit by bit, of the first \<open>len\<close> bytes.
\<close>

theorem crc16_is_bit_serial_crc:
  "crc16_ccitt buf len = crc_ref (take len buf) \<and>
   msgblock_crc16_ccitt buf len = crc_ref (take len buf)"
  by (simp add: msgblock_crc16_eq crc16_ccitt_def crc_ref_def crc16_step_ref)

text \<open>
  Blocks that differ in at most two neighbouring bytes have the same CRC only when they are
  equal: every corruption confined to two neighbouring bytes is detected.
\<close>

theorem crc16_detects_two_bytes:
  "crc16_ccitt (xs @ [d, e] @ ys) (length xs + 2 + length ys)
     = crc16_ccitt (xs @ [d', e'] @ ys) (length xs + 2 + length ys) \<longleftrightarrow> d = d' \<and> e = e'"
  using crc16.two_bytes_detected [of "0xffff" xs d e ys d' e'] by (auto simp: crc16_ccitt_def)

end
