(* ===== verification/Vlq.thy ===== *)
theory Vlq
  imports Prelude
begin

text \<open>
  The variable length quantities of the serial protocol: the encoder and the parser of the
  micro-controller (\<^verbatim>\<open>src/src/command.c\<close>) and their copies in the host
  (\<^verbatim>\<open>src/klippy/chelper/msgblock.c\<close>). A parser reads a buffer at a position and returns the
  value with the position after it; a read outside the buffer is \<open>None\<close>. The laws a
  client relies on are stated as a locale and instantiated with the code's functions.
\<close>

section \<open>The routines of the code\<close>

definition encode_int :: "u32 \<Rightarrow> u8 list" where
  "encode_int v =
     (let sv = sint v;
          f4 = [ucast (v AND 0x7f)];
          f3 = ucast ((drop_bit 7 v AND 0x7f) OR 0x80) # f4;
          f2 = ucast ((drop_bit 14 v AND 0x7f) OR 0x80) # f3;
          f1 = ucast ((drop_bit 21 v AND 0x7f) OR 0x80) # f2
      in if sv < 3 * 2 ^ 5 \<and> sv \<ge> - (2 ^ 5) then f4
         else if sv < 3 * 2 ^ 12 \<and> sv \<ge> - (2 ^ 12) then f3
         else if sv < 3 * 2 ^ 19 \<and> sv \<ge> - (2 ^ 19) then f2
         else if sv < 3 * 2 ^ 26 \<and> sv \<ge> - (2 ^ 26) then f1
         else ucast (drop_bit 28 v OR 0x80) # f1)"

text \<open>The loop of \<^verbatim>\<open>parse_int\<close>, entered with the byte \<open>c\<close> read last.\<close>

function parse_int_loop :: "u8 list \<Rightarrow> nat \<Rightarrow> u8 \<Rightarrow> u32 \<Rightarrow> (u32 \<times> nat) option" where
  "parse_int_loop buf p c v =
     (if c AND 0x80 \<noteq> 0
      then if p < length buf
           then parse_int_loop buf (Suc p) (buf ! p)
                  (push_bit 7 v OR ucast (buf ! p AND 0x7f))
           else None
      else Some (v, p))"
  by pat_completeness auto
termination
  by (relation "measure (\<lambda>(buf, p, c, v). length buf - p)") auto

declare parse_int_loop.simps [simp del]

definition parse_int :: "u8 list \<Rightarrow> nat \<Rightarrow> (u32 \<times> nat) option" where
  "parse_int buf p =
     (if p < length buf
      then let c = buf ! p;
               v = ucast (c AND 0x7f);
               v' = (if c AND 0x60 = 0x60 then v OR - 0x20 else v)
           in parse_int_loop buf (Suc p) c v'
      else None)"

text \<open>The two-byte form used for message ids.\<close>

definition encode_msgid :: "u16 \<Rightarrow> u8 list" where
  "encode_msgid m =
     (if m \<ge> 0x80 then [ucast (drop_bit 7 m OR 0x80), ucast (m AND 0x7f)]
      else [ucast (m AND 0x7f)])"

definition command_parse_msgid :: "u8 list \<Rightarrow> nat \<Rightarrow> (u16 \<times> nat) option" where
  "command_parse_msgid buf p =
     (if p < length buf
      then let m = ucast (buf ! p) :: u16
           in if m AND 0x80 \<noteq> 0
              then if Suc p < length buf
                   then Some (push_bit 7 (m AND 0x7f) OR ucast (buf ! Suc p), p + 2)
                   else None
              else Some (m, Suc p)
      else None)"

text \<open>
  The host's copies. The source repeats the two functions word for word; the loop of the
  parser is written on the bytes that remain.
\<close>

definition host_encode_int :: "u32 \<Rightarrow> u8 list" where
  "host_encode_int v =
     (let sv = sint v;
          g4 = ucast (v AND 0x7f);
          g3 = ucast ((drop_bit 7 v AND 0x7f) OR 0x80);
          g2 = ucast ((drop_bit 14 v AND 0x7f) OR 0x80);
          g1 = ucast ((drop_bit 21 v AND 0x7f) OR 0x80);
          g0 = ucast (drop_bit 28 v OR 0x80)
      in if sv < 3 * 2 ^ 5 \<and> sv \<ge> - (2 ^ 5) then [g4]
         else if sv < 3 * 2 ^ 12 \<and> sv \<ge> - (2 ^ 12) then [g3, g4]
         else if sv < 3 * 2 ^ 19 \<and> sv \<ge> - (2 ^ 19) then [g2, g3, g4]
         else if sv < 3 * 2 ^ 26 \<and> sv \<ge> - (2 ^ 26) then [g1, g2, g3, g4]
         else [g0, g1, g2, g3, g4])"

fun host_parse_loop :: "u8 \<Rightarrow> u32 \<Rightarrow> u8 list \<Rightarrow> (u32 \<times> u8 list) option" where
  "host_parse_loop c v p =
     (if c AND 0x80 \<noteq> 0
      then (case p of [] \<Rightarrow> None
            | c' # p' \<Rightarrow> host_parse_loop c' (push_bit 7 v OR ucast (c' AND 0x7f)) p')
      else Some (v, p))"

declare host_parse_loop.simps [simp del]

fun host_parse_int :: "u8 list \<Rightarrow> (u32 \<times> u8 list) option" where
  "host_parse_int [] = None"
| "host_parse_int (c # p) =
     host_parse_loop c
       (let v = ucast (c AND 0x7f) in if c AND 0x60 = 0x60 then v OR - 0x20 else v) p"

lemma host_encode_int_eq: "host_encode_int = encode_int"
  by (simp add: fun_eq_iff host_encode_int_def encode_int_def Let_def)

lemma host_parse_loop_eq:
  assumes "p \<le> length buf"
  shows "map_option (\<lambda>(v, q). (v, drop q buf)) (parse_int_loop buf p c v)
       = host_parse_loop c v (drop p buf)"
  using assms
proof (induction buf p c v rule: parse_int_loop.induct)
  case (1 buf p c v)
  show ?case
  proof (cases "c AND 0x80 \<noteq> 0 \<and> p < length buf")
    case True
    then have "drop p buf = buf ! p # drop (Suc p) buf" by (simp add: Cons_nth_drop_Suc)
    with True 1 show ?thesis
      by (simp add: parse_int_loop.simps [of buf p c v]
          host_parse_loop.simps [of c v "buf ! p # drop (Suc p) buf"])
  next
    case False
    with 1 show ?thesis
      by (auto simp: parse_int_loop.simps [of buf p c v] host_parse_loop.simps [of c v "drop p buf"])
  qed
qed

lemma host_parse_int_eq:
  assumes "p \<le> length buf"
  shows "host_parse_int (drop p buf)
       = map_option (\<lambda>(v, q). (v, drop q buf)) (parse_int buf p)"
proof (cases "p < length buf")
  case True
  then have "drop p buf = buf ! p # drop (Suc p) buf" by (simp add: Cons_nth_drop_Suc)
  with True show ?thesis
    by (simp add: parse_int_def Let_def host_parse_loop_eq [symmetric])
next
  case False
  with assms show ?thesis by (simp add: parse_int_def)
qed

section \<open>The round trip\<close>

text \<open>
  The range test of the encoder says that the bits above the seven-bit groups it writes are
  copies of the sign, and that the parser recovers the sign from the top two bits of the
  first group.
\<close>

lemma bit_drop_div: "bit (k :: int) (n + j) = bit (k div 2 ^ n) j"
  by (metis bit_drop_bit_eq drop_bit_eq_div comp_apply)

lemma bit_u32_sint: "m < 32 \<Longrightarrow> bit (v :: u32) m = bit (sint v) m"
  by (simp add: bit_sint_iff)

lemma range_quotient:
  fixes k :: int
  assumes "- (2 ^ n) \<le> k" "k < 3 * 2 ^ n"
  shows "k div 2 ^ n = -1 \<or> k div 2 ^ n = 0 \<or> k div 2 ^ n = 1 \<or> k div 2 ^ n = 2"
proof -
  let ?q = "k div 2 ^ n"
  have m: "k = ?q * 2 ^ n + k mod 2 ^ n" by (rule div_mult_mod_eq [symmetric])
  have r: "0 \<le> k mod 2 ^ n" "k mod 2 ^ n < 2 ^ n" by simp_all
  have "- 1 \<le> ?q"
  proof (rule ccontr)
    assume "\<not> - 1 \<le> ?q"
    then have "?q * 2 ^ n \<le> - 2 * 2 ^ n" by (intro mult_right_mono) auto
    with m r assms(1) show False by linarith
  qed
  moreover have "?q < 3"
  proof (rule ccontr)
    assume "\<not> ?q < 3"
    then have "3 * 2 ^ n \<le> ?q * 2 ^ n" by (intro mult_right_mono) auto
    with m r assms(2) show False by linarith
  qed
  ultimately show ?thesis by arith
qed

lemma range_bits:
  fixes v :: u32
  assumes "- (2 ^ n) \<le> sint v" "sint v < 3 * 2 ^ n" "n \<le> 29" "n + 2 \<le> m" "m < 32"
  shows "bit v m \<longleftrightarrow> bit v n \<and> bit v (n + 1)"
proof -
  let ?q = "sint v div 2 ^ n"
  have q: "?q = -1 \<or> ?q = 0 \<or> ?q = 1 \<or> ?q = 2" by (rule range_quotient) (fact assms(1,2))+
  have b: "bit v (n + j) = bit ?q j" if "n + j < 32" for j
    using that by (simp add: bit_u32_sint bit_drop_div)
  have b0: "bit v n = bit ?q 0" and b1: "bit v (n + 1) = bit ?q 1"
    using b [of 0] b [of 1] assms(3) by simp_all
  obtain j where "m = n + (j + 2)"
    using assms(4) by (metis add.commute add.left_commute le_Suc_ex)
  then have "bit v m = bit ?q (j + 2)" using b assms(5) by blast
  moreover have "bit (2 :: int) (j + 2) = False" "bit (1 :: int) (j + 2) = False"
    using bit_exp_iff [of 1 "j + 2", where ?'a = int] by (simp_all add: bit_1_iff)
  ultimately show ?thesis using q b0 b1
    by (elim disjE) (simp_all add: bit_minus_1_iff bit_1_iff bit_0)
qed

text \<open>The parser on the bytes of a buffer, one byte at a time.\<close>

lemma parse_int_Cons:
  assumes "drop p buf = c # rest"
  shows "parse_int buf p =
     parse_int_loop buf (Suc p) c
       (let v = ucast (c AND 0x7f) in if c AND 0x60 = 0x60 then v OR - 0x20 else v)"
  using drop_eq_ConsD [OF assms] by (simp add: parse_int_def Let_def)

lemma parse_loop_more:
  assumes "drop p buf = c' # rest" and "bit c 7"
  shows "parse_int_loop buf p c v =
     parse_int_loop buf (Suc p) c' (push_bit 7 v OR ucast (c' AND 0x7f))"
proof -
  have "c AND 0x80 \<noteq> 0"
  proof
    assume "c AND 0x80 = 0"
    then have "bit (c AND 0x80) 7 = bit (0 :: u8) 7" by simp
    with assms(2) show False by (simp add: bit_and_iff)
  qed
  with drop_eq_ConsD [OF assms(1)] show ?thesis by (simp add: parse_int_loop.simps [of buf p])
qed

lemma parse_loop_stop:
  assumes "\<not> bit c 7"
  shows "parse_int_loop buf p c v = Some (v, p)"
proof -
  have "c AND 0x80 = 0"
    by (rule word8_eqI, unfold all_less_8) (use assms in \<open>simp add: bit_and_iff\<close>)
  then show ?thesis by (simp add: parse_int_loop.simps [of buf p])
qed

lemma sign_test: "c AND 0x60 = 0x60 \<longleftrightarrow> bit (c :: u8) 5 \<and> bit c 6"
proof
  assume h: "c AND 0x60 = 0x60"
  have "bit (c AND 0x60) 5 = bit (0x60 :: u8) 5" "bit (c AND 0x60) 6 = bit (0x60 :: u8) 6"
    by (simp_all only: h)
  then show "bit c 5 \<and> bit c 6" by (simp add: bit_and_iff)
next
  assume "bit c 5 \<and> bit c 6"
  then show "c AND 0x60 = 0x60"
    by (intro word8_eqI, unfold all_less_8) (simp add: bit_and_iff)
qed

lemma sign_fill: "(- 0x20 :: u32) = 0xffffffe0"
  by code_simp

text \<open>The first group alone, with its sign.\<close>

definition vlq_head :: "u8 \<Rightarrow> u32" where
  "vlq_head c = (let v = ucast (c AND 0x7f) in if c AND 0x60 = 0x60 then v OR - 0x20 else v)"

lemma bit_vlq_head:
  assumes "n < 32"
  shows "bit (vlq_head c) n \<longleftrightarrow> (if n < 7 then bit c n else bit c 5 \<and> bit c 6)"
proof -
  have "\<forall>n<32. bit (vlq_head c) n \<longleftrightarrow> (if n < 7 then bit c n else bit c 5 \<and> bit c 6)"
    unfolding all_less_32 all_less_16 vlq_head_def Let_def sign_test sign_fill
    by (simp add: bit_simps bitblast)
  with assms show ?thesis by blast
qed

lemma vlq1:
  assumes "- (2 ^ 5) \<le> sint v" "sint v < 3 * 2 ^ 5"
  shows "vlq_head (ucast (v AND 0x7f)) = v"
proof (rule word32_eqI)
  note r = range_bits [OF assms, simplified]
  show "\<forall>n<32. bit (vlq_head (ucast (v AND 0x7f))) n = bit v n"
    unfolding all_less_32 all_less_16
    by (simp add: bit_vlq_head bit_simps bitblast r)
qed

text \<open>A further group is shifted in below.\<close>

definition vlq_more :: "u32 \<Rightarrow> u8 \<Rightarrow> u32" where
  "vlq_more v c = push_bit 7 v OR ucast (c AND 0x7f)"

lemma bit_vlq_more:
  assumes "n < 32"
  shows "bit (vlq_more v c) n \<longleftrightarrow> (if n < 7 then bit c n else bit v (n - 7))"
proof -
  have "\<forall>n<32. bit (vlq_more v c) n \<longleftrightarrow> (if n < 7 then bit c n else bit v (n - 7))"
    unfolding all_less_32 all_less_16 vlq_more_def
    by (simp add: bit_simps bitblast)
  with assms show ?thesis by blast
qed

lemmas vlq_bits = all_less_32 all_less_16

lemma vlq2:
  assumes "- (2 ^ 12) \<le> sint v" "sint v < 3 * 2 ^ 12"
  shows "vlq_more (vlq_head (ucast ((drop_bit 7 v AND 0x7f) OR 0x80))) (ucast (v AND 0x7f)) = v"
  by (rule word32_eqI, unfold vlq_bits)
    (simp add: bit_vlq_more bit_vlq_head bit_simps bitblast range_bits [OF assms, simplified])

lemma vlq3:
  assumes "- (2 ^ 19) \<le> sint v" "sint v < 3 * 2 ^ 19"
  shows "vlq_more (vlq_more (vlq_head (ucast ((drop_bit 14 v AND 0x7f) OR 0x80)))
           (ucast ((drop_bit 7 v AND 0x7f) OR 0x80))) (ucast (v AND 0x7f)) = v"
  by (rule word32_eqI, unfold vlq_bits)
    (simp add: bit_vlq_more bit_vlq_head bit_simps bitblast range_bits [OF assms, simplified])

lemma vlq4:
  assumes "- (2 ^ 26) \<le> sint v" "sint v < 3 * 2 ^ 26"
  shows "vlq_more (vlq_more (vlq_more (vlq_head (ucast ((drop_bit 21 v AND 0x7f) OR 0x80)))
           (ucast ((drop_bit 14 v AND 0x7f) OR 0x80)))
           (ucast ((drop_bit 7 v AND 0x7f) OR 0x80))) (ucast (v AND 0x7f)) = v"
  by (rule word32_eqI, unfold vlq_bits)
    (simp add: bit_vlq_more bit_vlq_head bit_simps bitblast range_bits [OF assms, simplified])

lemma vlq5:
  "vlq_more (vlq_more (vlq_more (vlq_more (vlq_head (ucast (drop_bit 28 v OR 0x80)))
     (ucast ((drop_bit 21 v AND 0x7f) OR 0x80)))
     (ucast ((drop_bit 14 v AND 0x7f) OR 0x80)))
     (ucast ((drop_bit 7 v AND 0x7f) OR 0x80))) (ucast (v AND 0x7f)) = v"
  by (rule word32_eqI, unfold vlq_bits)
    (simp add: bit_vlq_more bit_vlq_head bit_simps bitblast)

lemma cont_bit: "bit (ucast ((w :: u32) OR 0x80) :: u8) 7" and stop_bit: "\<not> bit (ucast (w AND 0x7f) :: u8) 7"
  by (simp_all add: bit_simps)

lemma parse_step:
  assumes "drop p buf = c # rest"
  shows "parse_int buf p = parse_int_loop buf (Suc p) c (vlq_head c)"
  using parse_int_Cons [OF assms] by (simp add: vlq_head_def)

lemma parse_loop_step:
  assumes "drop p buf = c' # rest" and "bit c 7"
  shows "parse_int_loop buf p c v = parse_int_loop buf (Suc p) c' (vlq_more v c')"
  using parse_loop_more [OF assms] by (simp add: vlq_more_def)

text \<open>
  The shape of an encoded integer: every byte but the last has the continuation bit. On
  such a run of bytes the parser stops after the last one, with the groups folded up.
\<close>

fun vlq_shape :: "u8 list \<Rightarrow> bool" where
  "vlq_shape [] = False"
| "vlq_shape [c] = (\<not> bit c 7)"
| "vlq_shape (c # cs) = (bit c 7 \<and> vlq_shape cs)"

definition vlq_value :: "u8 list \<Rightarrow> u32" where
  "vlq_value bs = foldl vlq_more (vlq_head (hd bs)) (tl bs)"

lemma parse_loop_shape:
  assumes "vlq_shape (c # cs)" and "drop p buf = cs @ rest"
  shows "parse_int_loop buf p c v = Some (foldl vlq_more v cs, p + length cs)"
  using assms
proof (induction cs arbitrary: c p v)
  case Nil
  then show ?case by (simp add: parse_loop_stop)
next
  case (Cons c' cs)
  from Cons.prems have d: "drop p buf = c' # (cs @ rest)" and c: "bit c 7" by simp_all
  from Cons.IH [of c' "Suc p" "vlq_more v c'"] Cons.prems drop_eq_ConsD(3) [OF d]
  show ?case by (simp add: parse_loop_step [OF d c])
qed

lemma parse_int_shape:
  assumes "vlq_shape bs" and "drop p buf = bs @ rest"
  shows "parse_int buf p = Some (vlq_value bs, p + length bs)"
proof -
  obtain c cs where bs: "bs = c # cs" using assms(1) by (cases bs) auto
  with assms(2) have d: "drop p buf = c # (cs @ rest)" by simp
  from parse_loop_shape [of c cs "Suc p" buf rest] assms(1) bs drop_eq_ConsD(3) [OF d]
  show ?thesis by (simp add: parse_step [OF d] vlq_value_def)
qed

lemma encode_int_shape: "vlq_shape (encode_int v)"
  unfolding encode_int_def Let_def by (simp add: cont_bit stop_bit)

lemma encode_int_value: "vlq_value (encode_int v) = v"
  unfolding encode_int_def Let_def vlq_value_def
  using vlq1 [of v] vlq2 [of v] vlq3 [of v] vlq4 [of v] vlq5 [of v]
  by (simp split: if_split)

lemma encode_int_parse:
  assumes "drop p buf = encode_int v @ rest"
  shows "parse_int buf p = Some (v, p + length (encode_int v))"
  using parse_int_shape [OF encode_int_shape assms] by (simp add: encode_int_value)

lemma encode_int_length: "1 \<le> length (encode_int v) \<and> length (encode_int v) \<le> 5"
  unfolding encode_int_def Let_def by simp

text \<open>The parser moves on by at least one byte and stays inside the buffer.\<close>

lemma parse_int_loop_bounds:
  "parse_int_loop buf p c v = Some (w, q) \<Longrightarrow> p \<le> length buf \<Longrightarrow> p \<le> q \<and> q \<le> length buf"
proof (induction buf p c v rule: parse_int_loop.induct)
  case (1 buf p c v)
  show ?case
  proof (cases "c AND 0x80 \<noteq> 0")
    case True
    with 1 show ?thesis
      by (auto simp: parse_int_loop.simps [of buf p c v] split: if_splits)
  next
    case False
    with 1 show ?thesis by (simp add: parse_int_loop.simps [of buf p c v])
  qed
qed

lemma parse_int_bounds:
  assumes "parse_int buf p = Some (w, q)"
  shows "p < q \<and> q \<le> length buf"
proof -
  from assms have p: "p < length buf" by (simp add: parse_int_def split: if_splits)
  with assms obtain v where "parse_int_loop buf (Suc p) (buf ! p) v = Some (w, q)"
    by (auto simp: parse_int_def Let_def)
  from parse_int_loop_bounds [OF this] p show ?thesis by simp
qed

text \<open>The parser returns when some byte ahead has no continuation bit.\<close>

lemma parse_int_loop_stops:
  assumes "p \<le> k" "k < length buf" "\<not> bit (buf ! k) 7"
  shows "\<exists>w q. parse_int_loop buf p c v = Some (w, q) \<and> q \<le> Suc k"
  using assms(1)
proof (induction "k - p" arbitrary: p c v)
  case 0
  then have "p = k" by simp
  show ?case
  proof (cases "bit c 7")
    case True
    have "drop p buf = buf ! p # drop (Suc p) buf"
      using assms(2) \<open>p = k\<close> by (simp add: Cons_nth_drop_Suc)
    from parse_loop_step [OF this True] show ?thesis
      using assms(3) \<open>p = k\<close> by (simp add: parse_loop_stop)
  next
    case False
    with \<open>p = k\<close> show ?thesis by (simp add: parse_loop_stop)
  qed
next
  case (Suc n)
  show ?case
  proof (cases "bit c 7")
    case True
    have "drop p buf = buf ! p # drop (Suc p) buf"
      using assms(2) Suc by (simp add: Cons_nth_drop_Suc)
    from parse_loop_step [OF this True] Suc.hyps(1) [of "Suc p"] Suc.hyps(2) show ?thesis
      by simp
  next
    case False
    with Suc.prems show ?thesis by (auto simp: parse_loop_stop)
  qed
qed

lemma parse_int_stops:
  assumes "p \<le> k" "k < length buf" "\<not> bit (buf ! k) 7"
  shows "\<exists>w q. parse_int buf p = Some (w, q) \<and> q \<le> Suc k"
proof (cases "p = k")
  case True
  with assms show ?thesis by (auto simp: parse_int_def Let_def parse_loop_stop)
next
  case False
  with assms parse_int_loop_stops [of "Suc p" k buf] show ?thesis
    by (simp add: parse_int_def Let_def)
qed

section \<open>Message ids\<close>

lemma msgid_join:
  assumes "m < 2 ^ 14"
  shows "push_bit 7 (ucast (ucast (drop_bit 7 m OR 0x80) :: u8) AND 0x7f)
           OR ucast (ucast (m AND 0x7f) :: u8) = (m :: u16)"
proof -
  have h: "\<not> bit m k" if "14 \<le> k" for k
    using bit_high_unset [OF assms _ that] by simp
  show ?thesis
    by (rule word16_eqI, unfold all_less_16) (simp add: bit_simps bitblast h)
qed

lemma msgid_small:
  assumes "m < 0x80"
  shows "ucast (ucast (m AND 0x7f) :: u8) = (m :: u16)" and "\<not> bit (ucast (m AND 0x7f) :: u8) 7"
proof -
  have h: "\<not> bit m k" if "7 \<le> k" for k
    using bit_high_unset [of m 7 k] assms that by simp
  show "ucast (ucast (m AND 0x7f) :: u8) = (m :: u16)"
    by (rule word16_eqI, unfold all_less_16) (simp add: bit_simps bitblast h)
  show "\<not> bit (ucast (m AND 0x7f) :: u8) 7" by (simp add: bit_simps)
qed

lemma msgid_cont: "(ucast c :: u16) AND 0x80 \<noteq> 0 \<longleftrightarrow> bit (c :: u8) 7"
proof
  assume "bit c 7"
  then have "bit (ucast c AND (0x80 :: u16)) 7" by (simp add: bit_simps)
  then show "(ucast c :: u16) AND 0x80 \<noteq> 0" by (metis bit_0_eq bot_apply bot_bool_def)
next
  assume h: "(ucast c :: u16) AND 0x80 \<noteq> 0"
  show "bit c 7"
  proof (rule ccontr)
    assume "\<not> bit c 7"
    then have "(ucast c :: u16) AND 0x80 = 0"
      by (intro word16_eqI, unfold all_less_16) (simp add: bit_simps)
    with h show False by simp
  qed
qed

lemma encode_msgid_parse:
  assumes "m < 2 ^ 14" and "drop p buf = encode_msgid m @ rest"
  shows "command_parse_msgid buf p = Some (m, p + length (encode_msgid m))"
proof (cases "m \<ge> 0x80")
  case True
  with assms(2) have d: "drop p buf = ucast (drop_bit 7 m OR 0x80) # (ucast (m AND 0x7f) # rest)"
    by (simp add: encode_msgid_def)
  note d2 = drop_eq_ConsD(3) [OF d]
  have "bit (ucast (drop_bit 7 m OR 0x80) :: u8) 7" by (simp add: bit_simps)
  with True drop_eq_ConsD [OF d] drop_eq_ConsD [OF d2] msgid_join [OF assms(1)] show ?thesis
    by (simp add: command_parse_msgid_def Let_def msgid_cont encode_msgid_def)
next
  case False
  then have "m < 0x80" by simp
  with assms(2) have d: "drop p buf = ucast (m AND 0x7f) # rest" by (simp add: encode_msgid_def)
  have "(ucast (buf ! p) :: u16) AND 0x80 = 0"
    using msgid_cont [of "buf ! p"] drop_eq_ConsD(2) [OF d] msgid_small(2) [OF \<open>m < 0x80\<close>] by simp
  with drop_eq_ConsD [OF d] msgid_small [OF \<open>m < 0x80\<close>] False show ?thesis
    by (simp add: command_parse_msgid_def Let_def encode_msgid_def)
qed

section \<open>Sequences of encoded values\<close>

text \<open>
  What a reader of a stream of encoded values relies on: decoding at the position of an
  encoded value gives the value and the position after it. The laws for sequences follow.
\<close>

fun read_many :: "('b list \<Rightarrow> nat \<Rightarrow> ('v \<times> nat) option) \<Rightarrow> nat \<Rightarrow> 'b list \<Rightarrow> nat \<Rightarrow> ('v list \<times> nat) option"
where
  "read_many dec 0 buf p = Some ([], p)"
| "read_many dec (Suc n) buf p =
     (case dec buf p of None \<Rightarrow> None
      | Some (v, q) \<Rightarrow> map_option (\<lambda>(vs, r). (v # vs, r)) (read_many dec n buf q))"

locale stream_codec =
  fixes enc :: "'v \<Rightarrow> 'b list" and dec :: "'b list \<Rightarrow> nat \<Rightarrow> ('v \<times> nat) option"
  assumes dec_enc: "drop p buf = enc v @ rest \<Longrightarrow> dec buf p = Some (v, p + length (enc v))"
    and enc_nonempty: "enc v \<noteq> []"
begin

lemma read_many_enc:
  "drop p buf = concat (map enc vs) @ rest \<Longrightarrow>
     read_many dec (length vs) buf p = Some (vs, p + length (concat (map enc vs)))"
proof (induction vs arbitrary: p)
  case Nil
  then show ?case by simp
next
  case (Cons v vs)
  then have d: "drop p buf = enc v @ (concat (map enc vs) @ rest)" by simp
  from drop_appendD [OF d] show ?case using Cons.IH dec_enc [OF d] by (simp add: add.assoc)
qed

lemma enc_inj: "enc v = enc w \<Longrightarrow> v = w"
  using dec_enc [of 0 "enc v" v "[]"] dec_enc [of 0 "enc v" w "[]"] by simp

lemma concat_enc_inj:
  assumes "length vs = length ws" "concat (map enc vs) = concat (map enc ws)"
  shows "vs = ws"
  using read_many_enc [of 0 "concat (map enc vs)" vs "[]"]
    read_many_enc [of 0 "concat (map enc vs)" ws "[]"] assms by simp

end

interpretation vlq: stream_codec encode_int parse_int
proof
  show "encode_int v \<noteq> []" for v using encode_int_length [of v] by auto
qed (rule encode_int_parse)

section \<open>Properties\<close>

text \<open>
  C37: whatever follows in the buffer, parsing an encoded 32-bit integer gives the integer back,
  with the read position just after its at most five bytes, on the micro-controller and on the
  host.
\<close>

theorem vlq_round_trip:
  "parse_int (pre @ encode_int v @ rest) (length pre) = Some (v, length pre + length (encode_int v)) \<and>
   host_parse_int (host_encode_int v @ rest) = Some (v, rest) \<and>
   1 \<le> length (encode_int v) \<and> length (encode_int v) \<le> 5"
proof -
  have p: "parse_int (pre @ encode_int v @ rest) (length pre) = Some (v, length pre + length (encode_int v))"
    for pre by (rule encode_int_parse) simp
  then have "host_parse_int (encode_int v @ rest) = Some (v, rest)"
    using host_parse_int_eq [of 0 "encode_int v @ rest"] p [of "[]"] by simp
  with p show ?thesis using encode_int_length [of v] by (simp add: host_encode_int_eq)
qed

end
