(* ===== verification/Msgblock.thy ===== *)
theory Msgblock
  imports Complex_Main Crc16 Vlq
begin

text \<open>
  The message blocks of the serial protocol as the host sees them
  (\<^verbatim>\<open>src/klippy/chelper/msgblock.c\<close> and \<^verbatim>\<open>msgblock.h\<close>): the frame around a block, the check
  of incoming bytes, encoding and decoding of the contents, and the extension of 32-bit
  clocks. Times of type \<^verbatim>\<open>double\<close> are modelled by real numbers.
\<close>

section \<open>Constants and the shape of a block\<close>

abbreviation (input) MESSAGE_MIN :: nat where "MESSAGE_MIN \<equiv> 5"
abbreviation (input) MESSAGE_MAX :: nat where "MESSAGE_MAX \<equiv> 64"
abbreviation (input) MESSAGE_HEADER_SIZE :: nat where "MESSAGE_HEADER_SIZE \<equiv> 2"
abbreviation (input) MESSAGE_TRAILER_SIZE :: nat where "MESSAGE_TRAILER_SIZE \<equiv> 3"
abbreviation (input) MESSAGE_PAYLOAD_MAX :: nat where "MESSAGE_PAYLOAD_MAX \<equiv> 59"
abbreviation (input) MESSAGE_SEQ_MASK :: u8 where "MESSAGE_SEQ_MASK \<equiv> 0x0f"
abbreviation (input) MESSAGE_DEST :: u8 where "MESSAGE_DEST \<equiv> 0x10"
abbreviation (input) MESSAGE_SYNC :: u8 where "MESSAGE_SYNC \<equiv> 0x7e"

text \<open>The two CRC bytes of a block that ends at \<open>n\<close>, read back as a number.\<close>

definition read_crc :: "u8 list \<Rightarrow> nat \<Rightarrow> u16" where
  "read_crc buf n = push_bit 8 (ucast (buf ! (n - 3))) OR ucast (buf ! (n - 2))"

text \<open>What the protocol promises about a complete block.\<close>

definition valid_block :: "u8 list \<Rightarrow> bool" where
  "valid_block b \<longleftrightarrow>
     MESSAGE_MIN \<le> length b \<and> length b \<le> MESSAGE_MAX \<and>
     unat (b ! 0) = length b \<and>
     b ! 1 AND NOT MESSAGE_SEQ_MASK = MESSAGE_DEST \<and>
     b ! (length b - 1) = MESSAGE_SYNC \<and>
     read_crc b (length b) = crc16_ccitt b (length b - 3)"

section \<open>Checking incoming bytes\<close>

text \<open>The code after the label \<^verbatim>\<open>error\<close>: skip to the next sync byte.\<close>

definition msgblock_resync :: "u8 list \<Rightarrow> nat \<Rightarrow> int \<times> u8" where
  "msgblock_resync buf buf_len =
     (case memchr buf MESSAGE_SYNC buf_len of
        Some i \<Rightarrow> (- (int i + 1), 0)
      | None \<Rightarrow> (- int buf_len, 1))"

definition msgblock_check :: "u8 \<Rightarrow> u8 list \<Rightarrow> nat \<Rightarrow> int \<times> u8" where
  "msgblock_check need_sync buf buf_len =
     (if buf_len < MESSAGE_MIN then (0, need_sync)
      else if need_sync \<noteq> 0 then msgblock_resync buf buf_len
      else let msglen = unat (buf ! 0) in
        if msglen < MESSAGE_MIN \<or> msglen > MESSAGE_MAX then msgblock_resync buf buf_len
        else let msgseq = buf ! 1 in
          if msgseq AND NOT MESSAGE_SEQ_MASK \<noteq> MESSAGE_DEST then msgblock_resync buf buf_len
          else if buf_len < msglen then (0, need_sync)
          else if buf ! (msglen - 1) \<noteq> MESSAGE_SYNC then msgblock_resync buf buf_len
          else if msgblock_crc16_ccitt buf (msglen - 3) \<noteq> read_crc buf msglen
          then msgblock_resync buf buf_len
          else (int msglen, need_sync))"

lemma msgblock_resync_neg:
  assumes "msgblock_resync buf n = (r, ns)" "0 < n"
  shows "r < 0 \<and> - r \<le> int n"
  using assms by (auto simp: msgblock_resync_def dest: memchr_Some split: option.splits)

text \<open>A positive answer is exactly a valid block at the front of the buffer.\<close>

lemma valid_block_take:
  assumes "n \<le> length buf" "5 \<le> n"
  shows "valid_block (take n buf) \<longleftrightarrow>
     n \<le> MESSAGE_MAX \<and> unat (buf ! 0) = n \<and>
     buf ! 1 AND NOT MESSAGE_SEQ_MASK = MESSAGE_DEST \<and>
     buf ! (n - 1) = MESSAGE_SYNC \<and> read_crc buf n = crc16_ccitt buf (n - 3)"
  using assms
  by (auto simp: valid_block_def read_crc_def crc16_ccitt_def min_def)

lemma msgblock_check_pos_iff:
  assumes "buf_len \<le> length buf"
  shows "msgblock_check 0 buf buf_len = (int n, 0) \<and> 0 < n \<longleftrightarrow>
     n \<le> buf_len \<and> valid_block (take n buf)"
proof
  assume h: "msgblock_check 0 buf buf_len = (int n, 0) \<and> 0 < n"
  define m where "m = unat (buf ! 0)"
  have u: "uint (buf ! 0) = int m" by (simp add: m_def)
  have r: "msgblock_resync buf buf_len \<noteq> (int n, 0)" if "\<not> buf_len < 5"
    using msgblock_resync_neg [of buf buf_len "int n" 0] that h by auto
  with h have "m = n \<and> 5 \<le> n \<and> n \<le> buf_len"
    by (auto simp: msgblock_check_def Let_def u m_def [symmetric] split: if_splits)
  with h r assms show "n \<le> buf_len \<and> valid_block (take n buf)"
    by (auto simp: msgblock_check_def Let_def valid_block_take msgblock_crc16_eq
        m_def [symmetric] split: if_splits)
next
  assume h: "n \<le> buf_len \<and> valid_block (take n buf)"
  then have n: "5 \<le> n" by (simp add: valid_block_def)
  with h assms valid_block_take [of n buf] show "msgblock_check 0 buf buf_len = (int n, 0) \<and> 0 < n"
    by (simp add: msgblock_check_def Let_def msgblock_crc16_eq)
qed

lemma msgblock_check_bounds:
  assumes "msgblock_check ns buf buf_len = (r, ns')"
  shows "\<bar>r\<bar> \<le> int buf_len"
proof (cases "buf_len < 5")
  case True
  with assms show ?thesis by (simp add: msgblock_check_def)
next
  case False
  define m where "m = unat (buf ! 0)"
  have u: "uint (buf ! 0) = int m" by (simp add: m_def)
  from False assms show ?thesis
    using msgblock_resync_neg [of buf buf_len]
    by (auto simp: msgblock_check_def Let_def u m_def [symmetric] split: if_splits)
qed

lemma msgblock_check_skip:
  assumes "MESSAGE_SYNC \<notin> set junk" "5 \<le> n" "length junk < n"
  shows "msgblock_check 1 (junk @ MESSAGE_SYNC # rest) n = (- (int (length junk) + 1), 0)"
  using assms memchr_first [of MESSAGE_SYNC junk n rest]
  by (simp add: msgblock_check_def msgblock_resync_def)

section \<open>Building a block\<close>

text \<open>
  The bytes both senders put around a payload: the length, the sequence byte, the CRC of
  everything before it (high byte first) and the sync byte.
\<close>

definition block_head :: "u8 \<Rightarrow> u8 list \<Rightarrow> u8 list" where
  "block_head seq payload = of_nat (length payload + MESSAGE_MIN) # seq # payload"

definition make_block :: "u8 \<Rightarrow> u8 list \<Rightarrow> u8 list" where
  "make_block seq payload =
     (let h = block_head seq payload; crc = crc16_ccitt h (length h)
      in h @ [ucast (drop_bit 8 crc), ucast crc, MESSAGE_SYNC])"

lemma crc_bytes_join: "push_bit 8 (ucast (ucast (drop_bit 8 c) :: u8)) OR ucast (ucast c :: u8) = (c :: u16)"
  by (rule word16_eqI, unfold all_less_16) (simp add: bit_simps bitblast)

lemma make_block_length: "length (make_block seq payload) = length payload + MESSAGE_MIN"
  by (simp add: make_block_def block_head_def Let_def)

lemma make_block_nth:
  "make_block seq payload ! 0 = of_nat (length payload + MESSAGE_MIN)"
  "make_block seq payload ! 1 = seq"
  by (simp_all add: make_block_def block_head_def Let_def nth_append)

lemma make_block_payload:
  "make_block seq payload = block_head seq payload @ drop (length payload + 2) (make_block seq payload)"
  by (simp add: make_block_def block_head_def Let_def)

lemma make_block_valid:
  assumes "length payload \<le> MESSAGE_PAYLOAD_MAX" "seq AND NOT MESSAGE_SEQ_MASK = MESSAGE_DEST"
  shows "valid_block (make_block seq payload)"
proof -
  let ?b = "make_block seq payload" and ?h = "block_head seq payload"
  let ?crc = "crc16_ccitt ?h (length ?h)"
  have len: "length ?b = length payload + 5" by (rule make_block_length)
  have h: "length ?h = length payload + 2" by (simp add: block_head_def)
  have b: "?b = ?h @ [ucast (drop_bit 8 ?crc), ucast ?crc, MESSAGE_SYNC]"
    by (simp add: make_block_def Let_def)
  have t: "?b ! (length payload + 2) = ucast (drop_bit 8 ?crc)"
    "?b ! (length payload + 3) = ucast ?crc" "?b ! (length payload + 4) = MESSAGE_SYNC"
    by (simp_all add: b nth_append h)
  have c: "crc16_ccitt ?b (length payload + 2) = ?crc"
    by (simp add: b crc16_ccitt_def h)
  have l0: "unat (?b ! 0) = length ?b"
    unfolding make_block_nth len by (rule unat_of_nat_small) (use assms(1) in simp)
  have "read_crc ?b (length ?b) = crc16_ccitt ?b (length ?b - 3)"
    using t c by (simp add: read_crc_def len crc_bytes_join add.commute)
  with l0 t assms make_block_nth(2) [of seq payload] show ?thesis
    unfolding valid_block_def by (simp add: len add.commute)
qed

section \<open>Messages of the host\<close>

text \<open>
  \<^verbatim>\<open>struct queue_message\<close>. The two pairs of the union are separate fields; a message on a
  command queue uses the clocks, a message on a sent or receive queue uses the times.
\<close>

record queue_message =
  qm_len :: nat
  qm_msg :: "u8 list"
  min_clock :: u64
  req_clock :: u64
  sent_time :: real
  receive_time :: real
  notify_id :: u64

definition message_alloc :: queue_message where
  "message_alloc =
     \<lparr>qm_len = 0, qm_msg = replicate MESSAGE_MAX 0, min_clock = 0, req_clock = 0,
      sent_time = 0, receive_time = 0, notify_id = 0\<rparr>"

text \<open>The bytes a message carries.\<close>

definition qm_bytes :: "queue_message \<Rightarrow> u8 list" where
  "qm_bytes qm = take (qm_len qm) (qm_msg qm)"

definition message_fill :: "u8 list \<Rightarrow> nat \<Rightarrow> queue_message option" where
  "message_fill data len =
     map_option (\<lambda>m. message_alloc\<lparr>qm_msg := m, qm_len := len\<rparr>)
       (write_at (qm_msg message_alloc) 0 (take len data))"

text \<open>
  The loop of \<^verbatim>\<open>message_alloc_and_encode\<close>: the array, the write position and whether the
  payload still fits; \<open>None\<close> is a write outside the array.
\<close>

fun encode_loop :: "u8 list \<Rightarrow> nat \<Rightarrow> u32 list \<Rightarrow> (u8 list \<times> nat \<times> bool) option" where
  "encode_loop msg p [] = Some (msg, p, True)"
| "encode_loop msg p (v # vs) =
     (case write_at msg p (host_encode_int v) of
        None \<Rightarrow> None
      | Some msg' \<Rightarrow>
          let p' = p + length (host_encode_int v) in
          if p' > MESSAGE_PAYLOAD_MAX then Some (msg', p', False)
          else encode_loop msg' p' vs)"

definition message_alloc_and_encode :: "u32 list \<Rightarrow> queue_message option" where
  "message_alloc_and_encode data =
     (case encode_loop (qm_msg message_alloc) 0 data of
        None \<Rightarrow> None
      | Some (msg, p, ok) \<Rightarrow>
          Some (message_alloc\<lparr>qm_msg := msg, qm_len := (if ok then p else 0)\<rparr>))"

text \<open>
  \<^verbatim>\<open>message_queue_free\<close> empties the queue; the result pairs the queue left with the
  messages given back to the allocator, first to last.
\<close>

fun message_queue_free :: "queue_message list \<Rightarrow> queue_message list \<times> queue_message list" where
  "message_queue_free [] = ([], [])"
| "message_queue_free (qm # qms) = (let (r, freed) = message_queue_free qms in (r, qm # freed))"

section \<open>Decoding\<close>

text \<open>
  The result is the return value and the numbers stored so far; \<open>None\<close> is a read outside
  the array \<open>msg\<close>.
\<close>

fun decode_loop :: "nat \<Rightarrow> u8 list \<Rightarrow> nat \<Rightarrow> nat \<Rightarrow> (int \<times> u32 list) option" where
  "decode_loop 0 msg p stop = Some (if p \<noteq> stop then - 1 else 0, [])"
| "decode_loop (Suc n) msg p stop =
     (if p \<ge> stop then Some (- 1, [])
      else case host_parse_int (drop p msg) of
             None \<Rightarrow> None
           | Some (v, rest) \<Rightarrow>
               map_option (\<lambda>(r, vs). (r, v # vs))
                 (decode_loop n msg (length msg - length rest) stop))"

definition msgblock_decode :: "nat \<Rightarrow> u8 list \<Rightarrow> nat \<Rightarrow> (int \<times> u32 list) option" where
  "msgblock_decode data_len msg msg_len =
     decode_loop data_len msg MESSAGE_HEADER_SIZE (msg_len - MESSAGE_TRAILER_SIZE)"

section \<open>Clocks\<close>

definition clock_from_clock32 :: "u64 \<Rightarrow> u32 \<Rightarrow> u64" where
  "clock_from_clock32 last_clock clock32 = last_clock + scast (clock32 - ucast last_clock)"

record clock_estimate =
  conv_clock :: u64
  conv_time :: real
  est_freq :: real

text \<open>The conversion of a \<^verbatim>\<open>double\<close> to an integer drops the fraction.\<close>

definition trunc_real :: "real \<Rightarrow> int" where
  "trunc_real x = (if x < 0 then \<lceil>x\<rceil> else \<lfloor>x\<rfloor>)"

definition clock_to_time :: "clock_estimate \<Rightarrow> u64 \<Rightarrow> real" where
  "clock_to_time ce clock = conv_time ce + real_of_int (sint (clock - conv_clock ce)) / est_freq ce"

definition clock_from_time :: "clock_estimate \<Rightarrow> real \<Rightarrow> u64" where
  "clock_from_time ce time =
     of_int (trunc_real ((time - conv_time ce) * est_freq ce + 1 / 2)) + conv_clock ce"

definition clock_fill :: "clock_estimate \<Rightarrow> real \<Rightarrow> real \<Rightarrow> u64 \<Rightarrow> clock_estimate" where
  "clock_fill ce f t c = ce\<lparr>est_freq := f, conv_time := t, conv_clock := c\<rparr>"

section \<open>Lemmas on encoding and decoding\<close>

definition vlq_bytes :: "u32 list \<Rightarrow> u8 list" where
  "vlq_bytes vs = concat (map encode_int vs)"

lemma vlq_bytes_simps [simp]:
  "vlq_bytes [] = []" "vlq_bytes (v # vs) = encode_int v @ vlq_bytes vs"
  by (simp_all add: vlq_bytes_def)

lemma encode_loop_spec:
  assumes "length msg = MESSAGE_MAX" "p \<le> MESSAGE_PAYLOAD_MAX"
  shows "\<exists>msg' p' ok. encode_loop msg p vs = Some (msg', p', ok) \<and>
     length msg' = MESSAGE_MAX \<and> p' \<le> MESSAGE_MAX \<and>
     (ok \<longleftrightarrow> p + length (vlq_bytes vs) \<le> MESSAGE_PAYLOAD_MAX) \<and>
     (ok \<longrightarrow> p' = p + length (vlq_bytes vs) \<and> take p' msg' = take p msg @ vlq_bytes vs)"
  using assms
proof (induction vs arbitrary: msg p)
  case Nil
  then show ?case by auto
next
  case (Cons v vs)
  let ?e = "encode_int v"
  have e5: "length ?e \<le> 5" using encode_int_length [of v] by simp
  with Cons.prems obtain msg1 where m1: "write_at msg p ?e = Some msg1"
    by (auto simp: write_at_def)
  then have len1: "length msg1 = 64" and t1: "take (p + length ?e) msg1 = take p msg @ ?e"
    using write_at_length [OF m1] write_at_take [OF m1] Cons.prems by simp_all
  show ?case
  proof (cases "p + length ?e > 59")
    case True
    with m1 len1 Cons.prems e5 show ?thesis by (auto simp: host_encode_int_eq)
  next
    case False
    with Cons.IH [OF len1, of "p + length ?e"] obtain msg' p' ok where
      r: "encode_loop msg1 (p + length ?e) vs = Some (msg', p', ok)"
      "length msg' = 64" "p' \<le> 64"
      "ok \<longleftrightarrow> p + length ?e + length (vlq_bytes vs) \<le> 59"
      "ok \<longrightarrow> p' = p + length ?e + length (vlq_bytes vs) \<and>
         take p' msg' = take (p + length ?e) msg1 @ vlq_bytes vs"
      by auto
    with m1 False t1 show ?thesis by (auto simp: host_encode_int_eq add.assoc)
  qed
qed

lemma message_encode_spec:
  obtains qm where "message_alloc_and_encode vs = Some qm"
    "length (qm_msg qm) = MESSAGE_MAX" "qm_len qm \<le> MESSAGE_PAYLOAD_MAX"
    "qm_bytes qm = (if length (vlq_bytes vs) \<le> MESSAGE_PAYLOAD_MAX then vlq_bytes vs else [])"
    "notify_id qm = 0"
proof -
  have a: "length (qm_msg message_alloc) = 64" by (simp add: message_alloc_def)
  from encode_loop_spec [OF a, of 0 vs] obtain msg' p' ok where
    r: "encode_loop (qm_msg message_alloc) 0 vs = Some (msg', p', ok)"
    "length msg' = 64" "ok \<longleftrightarrow> length (vlq_bytes vs) \<le> 59"
    "ok \<longrightarrow> p' = length (vlq_bytes vs) \<and> take p' msg' = vlq_bytes vs"
    by auto
  show ?thesis
    by (rule that [of "message_alloc\<lparr>qm_msg := msg', qm_len := (if ok then p' else 0)\<rparr>"])
      (use r in \<open>auto simp: message_alloc_and_encode_def qm_bytes_def message_alloc_def\<close>)
qed

text \<open>The position a parse of the remaining bytes leaves behind.\<close>

lemma host_parse_at:
  assumes "p \<le> length msg"
  shows "host_parse_int (drop p msg) =
     (case parse_int msg p of None \<Rightarrow> None | Some (v, q) \<Rightarrow> Some (v, drop q msg))"
  using host_parse_int_eq [OF assms] by (auto split: option.splits)

lemma decode_loop_Suc:
  assumes "p < stop" "stop \<le> length msg"
  shows "decode_loop (Suc n) msg p stop =
     (case parse_int msg p of None \<Rightarrow> None
      | Some (v, q) \<Rightarrow> map_option (\<lambda>(r, vs). (r, v # vs)) (decode_loop n msg q stop))"
  using assms host_parse_at [of p msg] parse_int_bounds [of msg p]
  by (auto split: option.splits)

lemma decode_loop_values:
  assumes "drop p msg = vlq_bytes vs @ rest" "p + length (vlq_bytes vs) = stop" "stop \<le> length msg"
  shows "decode_loop (length vs) msg p stop = Some (0, vs)"
  using assms
proof (induction vs arbitrary: p)
  case Nil
  then show ?case by simp
next
  case (Cons v vs)
  let ?e = "encode_int v"
  from Cons.prems have d: "drop p msg = ?e @ (vlq_bytes vs @ rest)" by simp
  have "p < stop" using Cons.prems encode_int_length [of v] by simp
  moreover have "drop (p + length ?e) msg = vlq_bytes vs @ rest"
    using drop_appendD [OF d] .
  ultimately show ?case
    using Cons.IH [of "p + length ?e"] Cons.prems encode_int_parse [OF d]
    by (simp add: decode_loop_Suc del: decode_loop.simps)
qed

lemma decode_loop_total:
  assumes "p \<le> stop" "stop < k" "k < length msg" "\<not> bit (msg ! k) 7"
  shows "\<exists>r vs. decode_loop n msg p stop = Some (r, vs)"
proof (cases "n = 0 \<or> p \<ge> stop")
  case True
  then show ?thesis by (cases n) auto
next
  case False
  then show ?thesis using assms(1)
  proof (induction n arbitrary: p)
    case 0
    then show ?case by simp
  next
    case (Suc n)
    with assms have "p \<le> k" by simp
    from parse_int_stops [OF this assms(3,4)] obtain v q where q: "parse_int msg p = Some (v, q)"
      by blast
    have "\<exists>r vs. decode_loop n msg q stop = Some (r, vs)"
    proof (cases "n = 0 \<or> q \<ge> stop")
      case True
      then show ?thesis by (cases n) auto
    next
      case False
      with Suc.IH [of q] show ?thesis by simp
    qed
    with q Suc.prems assms show ?case
      by (auto simp: decode_loop_Suc simp del: decode_loop.simps)
  qed
qed

section \<open>Lemmas on clocks\<close>

lemma clock_from_clock32_low: "ucast (clock_from_clock32 last_clock clock32) = clock32"
  by (simp add: clock_from_clock32_def ucast_add_down ucast_scast_u32)

lemma clock_from_clock32_near:
  "- (2 ^ 31) \<le> sint (clock_from_clock32 last_clock clock32 - last_clock)"
  "sint (clock_from_clock32 last_clock clock32 - last_clock) < 2 ^ 31"
proof -
  let ?d = "clock32 - ucast last_clock :: u32"
  have d: "clock_from_clock32 last_clock clock32 - last_clock = scast ?d"
    by (simp add: clock_from_clock32_def)
  have "sint (scast ?d :: u64) = sint ?d" by (rule sint_scast_u64)
  moreover have "- (2 ^ 31) \<le> sint ?d" "sint ?d < 2 ^ 31"
    using sint_ge [of ?d] sint_lt [of ?d] by simp_all
  ultimately show "- (2 ^ 31) \<le> sint (clock_from_clock32 last_clock clock32 - last_clock)"
    "sint (clock_from_clock32 last_clock clock32 - last_clock) < 2 ^ 31"
    by (simp_all only: d)
qed

lemma scast_ucast_near:
  assumes "- (2 ^ 31) \<le> sint (d :: u64)" "sint d < 2 ^ 31"
  shows "scast (ucast d :: u32) = d"
proof -
  have "sint (ucast d :: u32) = sint d"
  proof -
    have "sint (ucast d :: u32) = signed_take_bit 31 (uint d)"
      by (simp add: sint_uint unsigned_ucast_eq)
        (simp add: signed_take_bit_eq_iff_take_bit_eq)
    also have "\<dots> = signed_take_bit 31 (sint d)"
      by (simp add: sint_uint signed_take_bit_eq_iff_take_bit_eq)
    also have "\<dots> = sint d" using assms by (simp add: signed_take_bit_int_eq_self)
    finally show ?thesis .
  qed
  then show ?thesis using sint_scast_u64 [of "ucast d"] by (metis word_eq_iff_signed)
qed

text \<open>
  Rounding of \<^verbatim>\<open>clock_from_time\<close>: adding one half and dropping the fraction is the nearest
  integer only when the sum is not negative.
\<close>

lemma trunc_half_nonneg: "0 \<le> d \<Longrightarrow> trunc_real (real_of_int d + 1 / 2) = d"
  by (simp add: trunc_real_def floor_eq_iff)

lemma trunc_half_neg: "d < 0 \<Longrightarrow> trunc_real (real_of_int d + 1 / 2) = d + 1"
proof -
  assume "d < 0"
  then have "d \<le> - 1" by simp
  then have "real_of_int d \<le> - 1" by linarith
  then have "real_of_int d + 1 / 2 < 0" by simp
  moreover have "\<lceil>real_of_int d + 1 / 2\<rceil> = d + 1" by (simp add: ceiling_eq_iff)
  ultimately show ?thesis by (simp add: trunc_real_def)
qed

lemma clock_round_trip:
  assumes "est_freq ce \<noteq> 0"
  shows "clock_from_time ce (clock_to_time ce clock) =
     (if sint (clock - conv_clock ce) < 0 then clock + 1 else clock)"
proof -
  define d where "d = sint (clock - conv_clock ce)"
  have "(clock_to_time ce clock - conv_time ce) * est_freq ce = real_of_int d"
    unfolding clock_to_time_def d_def [symmetric] using assms by simp
  then have c: "clock_from_time ce (clock_to_time ce clock)
      = of_int (trunc_real (real_of_int d + 1 / 2)) + conv_clock ce"
    by (simp add: clock_from_time_def)
  have w: "of_int d = clock - conv_clock ce" by (simp add: d_def)
  show ?thesis
  proof (cases "d < 0")
    case True
    then have "clock_from_time ce (clock_to_time ce clock) = of_int d + 1 + conv_clock ce"
      using c trunc_half_neg by simp
    with True w show ?thesis by (simp add: d_def [symmetric])
  next
    case False
    then have "clock_from_time ce (clock_to_time ce clock) = of_int d + conv_clock ce"
      using c trunc_half_nonneg by simp
    with False w show ?thesis by (simp add: d_def [symmetric])
  qed
qed

section \<open>Properties\<close>

text \<open>
  C38: given enough bytes in the buffer, \<^verbatim>\<open>msgblock_check\<close> reports a message of \<open>n\<close> bytes exactly
  when the first \<open>n\<close> bytes form a valid block: length, destination, sync byte and CRC.
\<close>

theorem msgblock_check_accepts_valid:
  assumes "buf_len \<le> length buf"
  shows "msgblock_check 0 buf buf_len = (int n, 0) \<and> 0 < n \<longleftrightarrow>
     n \<le> buf_len \<and> valid_block (take n buf)"
  by (rule msgblock_check_pos_iff) (fact assms)

theorem msgblock_check_accepts_valid_witness:
  "msgblock_check 0 [5, 16, 0x9e, 0x81, 0x7e, 1] 6 = (int 5, 0)"
proof -
  have "valid_block (take 5 [5, 16, 0x9e, 0x81, 0x7e, 1])" by code_simp
  then show ?thesis
    using msgblock_check_accepts_valid [of 6 "[5, 16, 0x9e, 0x81, 0x7e, 1]" 5] by simp
qed

text \<open>
  Decoding any valid block stays inside the block, however many numbers are asked for: the
  sync byte stops the variable length integers.
\<close>

theorem msgblock_decode_in_bounds:
  assumes "valid_block b"
  shows "\<exists>r vs. msgblock_decode n b (length b) = Some (r, vs)"
proof -
  from assms have len: "5 \<le> length b" and s: "b ! (length b - 1) = 0x7e"
    by (simp_all add: valid_block_def)
  have "\<not> bit (b ! (length b - 1)) 7" unfolding s by simp
  with len show ?thesis
    unfolding msgblock_decode_def by (intro decode_loop_total [of _ _ "length b - 1"]) auto
qed

theorem msgblock_decode_in_bounds_witness:
  "\<exists>r vs. msgblock_decode 7 [5, 16, 0x9e, 0x81, 0x7e] (length [5, 16, 0x9e, 0x81, 0x7e :: u8]) = Some (r, vs)"
  by (rule msgblock_decode_in_bounds) code_simp

text \<open>
  C39: \<^verbatim>\<open>message_alloc_and_encode\<close> never writes outside \<^verbatim>\<open>msg[64]\<close>; it stores the encodings of all
  the numbers when they fit the payload of a block and an empty message otherwise.
\<close>

theorem message_encode_fits:
  "\<exists>qm. message_alloc_and_encode vs = Some qm \<and>
     length (qm_msg qm) = MESSAGE_MAX \<and> qm_len qm \<le> MESSAGE_PAYLOAD_MAX \<and>
     qm_bytes qm = (if length (vlq_bytes vs) \<le> MESSAGE_PAYLOAD_MAX then vlq_bytes vs else [])"
  by (rule message_encode_spec [of vs]) blast

text \<open>
  The 64-bit clock reconstructed from a 32-bit clock has those 32 low bits and is the one
  nearest to the last known clock, and no other clock has both properties.
\<close>

theorem clock_from_clock32_unique:
  "clock_from_clock32 last_clock clock32 = c \<longleftrightarrow>
     ucast c = clock32 \<and>
     - (2 ^ 31) \<le> sint (c - last_clock) \<and> sint (c - last_clock) < 2 ^ 31"
proof
  assume "clock_from_clock32 last_clock clock32 = c"
  then show "ucast c = clock32 \<and> - (2 ^ 31) \<le> sint (c - last_clock) \<and> sint (c - last_clock) < 2 ^ 31"
    using clock_from_clock32_low [of last_clock clock32] clock_from_clock32_near [of last_clock clock32]
    by auto
next
  assume a: "ucast c = clock32 \<and> - (2 ^ 31) \<le> sint (c - last_clock) \<and> sint (c - last_clock) < 2 ^ 31"
  have "ucast (c - last_clock + last_clock) = (ucast (c - last_clock) + ucast last_clock :: u32)"
    by (rule ucast_add_down)
  with a have "(ucast (c - last_clock) :: u32) = clock32 - ucast last_clock" by simp
  with a scast_ucast_near [of "c - last_clock"] show "clock_from_clock32 last_clock clock32 = c"
    by (simp add: clock_from_clock32_def)
qed



end
