(* ===== verification/Board.thy ===== *)
theory Board
  imports Prelude
begin

text \<open>
  What the architecture-independent firmware sees of its board
  (\<^verbatim>\<open>src/src/generic/misc.h\<close>, \<^verbatim>\<open>irq.h\<close>, \<^verbatim>\<open>gpio.h\<close> and the build configuration). The clock and
  the input pins are arbitrary functions of the number of reads so far: a property that
  holds for every \<open>hw_time\<close> and \<open>hw_pin\<close> holds on every board. Outputs are recorded in the
  order they are made. The records of the firmware's components extend this one, so an
  operation of a component works on every larger state.
\<close>

datatype out_event =
    Sendf string "u32 list" "u8 list"  \<comment> \<open>a response: its format, its numbers, its buffer\<close>
  | Gpio_setup u32 bool
  | Gpio_write u32 bool
  | Gpio_toggle u32
  | Gpio_in_setup u32 u32
  | Gpio_pwm_setup u32 u32 u32
  | Gpio_pwm_write u32 u16
  | Gpio_adc_setup u32
  | Gpio_adc_cancel u32
  | Timer_kick
  | Bootloader_request

record board =
  clock_freq :: u32                  \<comment> \<open>\<^verbatim>\<open>CONFIG_CLOCK_FREQ\<close>\<close>
  inline_stepper_hack :: bool        \<comment> \<open>\<^verbatim>\<open>CONFIG_INLINE_STEPPER_HACK\<close>\<close>
  want_both_edge :: bool             \<comment> \<open>\<^verbatim>\<open>CONFIG_WANT_STEPPER_OPTIMIZED_BOTH_EDGE\<close>\<close>
  mach_avr :: bool                   \<comment> \<open>\<^verbatim>\<open>CONFIG_MACH_AVR\<close>\<close>
  hw_time :: "nat \<Rightarrow> u32"
  hw_pin :: "nat \<Rightarrow> u32 \<Rightarrow> bool"
  hw_reads :: nat
  irq_on :: bool
  out_log :: "out_event list"

definition timer_from_us :: "('z board_scheme) \<Rightarrow> u32 \<Rightarrow> u32" where
  "timer_from_us s us = us * (clock_freq s div 1000000)"

definition timer_read_time :: "('z board_scheme) \<Rightarrow> u32 \<times> 'z board_scheme" where
  "timer_read_time s = (hw_time s (hw_reads s), s\<lparr>hw_reads := Suc (hw_reads s)\<rparr>)"

definition gpio_in_read :: "u32 \<Rightarrow> ('z board_scheme) \<Rightarrow> bool \<times> 'z board_scheme" where
  "gpio_in_read pin s = (hw_pin s (hw_reads s) pin, s\<lparr>hw_reads := Suc (hw_reads s)\<rparr>)"

definition emit :: "out_event \<Rightarrow> ('z board_scheme) \<Rightarrow> 'z board_scheme" where
  "emit e s = s\<lparr>out_log := out_log s @ [e]\<rparr>"

definition irq_disable :: "('z board_scheme) \<Rightarrow> 'z board_scheme" where
  "irq_disable s = s\<lparr>irq_on := False\<rparr>"

definition irq_enable :: "('z board_scheme) \<Rightarrow> 'z board_scheme" where
  "irq_enable s = s\<lparr>irq_on := True\<rparr>"

text \<open>
  The macro \<^verbatim>\<open>shutdown\<close>: \<^verbatim>\<open>sched_shutdown\<close> (\<^verbatim>\<open>src/src/sched.c\<close>) disables interrupts and jumps
  out of the operation.
\<close>

definition sched_shutdown :: "string \<Rightarrow> ('z board_scheme) \<Rightarrow> ('a, 'z board_scheme) outcome" where
  "sched_shutdown reason s = Shutdown reason (irq_disable s)"

lemmas board_defs = timer_from_us_def timer_read_time_def gpio_in_read_def emit_def
  irq_disable_def irq_enable_def sched_shutdown_def

end
