(* ===== verification/Sched.thy ===== *)
theory Sched
  imports Board
begin

text \<open>
  The scheduler of the micro-controller (\<^verbatim>\<open>src/src/sched.c\<close>): the timer list, the flags that
  wake tasks, and the shutdown state. Timers are cells linked by \<^verbatim>\<open>next\<close> pointers, as in the
  source; the lists they form are an abstraction introduced after the operations.
\<close>

section \<open>State\<close>

text \<open>
  A timer is one of the three static timers or the \<open>n\<close>-th timer embedded in the object
  allocated at an address.
\<close>

datatype tmr = Periodic_timer | Sentinel_timer | Deleted_timer | Obj_timer nat nat

datatype timer_fn =
    Periodic_event | Sentinel_event | Deleted_event
  | Stepper_event_full | Trsync_report_event | Trsync_expire_event
  | Endstop_event | Endstop_oversample_event
  | Digital_load_event | Digital_toggle_event
  | Monitor_event | Analog_in_event | Buttons_event | Counter_event | Pwm_event | Pwm_end_event

datatype sched_ret = SF_DONE | SF_RESCHEDULE

datatype task = Trsync_wake | Analog_wake | Buttons_wake | Counter_wake

record sched = board +
  t_next :: "tmr \<Rightarrow> tmr option"
  t_func :: "tmr \<Rightarrow> timer_fn option"
  t_wake :: "tmr \<Rightarrow> u32"
  timer_list :: tmr
  last_insert :: tmr
  tasks_status :: int
  tasks_busy :: int
  shutdown_status :: nat
  shutdown_reason :: string
  task_wake :: "task \<Rightarrow> bool"

definition set_wake :: "tmr \<Rightarrow> u32 \<Rightarrow> 'z sched_scheme \<Rightarrow> 'z sched_scheme" where
  "set_wake t w s = s\<lparr>t_wake := (t_wake s)(t := w)\<rparr>"

definition set_func :: "tmr \<Rightarrow> timer_fn option \<Rightarrow> 'z sched_scheme \<Rightarrow> 'z sched_scheme" where
  "set_func t f s = s\<lparr>t_func := (t_func s)(t := f)\<rparr>"

text \<open>The static initialisers of the three timers and of \<^verbatim>\<open>SchedStatus\<close>.\<close>

definition sched_boot :: "'z sched_scheme \<Rightarrow> 'z sched_scheme" where
  "sched_boot s = s\<lparr>
     t_next := (t_next s)(Periodic_timer := Some Sentinel_timer, Sentinel_timer := None, Deleted_timer := None),
     t_func := (t_func s)(Periodic_timer := Some Periodic_event, Sentinel_timer := Some Sentinel_event,
                          Deleted_timer := Some Deleted_event),
     t_wake := (t_wake s)(Periodic_timer := 0, Sentinel_timer := 0x80000000, Deleted_timer := 0),
     timer_list := Periodic_timer, last_insert := Periodic_timer,
     tasks_status := 0, tasks_busy := 0, shutdown_status := 0, shutdown_reason := []\<rparr>"

section \<open>Tasks\<close>

abbreviation (input) TS_IDLE :: int where "TS_IDLE \<equiv> - 1"
abbreviation (input) TS_REQUESTED :: int where "TS_REQUESTED \<equiv> 0"
abbreviation (input) TS_RUNNING :: int where "TS_RUNNING \<equiv> 1"

definition sched_wake_tasks :: "'z sched_scheme \<Rightarrow> 'z sched_scheme" where
  "sched_wake_tasks s = s\<lparr>tasks_status := TS_REQUESTED\<rparr>"

definition sched_check_set_tasks_busy :: "'z sched_scheme \<Rightarrow> bool \<times> 'z sched_scheme" where
  "sched_check_set_tasks_busy s =
     (if tasks_busy s \<ge> TS_REQUESTED then (True, s)
      else (False, s\<lparr>tasks_busy := tasks_status s\<rparr>))"

definition sched_wake_task :: "task \<Rightarrow> 'z sched_scheme \<Rightarrow> 'z sched_scheme" where
  "sched_wake_task w s =
     (let s = sched_wake_tasks s in s\<lparr>task_wake := (task_wake s)(w := True)\<rparr>)"

definition sched_check_wake :: "task \<Rightarrow> 'z sched_scheme \<Rightarrow> bool \<times> 'z sched_scheme" where
  "sched_check_wake w s =
     (if \<not> task_wake s w then (False, s)
      else (True, s\<lparr>task_wake := (task_wake s)(w := False)\<rparr>))"

section \<open>Timers\<close>

text \<open>
  The search loop of \<^verbatim>\<open>insert_timer\<close>: the two neighbours of the insertion point. \<open>None\<close> is
  running into a NULL \<^verbatim>\<open>next\<close> or never leaving the loop.
\<close>

partial_function (option) insert_loop ::
  "(tmr \<Rightarrow> tmr option) \<Rightarrow> (tmr \<Rightarrow> u32) \<Rightarrow> u32 \<Rightarrow> tmr \<Rightarrow> (tmr \<times> tmr) option"
where
  "insert_loop nxt wake w prev =
     (case nxt prev of
        None \<Rightarrow> None
      | Some pos \<Rightarrow>
          if timer_is_before w (wake pos) then Some (prev, pos)
          else insert_loop nxt wake w pos)"

definition insert_timer :: "tmr \<Rightarrow> tmr \<Rightarrow> u32 \<Rightarrow> 'z sched_scheme \<Rightarrow> (unit, 'z sched_scheme) outcome"
where
  "insert_timer pos t w s =
     (case insert_loop (t_next s) (t_wake s) w pos of
        None \<Rightarrow> Fault
      | Some (prev, pos') \<Rightarrow> Ok () (s\<lparr>t_next := (t_next s)(t := Some pos', prev := Some t)\<rparr>))"

definition sched_try_shutdown :: "string \<Rightarrow> 'z sched_scheme \<Rightarrow> (unit, 'z sched_scheme) outcome" where
  "sched_try_shutdown reason s =
     (if shutdown_status s = 0 then sched_shutdown reason s else Ok () s)"

definition sched_add_timer :: "tmr \<Rightarrow> 'z sched_scheme \<Rightarrow> (unit, 'z sched_scheme) outcome" where
  "sched_add_timer add s =
     (let w = t_wake s add; flag = irq_on s; s = irq_disable s; tl = timer_list s in
      andthen
        (if timer_is_before w (t_wake s tl)
         then let (now, s) = timer_read_time s in
           andthen
             (if timer_is_before w now then sched_try_shutdown ''Timer too close'' s else Ok () s)
             (\<lambda>_ s.
               let s = (if tl = Deleted_timer
                        then s\<lparr>t_next := (t_next s)(add := t_next s Deleted_timer)\<rparr>
                        else s\<lparr>t_next := (t_next s)(add := Some tl)\<rparr>);
                   s = set_wake Deleted_timer w s;
                   s = s\<lparr>t_next := (t_next s)(Deleted_timer := Some add)\<rparr>;
                   s = s\<lparr>timer_list := Deleted_timer\<rparr>
               in Ok () (emit Timer_kick s))
         else insert_timer tl add w s)
        (\<lambda>_ s. Ok () (s\<lparr>irq_on := flag\<rparr>)))"

text \<open>The search loop of \<^verbatim>\<open>sched_del_timer\<close>, returning the changed \<^verbatim>\<open>next\<close> pointers.\<close>

partial_function (option) del_loop ::
  "(tmr \<Rightarrow> tmr option) \<Rightarrow> tmr \<Rightarrow> tmr \<Rightarrow> (tmr \<Rightarrow> tmr option) option"
where
  "del_loop nxt del pos =
     (case nxt pos of
        None \<Rightarrow> Some nxt
      | Some p \<Rightarrow> if p = del then Some (nxt(pos := nxt del)) else del_loop nxt del p)"

definition sched_del_timer :: "tmr \<Rightarrow> 'z sched_scheme \<Rightarrow> (unit, 'z sched_scheme) outcome" where
  "sched_del_timer del s =
     (let flag = irq_on s; s = irq_disable s in
      andthen
        (if timer_list s = del
         then let s = set_wake Deleted_timer (t_wake s del) s;
                  s = s\<lparr>t_next := (t_next s)(Deleted_timer := t_next s del)\<rparr>
              in Ok () (s\<lparr>timer_list := Deleted_timer\<rparr>)
         else case del_loop (t_next s) del (timer_list s) of
                None \<Rightarrow> Fault
              | Some nxt \<Rightarrow> Ok () (s\<lparr>t_next := nxt\<rparr>))
        (\<lambda>_ s.
          let s = (if last_insert s = del then s\<lparr>last_insert := Periodic_timer\<rparr> else s)
          in Ok () (s\<lparr>irq_on := flag\<rparr>)))"

section \<open>Timer functions of the scheduler\<close>

definition periodic_event :: "'z sched_scheme \<Rightarrow> (sched_ret, 'z sched_scheme) outcome" where
  "periodic_event s =
     (let s = sched_wake_tasks s;
          s = set_wake Periodic_timer (t_wake s Periodic_timer + timer_from_us s 100000) s;
          s = set_wake Sentinel_timer (t_wake s Periodic_timer + 0x80000000) s
      in Ok SF_RESCHEDULE s)"

definition sentinel_event :: "'z sched_scheme \<Rightarrow> (sched_ret, 'z sched_scheme) outcome" where
  "sentinel_event s = sched_shutdown ''sentinel timer called'' s"

definition deleted_event :: "'z sched_scheme \<Rightarrow> (sched_ret, 'z sched_scheme) outcome" where
  "deleted_event s = Ok SF_DONE s"

text \<open>
  The call through \<^verbatim>\<open>t->func\<close>. \<open>call\<close> is what the functions of the other components do; a
  NULL pointer means the inlined \<^verbatim>\<open>stepper_event\<close> when the build has it, and is passed on to
  \<open>call\<close> as well.
\<close>

type_synonym 'z timer_call = "timer_fn option \<Rightarrow> tmr \<Rightarrow> 'z sched_scheme \<Rightarrow> (sched_ret, 'z sched_scheme) outcome"

definition timer_func_call :: "'z timer_call \<Rightarrow> tmr \<Rightarrow> 'z sched_scheme \<Rightarrow> (sched_ret, 'z sched_scheme) outcome"
where
  "timer_func_call call t s =
     (case t_func s t of
        Some Periodic_event \<Rightarrow> periodic_event s
      | Some Sentinel_event \<Rightarrow> sentinel_event s
      | Some Deleted_event \<Rightarrow> deleted_event s
      | None \<Rightarrow> if inline_stepper_hack s then call None t s else Fault
      | Some f \<Rightarrow> call (Some f) t s)"

definition sched_timer_dispatch :: "'z timer_call \<Rightarrow> 'z sched_scheme \<Rightarrow> (u32, 'z sched_scheme) outcome"
where
  "sched_timer_dispatch call s =
     (let t = timer_list s in
      andthen (timer_func_call call t s)
        (\<lambda>res s.
          let updated = t_wake s t in
          case t_next s t of
            None \<Rightarrow> Fault
          | Some n \<Rightarrow>
              if res = SF_DONE
              then Ok (t_wake s n)
                     (let s = s\<lparr>timer_list := n\<rparr>
                      in if last_insert s = t then s\<lparr>last_insert := n\<rparr> else s)
              else if \<not> timer_is_before updated (t_wake s n)
              then let s1 = s\<lparr>timer_list := n\<rparr>;
                       pos = last_insert s1;
                       pos = (if timer_is_before updated (t_wake s1 pos) then timer_list s1 else pos)
                   in andthen (insert_timer pos t updated s1)
                        (\<lambda>_ s2. Ok (t_wake s n) (s2\<lparr>last_insert := t\<rparr>))
              else Ok updated s))"

definition sched_timer_reset :: "'z sched_scheme \<Rightarrow> 'z sched_scheme" where
  "sched_timer_reset s =
     (let s = s\<lparr>timer_list := Deleted_timer\<rparr>;
          s = set_wake Deleted_timer (t_wake s Periodic_timer) s;
          s = s\<lparr>t_next := (t_next s)(Deleted_timer := Some Periodic_timer), last_insert := Periodic_timer\<rparr>;
          s = s\<lparr>t_next := (t_next s)(Periodic_timer := Some Sentinel_timer)\<rparr>
      in emit Timer_kick s)"

section \<open>Shutdown processing\<close>

definition sched_is_shutdown :: "'z sched_scheme \<Rightarrow> bool" where
  "sched_is_shutdown s \<longleftrightarrow> shutdown_status s \<noteq> 0"

definition sched_clear_shutdown :: "'z sched_scheme \<Rightarrow> (unit, 'z sched_scheme) outcome" where
  "sched_clear_shutdown s =
     (if shutdown_status s = 0 then sched_shutdown ''Shutdown cleared when not shutdown'' s
      else if shutdown_status s = 2 then Ok () s
      else Ok () (s\<lparr>shutdown_status := 0\<rparr>))"

text \<open>
  \<open>shutdownfuncs\<close> stands for \<^verbatim>\<open>ctr_run_shutdownfuncs\<close>, which the build generates from the
  \<^verbatim>\<open>DECL_SHUTDOWN\<close> declarations.
\<close>

definition run_shutdown ::
  "('z sched_scheme \<Rightarrow> (unit, 'z sched_scheme) outcome) \<Rightarrow> string \<Rightarrow> 'z sched_scheme \<Rightarrow>
     (unit, 'z sched_scheme) outcome"
where
  "run_shutdown shutdownfuncs reason s =
     (let s = irq_disable s;
          (cur, s) = timer_read_time s;
          s = (if shutdown_status s = 0 then s\<lparr>shutdown_reason := reason\<rparr> else s);
          s = s\<lparr>shutdown_status := 2\<rparr>;
          s = sched_timer_reset s
      in andthen (shutdownfuncs s)
           (\<lambda>_ s.
             let s = s\<lparr>shutdown_status := 1\<rparr>;
                 s = irq_enable s
             in Ok () (emit (Sendf (''shutdown clock=%u static_string_id='' @ shutdown_reason s) [cur] []) s)))"

definition sched_report_shutdown :: "'z sched_scheme \<Rightarrow> 'z sched_scheme" where
  "sched_report_shutdown s = emit (Sendf (''is_shutdown static_string_id='' @ shutdown_reason s) [] []) s"

text \<open>
  The code at the \<^verbatim>\<open>setjmp\<close> of \<^verbatim>\<open>sched_main\<close>: an operation that ended in \<open>Shutdown\<close> continues
  here before the task loop runs again.
\<close>

definition sched_main_resume ::
  "('z sched_scheme \<Rightarrow> (unit, 'z sched_scheme) outcome) \<Rightarrow> ('a, 'z sched_scheme) outcome \<Rightarrow>
     (unit, 'z sched_scheme) outcome"
where
  "sched_main_resume shutdownfuncs r =
     (case r of
        Ok _ s \<Rightarrow> Ok () s
      | Shutdown reason s \<Rightarrow>
          andthen (run_shutdown shutdownfuncs reason s) (\<lambda>_ s. Ok () (irq_enable s))
      | Fault \<Rightarrow> Fault)"

end
