(* ===== verification/Sched_Inv.thy ===== *)
theory Sched_Inv
  imports Sched
begin

text \<open>
  The timer list of \<^verbatim>\<open>src/src/sched.c\<close> as a sorted queue. The invariant says that the \<^verbatim>\<open>next\<close>
  pointers link a list without repetition that ends in the sentinel, holds the periodic timer
  and is sorted by wake time, read around the 32-bit clock from the head. Each operation is
  shown to implement the list operation it stands for, in particular never to run past the
  sentinel.
\<close>

section \<open>Clocks seen from a base\<close>

definition off :: "u32 \<Rightarrow> u32 \<Rightarrow> nat" where
  "off b w = unat (w - b)"

lemma off_self [simp]: "off b b = 0"
  by (simp add: off_def)

lemma diff_off: "w - v = (w - b) - (v - b :: u32)"
  by simp

lemma unat_diff_u32:
  "unat (x - y :: u32) = (if unat y \<le> unat x then unat x - unat y else unat x + 2 ^ 32 - unat y)"
  by (simp add: unat_sub_if' word_le_nat_alt)

lemma unat_add_u32: "unat x + unat (y :: u32) < 2 ^ 32 \<Longrightarrow> unat (x + y) = unat x + unat y"
  using unat_add_lem [of x y] by simp

lemma before_off:
  assumes "off b w < 2 ^ 31" "off b v < 2 ^ 31"
  shows "timer_is_before w v \<longleftrightarrow> off b w < off b v"
proof -
  have "unat (w - v) = (if off b v \<le> off b w then off b w - off b v else off b w + 2 ^ 32 - off b v)"
    unfolding off_def diff_off [of w v b] by (rule unat_diff_u32)
  with assms show ?thesis by (auto simp: timer_is_before_iff)
qed

lemma before_off_pos: "timer_is_before w h \<longleftrightarrow> 0 < off w h \<and> off w h \<le> 2 ^ 31"
proof -
  have "unat (w - h) = unat (0 - (h - w))" by simp
  also have "\<dots> = (if unat (h - w) = 0 then 0 else 2 ^ 32 - unat (h - w))"
    unfolding unat_diff_u32 [of 0 "h - w"] by simp
  finally show ?thesis using unsigned_less [of "h - w"] by (auto simp: timer_is_before_iff off_def)
qed

lemma off_rebase:
  assumes "off b h \<le> off b v"
  shows "off h v = off b v - off b h"
  using assms unfolding off_def by (metis diff_off unat_sub word_le_nat_alt)

lemma before_sentinel: "timer_is_before w (p + 0x80000000) \<longleftrightarrow> off p w < 2 ^ 31"
proof -
  have "unat (w - p - 0x80000000)
      = (if 2 ^ 31 \<le> off p w then off p w - 2 ^ 31 else off p w + 2 ^ 32 - 2 ^ 31)"
    unfolding off_def unat_diff_u32 [of "w - p" "0x80000000"] by simp
  moreover have "off p w < 2 ^ 32" unfolding off_def using unsigned_less [of "w - p"] by simp
  ultimately show ?thesis by (auto simp: timer_is_before_iff diff_diff_eq)
qed

section \<open>Linked lists of timers\<close>

abbreviation linked :: "(tmr \<Rightarrow> tmr option) \<Rightarrow> tmr list \<Rightarrow> bool" where
  "linked nxt \<equiv> successively (\<lambda>a b. nxt a = Some b)"

lemma linked_cong: "linked nxt xs \<Longrightarrow> (\<And>x. x \<in> set (butlast xs) \<Longrightarrow> nxt' x = nxt x) \<Longrightarrow> linked nxt' xs"
  by (induction xs rule: induct_list012) auto

lemma linked_insert:
  assumes "linked nxt (xs @ p # z # zs)" "distinct (xs @ p # z # zs)" "t \<notin> set (xs @ p # z # zs)"
  shows "linked (nxt(t := Some z, p := Some t)) (xs @ p # t # z # zs)"
proof -
  have "linked nxt (xs @ [p])" "linked nxt (z # zs)"
    using assms(1) by (auto simp: successively_append_iff successively_Cons split: if_splits)
  then have "linked (nxt(t := Some z, p := Some t)) (xs @ [p])"
    "linked (nxt(t := Some z, p := Some t)) (z # zs)"
    using assms(2,3) by (auto elim!: linked_cong dest: in_set_butlastD)
  then show ?thesis
    using assms(2,3) by (auto simp: successively_append_iff successively_Cons)
qed

lemma linked_remove:
  assumes "linked nxt (xs @ p # d # zs)" "distinct (xs @ p # d # zs)"
    and "zs \<noteq> []"
  shows "linked (nxt(p := nxt d)) (xs @ p # zs)"
proof -
  have "linked nxt (xs @ [p])" "linked nxt zs" "nxt d = Some (hd zs)"
    using assms(1,3) by (auto simp: successively_append_iff successively_Cons split: if_splits)
  then have "linked (nxt(p := nxt d)) (xs @ [p])" "linked (nxt(p := nxt d)) zs"
    using assms(2) by (auto elim!: linked_cong dest: in_set_butlastD)
  then show ?thesis
    using assms(3) \<open>nxt d = Some (hd zs)\<close>
    by (auto simp: successively_append_iff successively_Cons)
qed

section \<open>The two pointer loops\<close>

text \<open>What \<^verbatim>\<open>insert_timer\<close> does to the list after its starting point.\<close>

definition tinsert :: "(tmr \<Rightarrow> u32) \<Rightarrow> u32 \<Rightarrow> tmr \<Rightarrow> tmr list \<Rightarrow> tmr list" where
  "tinsert wake w t xs =
     takeWhile (\<lambda>p. \<not> timer_is_before w (wake p)) xs @ t #
     dropWhile (\<lambda>p. \<not> timer_is_before w (wake p)) xs"

lemma set_tinsert: "set (tinsert wake w t xs) = insert t (set xs)"
proof -
  have "set (tinsert wake w t xs) =
      insert t (set (takeWhile (\<lambda>p. \<not> timer_is_before w (wake p)) xs @
                     dropWhile (\<lambda>p. \<not> timer_is_before w (wake p)) xs))"
    unfolding tinsert_def by (simp del: takeWhile_dropWhile_id)
  also have "\<dots> = insert t (set xs)" by (simp only: takeWhile_dropWhile_id)
  finally show ?thesis .
qed

lemma insert_loop_spec:
  assumes "linked nxt (prev # ys @ z # zs)" "\<forall>y\<in>set ys. \<not> timer_is_before w (wake y)"
    "timer_is_before w (wake z)"
  shows "insert_loop nxt wake w prev = Some (last (prev # ys), z)"
  using assms
proof (induction ys arbitrary: prev)
  case Nil
  then show ?case by (simp add: insert_loop.simps [of _ _ _ prev])
next
  case (Cons y ys)
  then show ?case by (simp add: insert_loop.simps [of _ _ _ prev])
qed

lemma takeWhile_dropWhile_split:
  assumes "\<exists>z\<in>set xs. P z"
  obtains ys z zs where "xs = ys @ z # zs" "\<forall>y\<in>set ys. \<not> P y" "P z"
    "takeWhile (\<lambda>p. \<not> P p) xs = ys" "dropWhile (\<lambda>p. \<not> P p) xs = z # zs"
proof -
  from split_list_first_prop [OF assms] obtain ys z zs where
    x: "xs = ys @ z # zs" "P z" "\<forall>y\<in>set ys. \<not> P y" by blast
  with that [OF x(1) x(3) x(2)] show ?thesis
    by (simp add: takeWhile_append2 dropWhile_append2)
qed

lemma insert_timer_spec:
  assumes "linked (t_next s) (pre @ pos # xs)" "distinct (pre @ pos # xs)" "t \<notin> set (pre @ pos # xs)"
    and "\<exists>z\<in>set xs. timer_is_before w (t_wake s z)"
  shows "\<exists>nxt. insert_timer pos t w s = Ok () (s\<lparr>t_next := nxt\<rparr>) \<and>
     linked nxt (pre @ pos # tinsert (t_wake s) w t xs) \<and>
     (\<forall>u. u \<notin> set (t # butlast (pos # xs)) \<longrightarrow> nxt u = t_next s u)"
proof -
  from takeWhile_dropWhile_split [of xs "\<lambda>z. timer_is_before w (t_wake s z)", OF assms(4)]
  obtain ys z zs where x: "xs = ys @ z # zs" "\<forall>y\<in>set ys. \<not> timer_is_before w (t_wake s y)"
    "timer_is_before w (t_wake s z)" and ti: "tinsert (t_wake s) w t xs = ys @ t # z # zs"
    unfolding tinsert_def by metis
  define l where "l = last (pos # ys)"
  define b where "b = butlast (pos # ys)"
  have py: "pos # ys = b @ [l]" by (simp add: l_def b_def)
  have "linked (t_next s) (pos # ys @ z # zs)"
    using assms(1) x(1) by (auto simp: successively_append_iff)
  from insert_loop_spec [OF this x(2,3)]
  have "insert_timer pos t w s = Ok () (s\<lparr>t_next := (t_next s)(t := Some z, l := Some t)\<rparr>)"
    by (simp add: insert_timer_def l_def)
  moreover have "linked ((t_next s)(t := Some z, l := Some t)) ((pre @ b) @ l # t # z # zs)"
  proof (rule linked_insert)
    have "(pre @ b) @ l # z # zs = pre @ pos # xs"
      using arg_cong [OF py, of "\<lambda>v. pre @ v @ z # zs"] x(1) by simp
    then show "linked (t_next s) ((pre @ b) @ l # z # zs)" "distinct ((pre @ b) @ l # z # zs)"
      "t \<notin> set ((pre @ b) @ l # z # zs)" using assms(1-3) by simp_all
  qed
  moreover have "(pre @ b) @ l # t # z # zs = pre @ pos # tinsert (t_wake s) w t xs"
    using arg_cong [OF py, of "\<lambda>v. pre @ v @ t # z # zs"] by (simp add: ti)
  moreover have "l \<in> set (butlast (pos # xs))" using x(1) by (auto simp: l_def butlast_append)
  then have "\<forall>u. u \<notin> set (t # butlast (pos # xs)) \<longrightarrow> ((t_next s)(t := Some z, l := Some t)) u = t_next s u"
    by auto
  ultimately show ?thesis by metis
qed

lemma del_loop_spec:
  assumes "linked nxt (pos # xs)" "del \<notin> set (pos # xs) \<Longrightarrow> nxt (last (pos # xs)) = None"
    and "distinct (pos # xs)" "del \<noteq> pos" "last (pos # xs) \<noteq> del"
  shows "\<exists>nxt'. del_loop nxt del pos = Some nxt' \<and> linked nxt' (pos # remove1 del xs) \<and>
     (\<forall>u. u \<notin> set (butlast (pos # xs)) \<longrightarrow> nxt' u = nxt u)"
  using assms
proof (induction xs arbitrary: pos)
  case Nil
  then show ?case by (auto simp: del_loop.simps [of _ _ pos])
next
  case (Cons p xs)
  show ?case
  proof (cases "p = del")
    case True
    with Cons.prems have "xs \<noteq> []" by auto
    with Cons.prems True have "linked (nxt(pos := nxt del)) ([] @ pos # xs)"
      by (intro linked_remove) auto
    with True Cons.prems show ?thesis by (auto simp: del_loop.simps [of _ _ pos])
  next
    case False
    with Cons.prems Cons.IH [of p] obtain nxt' where
      n: "del_loop nxt del p = Some nxt'" "linked nxt' (p # remove1 del xs)"
      "\<forall>u. u \<notin> set (butlast (p # xs)) \<longrightarrow> nxt' u = nxt u"
      by (auto split: if_splits)
    have b: "pos \<notin> set (butlast (p # xs))" using Cons.prems(3) by (auto dest: in_set_butlastD simp del: butlast.simps)
    then have "nxt' pos = nxt pos" using n(3) by blast
    with n False Cons.prems show ?thesis by (simp add: del_loop.simps [of _ _ pos])
  qed
qed

section \<open>Sorted segments\<close>

definition off_sorted :: "u32 \<Rightarrow> (tmr \<Rightarrow> u32) \<Rightarrow> tmr list \<Rightarrow> bool" where
  "off_sorted b wake xs \<longleftrightarrow>
     sorted (map (\<lambda>x. off b (wake x)) xs) \<and> (\<forall>x\<in>set xs. off b (wake x) < 2 ^ 31)"

lemma off_sorted_cong: "(\<And>x. x \<in> set xs \<Longrightarrow> wake x = wake' x) \<Longrightarrow> off_sorted b wake xs = off_sorted b wake' xs"
  by (simp add: off_sorted_def cong: map_cong)

lemma off_sorted_Cons:
  "off_sorted b wake (x # xs) \<longleftrightarrow>
     off b (wake x) < 2 ^ 31 \<and> (\<forall>y\<in>set xs. off b (wake x) \<le> off b (wake y)) \<and> off_sorted b wake xs"
  by (auto simp: off_sorted_def)

lemma off_sorted_rebase:
  assumes "off_sorted b wake xs" "\<forall>x\<in>set xs. off b h \<le> off b (wake x)"
  shows "off_sorted h wake xs"
  using assms
proof (induction xs)
  case Nil
  then show ?case by (simp add: off_sorted_def)
next
  case (Cons x xs)
  then show ?case by (auto simp: off_sorted_Cons off_rebase [of b h])
qed

lemma off_sum:
  assumes "off w h \<le> 2 ^ 31" "off h v < 2 ^ 31"
  shows "off w v = off w h + off h v"
proof -
  have "unat ((h - w) + (v - h)) = off w h + off h v"
    using assms unfolding off_def by (intro unat_add_u32) simp
  then show ?thesis by (simp add: off_def)
qed

lemma off_sorted_forward:
  assumes "off_sorted h wake xs" "off w h \<le> 2 ^ 31" "\<forall>x\<in>set xs. off w (wake x) < 2 ^ 31"
  shows "off_sorted w wake xs"
proof -
  have sum: "off w (wake x) = off w h + off h (wake x)" if "x \<in> set xs" for x
    by (rule off_sum) (use assms that in \<open>simp_all add: off_sorted_def\<close>)
  have "sorted (map (\<lambda>x. off w h + off h (wake x)) xs)"
    using assms(1) by (simp only: off_sorted_def sorted_map add_le_cancel_left)
  with sum assms(3) show ?thesis by (simp add: off_sorted_def cong: map_cong)
qed

lemma off_sorted_tinsert:
  assumes "off_sorted b wake xs" "off b (wake t) < 2 ^ 31"
  shows "off_sorted b wake (tinsert wake (wake t) t xs)"
  using assms
proof (induction xs)
  case Nil
  then show ?case by (simp add: tinsert_def off_sorted_def)
next
  case (Cons x xs)
  then have i: "off_sorted b wake (tinsert wake (wake t) t xs)" and x: "off b (wake x) < 2 ^ 31"
    by (simp_all add: off_sorted_Cons)
  note bo = before_off [OF Cons.prems(2) x]
  show ?case
  proof (cases "off b (wake t) < off b (wake x)")
    case True
    with Cons.prems bo have "tinsert wake (wake t) t (x # xs) = t # x # xs"
      by (simp add: tinsert_def)
    with Cons.prems True show ?thesis by (auto simp: off_sorted_Cons)
  next
    case False
    with bo have "tinsert wake (wake t) t (x # xs) = x # tinsert wake (wake t) t xs"
      by (simp add: tinsert_def)
    with Cons.prems False i x show ?thesis by (simp add: off_sorted_Cons set_tinsert)
  qed
qed

lemma tinsert_snoc:
  assumes "\<exists>z\<in>set (xs @ [y]). timer_is_before w (wake z)"
  shows "tinsert wake w t (xs @ [y]) = tinsert wake w t xs @ [y]"
proof (cases "\<exists>z\<in>set xs. timer_is_before w (wake z)")
  case True
  then show ?thesis by (auto simp: tinsert_def takeWhile_append1 dropWhile_append1)
next
  case False
  then have "takeWhile (\<lambda>p. \<not> timer_is_before w (wake p)) xs = xs"
    "dropWhile (\<lambda>p. \<not> timer_is_before w (wake p)) xs = []" by simp_all
  moreover have "takeWhile (\<lambda>p. \<not> timer_is_before w (wake p)) (xs @ [y]) = xs"
    "dropWhile (\<lambda>p. \<not> timer_is_before w (wake p)) (xs @ [y]) = [y]"
    using False assms by (simp_all add: takeWhile_append2 dropWhile_append2)
  ultimately show ?thesis unfolding tinsert_def by (simp only: append_assoc append_Cons append_Nil)
qed

lemma tinsert_skip:
  assumes "\<forall>x\<in>set xs. \<not> timer_is_before w (wake x)"
  shows "tinsert wake w t (xs @ ys) = xs @ tinsert wake w t ys"
  using assms by (simp add: tinsert_def takeWhile_append2 dropWhile_append2)

lemma distinct_tinsert: "distinct (tinsert wake w t xs) \<longleftrightarrow> distinct xs \<and> t \<notin> set xs"
proof -
  define ys where "ys = takeWhile (\<lambda>p. \<not> timer_is_before w (wake p)) xs"
  define zs where "zs = dropWhile (\<lambda>p. \<not> timer_is_before w (wake p)) xs"
  have "xs = ys @ zs" "tinsert wake w t xs = ys @ t # zs"
    by (simp_all add: ys_def zs_def tinsert_def)
  then show ?thesis by auto
qed

lemma remove1_tinsert: "t \<notin> set xs \<Longrightarrow> remove1 t (tinsert wake w t xs) = xs"
proof -
  assume n: "t \<notin> set xs"
  then have "t \<notin> set (takeWhile (\<lambda>p. \<not> timer_is_before w (wake p)) xs)" by (meson set_takeWhileD)
  then show ?thesis by (simp add: tinsert_def remove1_append)
qed

lemma tinsert_not_Nil [simp]: "tinsert wake w t xs \<noteq> []"
  by (simp add: tinsert_def)

section \<open>The invariant\<close>

text \<open>
  \<open>running b s t rest\<close>: the list is \<open>t # rest\<close> and everything behind \<open>t\<close> is sorted as seen
  from the clock \<open>b\<close>. Between calls \<open>b\<close> is the wake time of \<open>t\<close> itself; while the function
  of \<open>t\<close> runs, \<open>b\<close> is the wake time it was called for and \<open>t\<close> may already have a new one.
\<close>

definition running :: "u32 \<Rightarrow> 'z sched_scheme \<Rightarrow> tmr \<Rightarrow> tmr list \<Rightarrow> bool" where
  "running b s t rest \<longleftrightarrow>
     timer_list s = t \<and> linked (t_next s) (t # rest) \<and> distinct (t # rest) \<and>
     rest \<noteq> [] \<and> last rest = Sentinel_timer \<and> t_next s Sentinel_timer = None \<and>
     Periodic_timer \<in> set (t # rest) \<and> Deleted_timer \<notin> set rest \<and>
     t_wake s Sentinel_timer = t_wake s Periodic_timer + 0x80000000 \<and>
     off_sorted b (t_wake s) (butlast rest) \<and>
     last_insert s \<in> set (t # butlast rest) \<and> last_insert s \<noteq> Deleted_timer \<and>
     t_func s Periodic_timer = Some Periodic_event \<and>
     t_func s Sentinel_timer = Some Sentinel_event \<and>
     t_func s Deleted_timer = Some Deleted_event"

definition sched_inv :: "'z sched_scheme \<Rightarrow> tmr list \<Rightarrow> bool" where
  "sched_inv s ts \<longleftrightarrow> ts \<noteq> [] \<and> running (t_wake s (hd ts)) s (hd ts) (tl ts)"

text \<open>The timers of components other than the scheduler, and the list without the placeholder.\<close>

definition user_timer :: "tmr \<Rightarrow> bool" where
  "user_timer t \<longleftrightarrow> t \<noteq> Periodic_timer \<and> t \<noteq> Sentinel_timer \<and> t \<noteq> Deleted_timer"

definition pending :: "tmr list \<Rightarrow> tmr list" where
  "pending ts = filter (\<lambda>t. t \<noteq> Deleted_timer) ts"

lemma running_rest:
  assumes "running b s t rest"
  obtains xs where "rest = xs @ [Sentinel_timer]" "Sentinel_timer \<notin> set (t # xs)"
    "off_sorted b (t_wake s) xs" "Periodic_timer \<in> set (t # xs)"
proof -
  define xs where "xs = butlast rest"
  from assms have "rest \<noteq> []" "last rest = Sentinel_timer" by (simp_all add: running_def)
  then have r: "rest = xs @ [Sentinel_timer]" unfolding xs_def by (metis append_butlast_last_id)
  from assms have "distinct (t # rest)" "Periodic_timer \<in> set (t # rest)"
    "off_sorted b (t_wake s) xs" by (simp_all add: running_def xs_def)
  with r have "Sentinel_timer \<notin> set (t # xs)" "Periodic_timer \<in> set (t # xs)" by auto
  with that r \<open>off_sorted b (t_wake s) xs\<close> show thesis by blast
qed

lemma stop_exists:
  assumes "running b s t rest" "off b w < 2 ^ 31"
    and "t = Periodic_timer \<Longrightarrow> off (t_wake s Periodic_timer) w < 2 ^ 31"
  shows "\<exists>z\<in>set rest. timer_is_before w (t_wake s z)"
proof -
  from running_rest [OF assms(1)] obtain xs where
    x: "rest = xs @ [Sentinel_timer]" "off_sorted b (t_wake s) xs" "Periodic_timer \<in> set (t # xs)"
    by metis
  have sw: "t_wake s Sentinel_timer = t_wake s Periodic_timer + 0x80000000"
    using assms(1) by (simp add: running_def)
  show ?thesis
  proof (cases "off (t_wake s Periodic_timer) w < 2 ^ 31")
    case True
    then have "timer_is_before w (t_wake s Sentinel_timer)" by (simp add: sw before_sentinel)
    with x(1) show ?thesis by auto
  next
    case False
    with assms(3) x(3) have p: "Periodic_timer \<in> set xs" by auto
    with x(2) have b: "off b (t_wake s Periodic_timer) < 2 ^ 31" by (simp add: off_sorted_def)
    have "off b w < off b (t_wake s Periodic_timer)"
    proof (rule ccontr)
      assume "\<not> off b w < off b (t_wake s Periodic_timer)"
      then have "off (t_wake s Periodic_timer) w \<le> off b w"
        using off_rebase [of b "t_wake s Periodic_timer" w] by simp
      with False assms(2) show False by linarith
    qed
    with before_off [OF assms(2) b] have "timer_is_before w (t_wake s Periodic_timer)" by simp
    with p x(1) show ?thesis by auto
  qed
qed

lemma sched_invI:
  assumes "linked (t_next s) ts" "distinct ts" "ts \<noteq> []" "last ts = Sentinel_timer"
    "timer_list s = hd ts" "t_next s Sentinel_timer = None" "Periodic_timer \<in> set ts"
    "Deleted_timer \<notin> set ts"
    "t_wake s Sentinel_timer = t_wake s Periodic_timer + 0x80000000"
    "off_sorted b (t_wake s) (butlast ts)" "last_insert s \<in> set (butlast ts)"
    "t_func s Periodic_timer = Some Periodic_event" "t_func s Sentinel_timer = Some Sentinel_event"
    "t_func s Deleted_timer = Some Deleted_event"
  shows "sched_inv s ts"
proof -
  obtain x xs where ts: "ts = x # xs" using assms(3) by (cases ts) auto
  have xs: "xs \<noteq> []" using assms(4,7) ts by auto
  then have "off_sorted (t_wake s x) (t_wake s) (butlast xs)"
    using assms(10) ts by (auto simp: off_sorted_Cons intro: off_sorted_rebase [of b])
  moreover have "last_insert s \<noteq> Deleted_timer" using assms(8,11) by (auto dest: in_set_butlastD)
  ultimately show ?thesis using assms ts xs by (simp add: sched_inv_def running_def)
qed

section \<open>Adding a timer\<close>

lemma running_insert:
  assumes r: "running b s t rest" and n: "add \<notin> set (t # rest)" "add \<noteq> Deleted_timer"
    and w: "off b (t_wake s add) < 2 ^ 31"
    and p: "t = Periodic_timer \<Longrightarrow> off (t_wake s Periodic_timer) (t_wake s add) < 2 ^ 31"
  shows "\<exists>nxt. insert_timer t add (t_wake s add) s = Ok () (s\<lparr>t_next := nxt\<rparr>) \<and>
     running b (s\<lparr>t_next := nxt\<rparr>) t (tinsert (t_wake s) (t_wake s add) add rest)"
proof -
  from running_rest [OF r] obtain xs where x: "rest = xs @ [Sentinel_timer]"
    "off_sorted b (t_wake s) xs" "Sentinel_timer \<notin> set (t # xs)" by metis
  have ex: "\<exists>z\<in>set rest. timer_is_before (t_wake s add) (t_wake s z)"
    using stop_exists [OF r w p] .
  then have ti: "tinsert (t_wake s) (t_wake s add) add rest =
      tinsert (t_wake s) (t_wake s add) add xs @ [Sentinel_timer]"
    using tinsert_snoc x(1) by blast
  obtain nxt where nx: "insert_timer t add (t_wake s add) s = Ok () (s\<lparr>t_next := nxt\<rparr>)"
    "linked nxt (t # tinsert (t_wake s) (t_wake s add) add rest)"
    "\<forall>u. u \<notin> set (add # butlast (t # rest)) \<longrightarrow> nxt u = t_next s u"
    using insert_timer_spec [of s "[]" t rest add "t_wake s add"] r n(1) ex by (auto simp: running_def)
  have "Sentinel_timer \<notin> set (add # butlast (t # rest))" using n x by auto
  with nx(3) have "nxt Sentinel_timer = t_next s Sentinel_timer" by blast
  with r have "nxt Sentinel_timer = None" by (simp add: running_def)
  then show ?thesis
    using nx(1,2) r n x off_sorted_tinsert [OF x(2) w]
    by (intro exI [of _ nxt])
      (auto simp: running_def ti [unfolded x(1)] set_tinsert distinct_tinsert)
qed

text \<open>A timer that is not before the head of the list.\<close>

lemma sched_add_timer_insert:
  assumes inv: "sched_inv s ts" and n: "add \<notin> set ts" "add \<noteq> Deleted_timer"
    and nb: "\<not> timer_is_before (t_wake s add) (t_wake s (hd ts))"
  shows "\<exists>s'. sched_add_timer add s = Ok () s' \<and>
     sched_inv s' (hd ts # tinsert (t_wake s) (t_wake s add) add (tl ts)) \<and>
     t_wake s' = t_wake s \<and> irq_on s' = irq_on s"
proof -
  let ?t = "hd ts" and ?s0 = "irq_disable s"
  from inv have r: "running (t_wake s ?t) s ?t (tl ts)" and ne: "ts \<noteq> []"
    by (simp_all add: sched_inv_def)
  then have tl: "timer_list s = ?t" and r0: "running (t_wake s ?t) ?s0 ?t (tl ts)"
    by (simp_all add: running_def irq_disable_def)
  have w: "off (t_wake s ?t) (t_wake ?s0 add) < 2 ^ 31"
    using nb by (simp add: timer_is_before_iff off_def irq_disable_def)
  have n0: "add \<notin> set (?t # tl ts)" using n ne by simp
  have p: "?t = Periodic_timer \<Longrightarrow> off (t_wake ?s0 Periodic_timer) (t_wake ?s0 add) < 2 ^ 31"
    using w by (simp add: irq_disable_def)
  have sw: "t_wake ?s0 = t_wake s" by (simp add: irq_disable_def)
  obtain nxt where
    i: "insert_timer ?t add (t_wake s add) ?s0 = Ok () (?s0\<lparr>t_next := nxt\<rparr>)"
    and r': "running (t_wake s ?t) (?s0\<lparr>t_next := nxt\<rparr>) ?t
       (tinsert (t_wake s) (t_wake s add) add (tl ts))"
    using running_insert [OF r0 n0 n(2) w p] unfolding sw by blast
  have "sched_add_timer add s = Ok () (?s0\<lparr>t_next := nxt, irq_on := irq_on s\<rparr>)"
    using nb i tl by (simp add: sched_add_timer_def Let_def irq_disable_def)
  moreover have "sched_inv (?s0\<lparr>t_next := nxt, irq_on := irq_on s\<rparr>)
      (?t # tinsert (t_wake s) (t_wake s add) add (tl ts))"
    using r' by (simp add: sched_inv_def running_def irq_disable_def)
  ultimately show ?thesis by (auto simp: irq_disable_def)
qed

text \<open>
  A timer before the head becomes the first one, behind the placeholder. This needs the timers
  already in the list to be less than half the clock range after it.
\<close>

definition in_reach :: "u32 \<Rightarrow> (tmr \<Rightarrow> u32) \<Rightarrow> tmr list \<Rightarrow> u32 \<Rightarrow> bool" where
  "in_reach b wake q w \<longleftrightarrow>
     (timer_is_before w b \<longrightarrow> (\<forall>x\<in>set (butlast q). off w (wake x) < 2 ^ 31))"

definition head_wake :: "'z sched_scheme \<Rightarrow> u32" where
  "head_wake s = t_wake s (timer_list s)"

lemma sched_add_timer_front:
  assumes inv: "sched_inv s ts" and n: "add \<notin> set ts" "user_timer add"
    and b: "timer_is_before (t_wake s add) (t_wake s (hd ts))" "in_reach (head_wake s) (t_wake s) (pending ts) (t_wake s add)"
    and now: "\<not> timer_is_before (t_wake s add) (fst (timer_read_time s)) \<or> shutdown_status s \<noteq> 0"
  shows "\<exists>s'. sched_add_timer add s = Ok () s' \<and> sched_inv s' (Deleted_timer # add # pending ts) \<and>
     (\<forall>u. u \<noteq> Deleted_timer \<longrightarrow> t_wake s' u = t_wake s u) \<and> irq_on s' = irq_on s"
proof -
  let ?w = "t_wake s add"
  from inv obtain h rest where ts: "ts = h # rest" and r: "running (t_wake s h) s h rest"
    by (cases ts) (auto simp: sched_inv_def)
  define q where "q = pending ts"
  have q: "q = (if h = Deleted_timer then rest else h # rest)"
    using r by (auto simp: q_def pending_def ts running_def intro: filter_True)
  from r have rn: "rest \<noteq> []" and hS: "h \<noteq> Sentinel_timer" and tl: "timer_list s = h"
    unfolding running_def by (metis last_in_set distinct.simps(2))+
  have ow: "0 < off ?w (t_wake s h)" "off ?w (t_wake s h) \<le> 2 ^ 31"
    using b(1) by (simp_all add: ts before_off_pos)
  have b2: "\<forall>x\<in>set (butlast q). off ?w (t_wake s x) < 2 ^ 31" using b tl by (simp add: in_reach_def q_def head_wake_def ts)
  have so: "off_sorted ?w (t_wake s) (butlast q)"
  proof (rule off_sorted_forward [OF _ ow(2) b2])
    show "off_sorted (t_wake s h) (t_wake s) (butlast q)"
      using r rn by (auto simp: running_def off_sorted_Cons q)
  qed
  define s' where "s' = emit Timer_kick
     (s\<lparr>hw_reads := Suc (hw_reads s),
        t_next := (t_next s)(add := Some (hd q), Deleted_timer := Some add),
        t_wake := (t_wake s)(Deleted_timer := ?w), timer_list := Deleted_timer\<rparr>)"
  have nx: "t_next s h = Some (hd rest)" using r rn by (simp add: running_def successively_Cons)
  have e: "sched_add_timer add s = Ok () s'"
    using b(1) now nx tl
    by (auto simp: sched_add_timer_def Let_def ts irq_disable_def timer_read_time_def s'_def q emit_def
        sched_try_shutdown_def set_wake_def)
  have lq: "linked (t_next s) q" "distinct q" "q \<noteq> []" "last q = Sentinel_timer" "Deleted_timer \<notin> set q"
    using r rn by (auto simp: q running_def successively_Cons)
  have sq: "set q \<subseteq> set ts" by (simp add: q_def pending_def)
  have "linked ((t_next s)(add := Some (hd q), Deleted_timer := Some add)) q"
    by (rule linked_cong [OF lq(1)]) (use lq sq n in \<open>auto dest: in_set_butlastD\<close>)
  moreover have "off_sorted ?w ((t_wake s)(Deleted_timer := ?w)) (butlast q)"
    using so lq(5) by (subst off_sorted_cong [of _ _ "t_wake s"]) (auto dest: in_set_butlastD)
  moreover have "Periodic_timer \<in> set q" "last_insert s \<in> set (butlast q)"
    "last_insert s \<noteq> Deleted_timer" using r rn by (auto simp: q running_def)
  moreover have "add \<notin> set q" using n sq by auto
  ultimately have "sched_inv s' (Deleted_timer # add # q)"
    using r n(2) lq
    by (auto simp: sched_inv_def running_def s'_def emit_def successively_Cons user_timer_def
        off_sorted_Cons)
  then show ?thesis using e by (auto simp: q_def s'_def emit_def)
qed

section \<open>Deleting a timer\<close>

lemma remove1_snoc: "y \<noteq> d \<Longrightarrow> remove1 d (xs @ [y]) = remove1 d xs @ [y]"
  by (induction xs) auto

lemma off_sorted_remove1: "off_sorted b wake xs \<Longrightarrow> off_sorted b wake (remove1 d xs)"
proof (induction xs)
  case (Cons x xs)
  then show ?case using set_remove1_subset [of d xs] by (auto simp: off_sorted_Cons)
qed simp

lemma sched_del_timer_head:
  assumes inv: "sched_inv s ts" and d: "user_timer del" "hd ts = del"
  shows "\<exists>s'. sched_del_timer del s = Ok () s' \<and> sched_inv s' (Deleted_timer # tl ts) \<and>
     t_wake s' = (t_wake s)(Deleted_timer := t_wake s del) \<and> irq_on s' = irq_on s \<and>
     head_wake s' = head_wake s"
proof -
  from inv obtain rest where ts: "ts = del # rest" and r: "running (t_wake s del) s del rest"
    using d by (cases ts) (auto simp: sched_inv_def)
  define s' where "s' = s\<lparr>t_wake := (t_wake s)(Deleted_timer := t_wake s del),
     t_next := (t_next s)(Deleted_timer := t_next s del), timer_list := Deleted_timer,
     last_insert := (if last_insert s = del then Periodic_timer else last_insert s)\<rparr>"
  have e: "sched_del_timer del s = Ok () s'"
    using r d by (auto simp: sched_del_timer_def Let_def running_def irq_disable_def set_wake_def s'_def
        user_timer_def)
  have rn: "rest \<noteq> []" and dr: "Deleted_timer \<notin> set rest" and p: "Periodic_timer \<in> set rest"
    and l: "last rest = Sentinel_timer" and lr: "linked (t_next s) (del # rest)"
    using r d by (auto simp: running_def user_timer_def)
  have "linked (t_next s') rest"
    by (rule linked_cong [of "t_next s"])
      (use lr dr in \<open>auto simp: successively_Cons s'_def dest: in_set_butlastD\<close>)
  moreover have "t_next s' Deleted_timer = Some (hd rest)"
    using lr rn by (simp add: successively_Cons s'_def)
  ultimately have "linked (t_next s') (Deleted_timer # rest)" using rn by (simp add: successively_Cons)
  moreover have "off_sorted (t_wake s del) (t_wake s') (butlast rest)"
    using r dr by (subst off_sorted_cong [of _ _ "t_wake s"]) (auto simp: running_def s'_def dest: in_set_butlastD)
  moreover have "Periodic_timer \<in> set (butlast rest)"
    using p l rn by (metis append_butlast_last_id Un_iff empty_iff list.set set_ConsD set_append tmr.distinct(1))
  ultimately have "sched_inv s' (Deleted_timer # rest)"
    using r rn dr p d by (auto simp: sched_inv_def running_def s'_def user_timer_def)
  moreover have "head_wake s' = head_wake s" using r by (simp add: s'_def head_wake_def running_def)
  ultimately show ?thesis using e ts by (auto simp: s'_def)
qed

lemma running_del:
  assumes r: "running b s t rest" and d: "user_timer del" "t \<noteq> del"
  shows "\<exists>nxt. del_loop (t_next s) del t = Some nxt \<and>
     running b (s\<lparr>t_next := nxt, last_insert := (if last_insert s = del then Periodic_timer else last_insert s)\<rparr>)
       t (remove1 del rest)"
proof -
  from running_rest [OF r] obtain xs where x: "rest = xs @ [Sentinel_timer]"
    "off_sorted b (t_wake s) xs" "Sentinel_timer \<notin> set (t # xs)" "Periodic_timer \<in> set (t # xs)" by metis
  have dS: "Sentinel_timer \<noteq> del" using d by (auto simp: user_timer_def)
  have rm: "remove1 del rest = remove1 del xs @ [Sentinel_timer]" using dS x(1) by (simp add: remove1_snoc)
  obtain nxt where n: "del_loop (t_next s) del t = Some nxt" "linked nxt (t # remove1 del rest)"
    "\<forall>u. u \<notin> set (butlast (t # rest)) \<longrightarrow> nxt u = t_next s u"
    using del_loop_spec [of "t_next s" t rest del] r d dS by (auto simp: running_def)
  have "Sentinel_timer \<notin> set (butlast (t # rest))" using x by auto
  with n(3) r have "nxt Sentinel_timer = None" by (simp add: running_def)
  moreover have "distinct (t # xs)" "Deleted_timer \<notin> set xs" "last_insert s \<in> set (t # xs)"
    using r x(1) by (auto simp: running_def)
  ultimately show ?thesis
    using n(1,2) r x d off_sorted_remove1 [OF x(2)] notin_set_remove1 [of _ xs del]
    by (intro exI [of _ nxt])
      (auto simp: running_def rm [unfolded x(1)] user_timer_def set_remove1_eq distinct_remove1)
qed

lemma sched_del_timer_other:
  assumes inv: "sched_inv s ts" and d: "user_timer del" "hd ts \<noteq> del"
  shows "\<exists>s'. sched_del_timer del s = Ok () s' \<and> sched_inv s' (remove1 del ts) \<and>
     t_wake s' = t_wake s \<and> irq_on s' = irq_on s \<and> head_wake s' = head_wake s"
proof -
  from inv obtain t rest where ts: "ts = t # rest" and r: "running (t_wake s t) s t rest"
    by (cases ts) (auto simp: sched_inv_def)
  with running_del [OF r d(1)] d obtain nxt where n: "del_loop (t_next s) del t = Some nxt"
    "running (t_wake s t)
       (s\<lparr>t_next := nxt, last_insert := (if last_insert s = del then Periodic_timer else last_insert s)\<rparr>)
       t (remove1 del rest)" by auto
  moreover have "timer_list s = t" using r by (simp add: running_def)
  ultimately show ?thesis using d ts
    by (auto simp: sched_del_timer_def Let_def irq_disable_def sched_inv_def running_def head_wake_def)
qed

section \<open>Dispatching the first timer\<close>

text \<open>
  The contract of a timer function called for the wake time \<open>b\<close>: it may change timers other
  than its own, as long as the list behind it stays well formed, and must not ask to run again
  half the clock range or more later.
\<close>

lemma sched_timer_dispatch_done:
  assumes "timer_list s = t" "timer_func_call call t s = Ok SF_DONE s1"
    and r: "running b s1 t rest" and t: "t \<noteq> Periodic_timer"
  shows "\<exists>s2. sched_timer_dispatch call s = Ok (t_wake s2 (hd rest)) s2 \<and> sched_inv s2 rest \<and>
     t_wake s2 = t_wake s1"
proof -
  define s2 where "s2 = (s1\<lparr>timer_list := hd rest,
     last_insert := (if last_insert s1 = t then hd rest else last_insert s1)\<rparr>)"
  from running_rest [OF r] obtain xs where x: "rest = xs @ [Sentinel_timer]"
    "off_sorted b (t_wake s1) xs" "Periodic_timer \<in> set (t # xs)" by metis
  with t obtain y ys where xs: "xs = y # ys" by (cases xs) auto
  have "t_next s1 t = Some (hd rest)" using r x xs by (simp add: running_def successively_Cons)
  then have e: "sched_timer_dispatch call s = Ok (t_wake s2 (hd rest)) s2"
    using assms(1,2) by (simp add: sched_timer_dispatch_def Let_def s2_def)
  have "sched_inv s2 rest"
    by (rule sched_invI [of _ _ b])
      (use r x xs t in \<open>auto simp: running_def successively_Cons s2_def\<close>)
  with e show ?thesis by (auto simp: s2_def)
qed

lemma insert_from:
  assumes r: "running b s t rest" and w: "w = t_wake s t" and o: "off b w < 2 ^ 31"
    and pos: "pos \<in> set (butlast rest)" "\<not> timer_is_before w (t_wake s pos)"
  shows "\<exists>nxt. insert_timer pos t w s = Ok () (s\<lparr>t_next := nxt\<rparr>) \<and>
     linked nxt (tinsert (t_wake s) w t rest) \<and> nxt Sentinel_timer = None"
proof -
  from running_rest [OF r] obtain xs where x: "rest = xs @ [Sentinel_timer]"
    "off_sorted b (t_wake s) xs" "Sentinel_timer \<notin> set (t # xs)" by metis
  with pos(1) obtain pre ys where xs: "xs = pre @ pos # ys" by (auto dest: split_list)
  have ob: "off b (t_wake s v) < 2 ^ 31" if "v \<in> set xs" for v using that x(2) by (simp add: off_sorted_def)
  have "off b (t_wake s pos) \<le> off b w"
    using pos(2) before_off [OF o ob, of pos] xs by simp
  moreover have "\<forall>v\<in>set pre. off b (t_wake s v) \<le> off b (t_wake s pos)"
    using x(2) by (simp add: off_sorted_def xs sorted_append)
  ultimately have nb: "\<forall>v\<in>set (pre @ [pos]). \<not> timer_is_before w (t_wake s v)"
    using before_off [OF o ob] xs pos(2) by fastforce
  have rest: "rest = pre @ pos # (ys @ [Sentinel_timer])" using x(1) xs by simp
  have "\<exists>z\<in>set rest. timer_is_before w (t_wake s z)"
    by (rule stop_exists [OF r o]) (simp add: w)
  then have ex: "\<exists>z\<in>set (ys @ [Sentinel_timer]). timer_is_before w (t_wake s z)"
    using nb rest by auto
  have d: "distinct (t # rest)" "linked (t_next s) (t # rest)" "t_next s Sentinel_timer = None"
    using r by (simp_all add: running_def)
  then have l: "linked (t_next s) rest" by (auto simp: successively_Cons)
  from insert_timer_spec [of s pre pos "ys @ [Sentinel_timer]" t w] ex d l obtain nxt where
    n: "insert_timer pos t w s = Ok () (s\<lparr>t_next := nxt\<rparr>)"
    "linked nxt (pre @ pos # tinsert (t_wake s) w t (ys @ [Sentinel_timer]))"
    "\<forall>u. u \<notin> set (t # butlast (pos # ys @ [Sentinel_timer])) \<longrightarrow> nxt u = t_next s u"
    unfolding rest by auto
  have "Sentinel_timer \<notin> set (t # butlast (pos # ys @ [Sentinel_timer]))" using x(3) xs by auto
  with n(3) d(3) have "nxt Sentinel_timer = None" by simp
  moreover have "tinsert (t_wake s) w t rest = pre @ pos # tinsert (t_wake s) w t (ys @ [Sentinel_timer])"
    using tinsert_skip [OF nb, of t "ys @ [Sentinel_timer]"] rest by simp
  ultimately show ?thesis using n by auto
qed

lemma insert_from_self:
  assumes "t_next s t = Some n" "\<not> timer_is_before w (t_wake s n)"
  shows "insert_timer t t w s = insert_timer n t w s"
  using assms by (simp add: insert_timer_def insert_loop.simps [of _ _ _ t])

lemma insert_timer_list:
  assumes "insert_timer pos t w s = Ok () (s\<lparr>t_next := nxt\<rparr>)"
  shows "insert_timer pos t w (s\<lparr>timer_list := n\<rparr>) = Ok () (s\<lparr>t_next := nxt, timer_list := n\<rparr>)"
proof -
  from assms obtain p q where l: "insert_loop (t_next s) (t_wake s) w pos = Some (p, q)"
    and e: "s\<lparr>t_next := (t_next s)(t := Some q, p := Some t)\<rparr> = s\<lparr>t_next := nxt\<rparr>"
    by (auto simp: insert_timer_def split: option.splits)
  from arg_cong [OF e, of t_next] have "nxt = (t_next s)(t := Some q, p := Some t)" by simp
  with l show ?thesis by (simp add: insert_timer_def)
qed

lemma sched_timer_dispatch_insert:
  assumes tl: "timer_list s = t" and c: "timer_func_call call t s = Ok SF_RESCHEDULE s1"
    and r: "running b s1 t rest" and o: "off b (t_wake s1 t) < 2 ^ 31"
    and nb: "\<not> timer_is_before (t_wake s1 t) (t_wake s1 (hd rest))"
  shows "\<exists>nxt. sched_timer_dispatch call s =
       Ok (t_wake s1 (hd rest)) (s1\<lparr>t_next := nxt, timer_list := hd rest, last_insert := t\<rparr>) \<and>
     linked nxt (tinsert (t_wake s1) (t_wake s1 t) t rest) \<and> nxt Sentinel_timer = None"
proof -
  let ?w = "t_wake s1 t" and ?n = "hd rest"
  define pos where "pos = (if timer_is_before ?w (t_wake s1 (last_insert s1)) then ?n else last_insert s1)"
  from running_rest [OF r] obtain xs where x: "rest = xs @ [Sentinel_timer]" "Periodic_timer \<in> set (t # xs)"
    by metis
  have nx: "t_next s1 t = Some ?n" using r x(1) by (auto simp: running_def successively_Cons)
  have xs: "xs \<noteq> []"
  proof
    assume "xs = []"
    with x have "hd rest = Sentinel_timer" "t = Periodic_timer" by auto
    moreover from r have "t_wake s1 Sentinel_timer = t_wake s1 Periodic_timer + 0x80000000"
      by (simp add: running_def)
    ultimately show False using nb by (simp add: before_sentinel)
  qed
  then have n: "?n \<in> set (butlast rest)" using x(1) by simp
  have self: "\<not> timer_is_before ?w ?w" by (simp add: timer_is_before_def)
  have "\<exists>nxt. insert_timer pos t ?w s1 = Ok () (s1\<lparr>t_next := nxt\<rparr>) \<and>
     linked nxt (tinsert (t_wake s1) ?w t rest) \<and> nxt Sentinel_timer = None"
  proof (cases "pos = t")
    case True
    then show ?thesis
      using insert_from_self [OF nx nb] insert_from [OF r refl o n nb] by simp
  next
    case False
    moreover have "last_insert s1 \<in> set (t # butlast rest)" using r by (simp add: running_def)
    ultimately have "pos \<in> set (butlast rest)" "\<not> timer_is_before ?w (t_wake s1 pos)"
      using n nb by (auto simp: pos_def split: if_splits)
    from insert_from [OF r refl o this] show ?thesis .
  qed
  then obtain nxt where i: "insert_timer pos t ?w s1 = Ok () (s1\<lparr>t_next := nxt\<rparr>)"
    and l: "linked nxt (tinsert (t_wake s1) ?w t rest)" "nxt Sentinel_timer = None" by blast
  have "sched_timer_dispatch call s =
      Ok (t_wake s1 ?n) (s1\<lparr>t_next := nxt, timer_list := ?n, last_insert := t\<rparr>)"
    using tl c nx nb insert_timer_list [OF i, of ?n]
    by (simp add: sched_timer_dispatch_def Let_def pos_def split: if_splits)
  with l show ?thesis by blast
qed

lemma sched_timer_dispatch_again:
  assumes tl: "timer_list s = t" and c: "timer_func_call call t s = Ok SF_RESCHEDULE s1"
    and r: "running b s1 t rest" and o: "off b (t_wake s1 t) < 2 ^ 31" and t: "t \<noteq> Deleted_timer"
    and ts: "ts = tinsert (t_wake s1) (t_wake s1 t) t rest"
  shows "\<exists>s2. sched_timer_dispatch call s = Ok (t_wake s2 (hd ts)) s2 \<and> sched_inv s2 ts \<and>
     t_wake s2 = t_wake s1"
proof -
  let ?w = "t_wake s1 t"
  from running_rest [OF r] obtain xs where x: "rest = xs @ [Sentinel_timer]"
    "off_sorted b (t_wake s1) xs" "Periodic_timer \<in> set (t # xs)" "Sentinel_timer \<notin> set (t # xs)" by metis
  have ex: "\<exists>z\<in>set rest. timer_is_before ?w (t_wake s1 z)" by (rule stop_exists [OF r o]) simp
  then have ti: "ts = tinsert (t_wake s1) ?w t xs @ [Sentinel_timer]"
    using tinsert_snoc x(1) ts by blast
  have o': "off_sorted b (t_wake s1) (butlast ts)"
    using off_sorted_tinsert [OF x(2) o] by (simp add: ti)
  have d: "distinct ts" "Deleted_timer \<notin> set ts" "Periodic_timer \<in> set ts" "ts \<noteq> []"
    using r t by (auto simp: ts running_def distinct_tinsert set_tinsert)
  have tb: "t \<in> set (butlast ts)" "last ts = Sentinel_timer" by (simp_all add: ti set_tinsert)
  show ?thesis
  proof (cases "timer_is_before ?w (t_wake s1 (hd rest))")
    case True
    have rn: "rest \<noteq> []" and nx: "t_next s1 t = Some (hd rest)"
      using r by (auto simp: running_def successively_Cons)
    with True have e: "ts = t # rest" by (cases rest) (simp_all add: ts tinsert_def)
    have "sched_timer_dispatch call s = Ok ?w s1"
      using tl c nx True by (simp add: sched_timer_dispatch_def Let_def)
    moreover have "sched_inv s1 ts"
      by (rule sched_invI [of _ _ b]) (use r d o' e rn tb in \<open>simp_all add: running_def\<close>)
    ultimately show ?thesis using e by auto
  next
    case False
    then have h: "hd ts = hd rest" using ex by (cases rest) (auto simp: ts tinsert_def)
    from sched_timer_dispatch_insert [OF tl c r o False] obtain nxt where
      n: "sched_timer_dispatch call s =
        Ok (t_wake s1 (hd rest)) (s1\<lparr>t_next := nxt, timer_list := hd rest, last_insert := t\<rparr>)"
      "linked nxt ts" "nxt Sentinel_timer = None" unfolding ts by blast
    have "sched_inv (s1\<lparr>t_next := nxt, timer_list := hd rest, last_insert := t\<rparr>) ts"
      by (rule sched_invI [of _ _ b]) (use r d o' n h tb in \<open>simp_all add: running_def\<close>)
    with n h show ?thesis by auto
  qed
qed

section \<open>The static timers\<close>

text \<open>The functions of the periodic timer and of the placeholder meet the contract.\<close>

lemma periodic_event_running:
  assumes "sched_inv s (Periodic_timer # rest)"
  shows "\<exists>s1. periodic_event s = Ok SF_RESCHEDULE s1 \<and>
     running (t_wake s Periodic_timer) s1 Periodic_timer rest \<and>
     off (t_wake s Periodic_timer) (t_wake s1 Periodic_timer) = unat (timer_from_us s 100000)"
proof -
  have r: "running (t_wake s Periodic_timer) s Periodic_timer rest"
    using assms by (simp add: sched_inv_def)
  define d where "d = timer_from_us s 100000"
  from running_rest [OF r] obtain xs where x: "rest = xs @ [Sentinel_timer]"
    "Sentinel_timer \<notin> set (Periodic_timer # xs)" by metis
  then have "Periodic_timer \<notin> set (butlast rest)" "Sentinel_timer \<notin> set (butlast rest)"
    using r by (simp_all add: running_def)
  then have "off_sorted (t_wake s Periodic_timer)
     ((t_wake s)(Periodic_timer := t_wake s Periodic_timer + d,
       Sentinel_timer := t_wake s Periodic_timer + d + 0x80000000)) (butlast rest)"
    using r by (subst off_sorted_cong [of _ _ "t_wake s"]) (auto simp: running_def)
  with r show ?thesis
    by (auto simp: periodic_event_def sched_wake_tasks_def set_wake_def Let_def running_def off_def
        timer_from_us_def d_def)
qed

lemma sched_timer_reset_inv:
  assumes "t_wake s Sentinel_timer = t_wake s Periodic_timer + 0x80000000"
    "t_next s Sentinel_timer = None"
    "t_func s Periodic_timer = Some Periodic_event" "t_func s Sentinel_timer = Some Sentinel_event"
    "t_func s Deleted_timer = Some Deleted_event"
  shows "sched_inv (sched_timer_reset s) [Deleted_timer, Periodic_timer, Sentinel_timer]"
  using assms
  by (simp add: sched_timer_reset_def Let_def set_wake_def emit_def sched_inv_def running_def
      off_sorted_def)

lemma sched_boot_inv: "sched_inv (sched_boot s) [Periodic_timer, Sentinel_timer]"
  by (simp add: sched_boot_def sched_inv_def running_def off_sorted_def)

section \<open>What the timer operations leave alone\<close>

text \<open>Everything but the list, the wake times, the interrupt flag and the log.\<close>

definition sched_frame :: "'z sched_scheme \<Rightarrow> 'z sched_scheme \<Rightarrow> bool" where
  "sched_frame s s' \<longleftrightarrow>
     sched.more s' = sched.more s \<and> t_func s' = t_func s \<and> task_wake s' = task_wake s \<and>
     shutdown_status s' = shutdown_status s \<and> clock_freq s' = clock_freq s \<and>
     inline_stepper_hack s' = inline_stepper_hack s \<and> want_both_edge s' = want_both_edge s \<and>
     mach_avr s' = mach_avr s \<and> hw_time s' = hw_time s \<and> hw_pin s' = hw_pin s \<and>
     (\<forall>t. user_timer t \<longrightarrow> t_wake s' t = t_wake s t)"

lemma sched_add_timer_frame: "result_state (sched_add_timer t s) = Some s' \<Longrightarrow> sched_frame s s'"
  by (auto simp: sched_add_timer_def Let_def result_state_andthen board_defs sched_try_shutdown_def
      sched_frame_def set_wake_def insert_timer_def user_timer_def
      split: if_splits option.splits prod.splits)

lemma sched_del_timer_frame: "result_state (sched_del_timer t s) = Some s' \<Longrightarrow> sched_frame s s'"
  by (auto simp: sched_del_timer_def Let_def result_state_andthen board_defs
      sched_frame_def set_wake_def user_timer_def split: if_splits option.splits)

lemma sched_upd_frame [simp]:
  "t_func (set_wake t w s) = t_func s" "t_func (emit e s) = t_func s" "t_func (set_func t f s) = (t_func s)(t := f)"
  "t_wake (set_wake t w s) = (t_wake s)(t := w)" "t_wake (emit e s) = t_wake s" "t_wake (set_func t f s) = t_wake s"
  "out_log (set_wake t w s) = out_log s" "out_log (emit e s) = out_log s @ [e]" "out_log (set_func t f s) = out_log s"
  by (simp_all add: set_wake_def emit_def set_func_def)

lemma sched_inv_emit [simp]: "sched_inv (emit e s) ts = sched_inv s ts"
  by (simp add: sched_inv_def running_def emit_def)

section \<open>The timer list as a queue\<close>

lemma pending_Cons: "Deleted_timer \<notin> set rest \<Longrightarrow> pending (h # rest) = (if h = Deleted_timer then rest else h # rest)"
  by (auto simp: pending_def intro: filter_True)

lemma pending_id: "Deleted_timer \<notin> set q \<Longrightarrow> pending q = q"
  by (auto simp: pending_def intro: filter_True)

lemma sched_add_timer_cases:
  assumes inv: "sched_inv s ts" and n: "add \<notin> set ts" "user_timer add"
    and reach: "in_reach (head_wake s) (t_wake s) (pending ts) (t_wake s add)"
  shows "(\<exists>s' ts'. sched_add_timer add s = Ok () s' \<and> sched_inv s' ts' \<and>
       pending ts' = tinsert (t_wake s) (t_wake s add) add (pending ts) \<and>
       (\<forall>u. u \<noteq> Deleted_timer \<longrightarrow> t_wake s' u = t_wake s u) \<and> irq_on s' = irq_on s) \<or>
     (\<exists>s'. sched_add_timer add s = Shutdown ''Timer too close'' s' \<and>
       timer_is_before (t_wake s add) (fst (timer_read_time s)))"
proof -
  let ?w = "t_wake s add"
  from inv obtain h rest where ts: "ts = h # rest" and r: "running (t_wake s h) s h rest"
    by (cases ts) (auto simp: sched_inv_def)
  from r have dr: "Deleted_timer \<notin> set rest" and tl: "timer_list s = h" by (simp_all add: running_def)
  have dn: "add \<noteq> Deleted_timer" using n by (simp add: user_timer_def)
  consider (insert) "\<not> timer_is_before ?w (t_wake s h)"
    | (front) "timer_is_before ?w (t_wake s h)"
      "\<not> timer_is_before ?w (fst (timer_read_time s)) \<or> shutdown_status s \<noteq> 0"
    | (late) "timer_is_before ?w (t_wake s h)" "timer_is_before ?w (fst (timer_read_time s))"
      "shutdown_status s = 0" by blast
  then show ?thesis
  proof cases
    case insert
    with sched_add_timer_insert [OF inv n(1) dn] ts obtain s' where
      s': "sched_add_timer add s = Ok () s'" "sched_inv s' (h # tinsert (t_wake s) ?w add rest)"
      "t_wake s' = t_wake s" "irq_on s' = irq_on s" by auto
    moreover have "pending (h # tinsert (t_wake s) ?w add rest) = tinsert (t_wake s) ?w add (pending ts)"
      using insert dr dn tinsert_skip [of "[h]" ?w "t_wake s" add rest]
      by (simp add: ts pending_Cons set_tinsert)
    ultimately show ?thesis by auto
  next
    case front
    with sched_add_timer_front [OF inv n _ reach] ts obtain s' where
      s': "sched_add_timer add s = Ok () s'" "sched_inv s' (Deleted_timer # add # pending ts)"
      "\<forall>u. u \<noteq> Deleted_timer \<longrightarrow> t_wake s' u = t_wake s u" "irq_on s' = irq_on s" by auto
    obtain xs where x: "rest = xs @ [Sentinel_timer]" "off_sorted (t_wake s h) (t_wake s) xs"
      "Periodic_timer \<in> set (h # xs)" using running_rest [OF r] by metis
    define qs where "qs = (if h = Deleted_timer then xs else h # xs)"
    have p: "pending ts = qs @ [Sentinel_timer]" "qs \<noteq> []" "set qs \<subseteq> set (h # xs)"
      using x(1,3) dr by (auto simp: ts pending_Cons qs_def)
    then obtain y ys where "qs = y # ys" by (cases qs) auto
    with p have q: "pending ts = y # ys @ [Sentinel_timer]" "y \<in> set (butlast (pending ts))" "y \<in> set (h # xs)"
      by simp_all
    have o: "0 < off ?w (t_wake s h)" "off ?w (t_wake s h) \<le> 2 ^ 31"
      using front(1) by (simp_all add: before_off_pos)
    have "off (t_wake s h) (t_wake s y) < 2 ^ 31" using q(3) x(2) by (auto simp: off_sorted_def)
    from off_sum [OF o(2) this] o(1) q(2) reach have "timer_is_before ?w (t_wake s y)"
      using front(1) tl by (auto simp: before_off_pos in_reach_def head_wake_def)
    then have "tinsert (t_wake s) ?w add (pending ts) = add # pending ts" using q(1) by (simp add: tinsert_def)
    moreover have "pending (Deleted_timer # add # pending ts) = add # pending ts"
      using dn by (simp add: pending_def)
    ultimately show ?thesis using s' by metis
  next
    case late
    then have "\<exists>s'. sched_add_timer add s = Shutdown ''Timer too close'' s'"
      using tl by (simp add: sched_add_timer_def Let_def irq_disable_def timer_read_time_def
          sched_try_shutdown_def sched_shutdown_def)
    with late show ?thesis by blast
  qed
qed

lemma sched_del_timer_cases:
  assumes inv: "sched_inv s ts" and d: "user_timer del"
  shows "\<exists>s' ts'. sched_del_timer del s = Ok () s' \<and> sched_inv s' ts' \<and>
     pending ts' = remove1 del (pending ts) \<and>
     (\<forall>u. u \<noteq> Deleted_timer \<longrightarrow> t_wake s' u = t_wake s u) \<and> irq_on s' = irq_on s \<and>
     head_wake s' = head_wake s"
proof (cases "hd ts = del")
  case True
  from inv obtain rest where ts: "ts = del # rest" and dr: "Deleted_timer \<notin> set rest"
    using True by (cases ts) (auto simp: sched_inv_def running_def)
  then have "pending (Deleted_timer # tl ts) = remove1 del (pending ts)"
    using d by (simp add: pending_Cons user_timer_def)
  moreover from sched_del_timer_head [OF inv d True] obtain s' where
    "sched_del_timer del s = Ok () s'" "sched_inv s' (Deleted_timer # tl ts)"
    "t_wake s' = (t_wake s)(Deleted_timer := t_wake s del)" "irq_on s' = irq_on s"
    "head_wake s' = head_wake s" by blast
  ultimately show ?thesis by (metis fun_upd_other)
next
  case False
  have "pending (remove1 del ts) = remove1 del (pending ts)"
    using d by (simp add: pending_def filter_remove1)
  then show ?thesis using sched_del_timer_other [OF inv d False] by auto
qed

text \<open>
  What the components that use timers may rely on. \<open>queue s q\<close> says that \<open>q\<close> are the pending
  timers of \<open>s\<close> in the order they will run.
\<close>

locale timer_queue =
  fixes queue :: "'s \<Rightarrow> tmr list \<Rightarrow> bool" and wake :: "'s \<Rightarrow> tmr \<Rightarrow> u32" and base :: "'s \<Rightarrow> u32"
    and setw :: "tmr \<Rightarrow> u32 \<Rightarrow> 's \<Rightarrow> 's"
    and add :: "tmr \<Rightarrow> 's \<Rightarrow> (unit, 's) outcome" and del :: "tmr \<Rightarrow> 's \<Rightarrow> (unit, 's) outcome"
  assumes queue_distinct: "queue s q \<Longrightarrow> distinct q"
    and del_law: "queue s q \<Longrightarrow> user_timer t \<Longrightarrow>
      \<exists>s'. del t s = Ok () s' \<and> queue s' (remove1 t q) \<and> base s' = base s \<and>
        (\<forall>u. u \<noteq> Deleted_timer \<longrightarrow> wake s' u = wake s u)"
    and setw_law: "queue s q \<Longrightarrow> user_timer t \<Longrightarrow> t \<notin> set q \<Longrightarrow>
      queue (setw t w s) q \<and> wake (setw t w s) = (wake s)(t := w) \<and> base (setw t w s) = base s"
    and add_law: "queue s q \<Longrightarrow> user_timer t \<Longrightarrow> t \<notin> set q \<Longrightarrow> in_reach (base s) (wake s) q (wake s t) \<Longrightarrow>
      (\<exists>s'. add t s = Ok () s' \<and> queue s' (tinsert (wake s) (wake s t) t q) \<and>
         (\<forall>u. u \<noteq> Deleted_timer \<longrightarrow> wake s' u = wake s u)) \<or>
      (\<exists>s'. add t s = Shutdown ''Timer too close'' s')"
    and queue_no_placeholder: "queue s q \<Longrightarrow> Deleted_timer \<notin> set q"
begin

text \<open>
  The way the firmware reschedules a timer that may be pending: delete it, give it a new wake
  time, add it again. The timer is then pending exactly once and the others keep their order.
\<close>

lemma rearm:
  assumes q: "queue s q" and t: "user_timer t"
    and reach: "in_reach (base s) (wake s) (remove1 t q) w"
  shows "(\<exists>s' q'. andthen (del t s) (\<lambda>_ s. add t (setw t w s)) = Ok () s' \<and> queue s' q' \<and>
       t \<in> set q' \<and> remove1 t q' = remove1 t q \<and> wake s' t = w \<and>
       (\<forall>u. u \<noteq> Deleted_timer \<longrightarrow> u \<noteq> t \<longrightarrow> wake s' u = wake s u)) \<or>
     (\<exists>s'. andthen (del t s) (\<lambda>_ s. add t (setw t w s)) = Shutdown ''Timer too close'' s')"
proof -
  from del_law [OF q t] obtain s1 where s1: "del t s = Ok () s1" "queue s1 (remove1 t q)"
    "base s1 = base s" "\<forall>u. u \<noteq> Deleted_timer \<longrightarrow> wake s1 u = wake s u" by blast
  have nt: "t \<notin> set (remove1 t q)" using queue_distinct [OF q] by simp
  define s2 where "s2 = setw t w s1"
  from setw_law [OF s1(2) t nt, of w] have s2: "queue s2 (remove1 t q)" "wake s2 = (wake s1)(t := w)" "base s2 = base s1"
    by (simp_all add: s2_def)
  have "wake s2 x = wake s x" if "x \<in> set (remove1 t q)" for x
  proof -
    have "x \<noteq> t" using that nt by auto
    moreover have "x \<noteq> Deleted_timer" using that queue_no_placeholder [OF s1(2)] by auto
    ultimately show ?thesis using s1(4) s2(2) by simp
  qed
  moreover have "wake s2 t = w" by (simp add: s2(2))
  ultimately have "in_reach (base s2) (wake s2) (remove1 t q) (wake s2 t)"
    using reach s1(3) s2(3) by (metis in_reach_def in_set_butlastD)
  from add_law [OF s2(1) t nt this] show ?thesis
  proof
    assume "\<exists>s'. add t s2 = Ok () s' \<and> queue s' (tinsert (wake s2) (wake s2 t) t (remove1 t q)) \<and>
      (\<forall>u. u \<noteq> Deleted_timer \<longrightarrow> wake s' u = wake s2 u)"
    then obtain s' where s': "add t s2 = Ok () s'"
      "queue s' (tinsert (wake s2) (wake s2 t) t (remove1 t q))"
      "\<forall>u. u \<noteq> Deleted_timer \<longrightarrow> wake s' u = wake s2 u" by blast
    have "remove1 t (tinsert (wake s2) (wake s2 t) t (remove1 t q)) = remove1 t q"
      by (rule remove1_tinsert [OF nt])
    moreover have "t \<noteq> Deleted_timer" using t by (simp add: user_timer_def)
    ultimately show ?thesis using s1 s2 s' by (auto simp: s2_def set_tinsert)
  qed (use s1 in \<open>auto simp: s2_def\<close>)
qed

end

definition sched_queue :: "'z sched_scheme \<Rightarrow> tmr list \<Rightarrow> bool" where
  "sched_queue s q \<longleftrightarrow> (\<exists>ts. sched_inv s ts \<and> q = pending ts)"

lemma sched_inv_set_wake:
  assumes "sched_inv s ts" "user_timer t" "t \<notin> set ts"
  shows "sched_inv (set_wake t w s) ts"
proof -
  from assms(1) obtain h rest where ts: "ts = h # rest" and r: "running (t_wake s h) s h rest"
    by (cases ts) (auto simp: sched_inv_def)
  have "off_sorted (t_wake s h) ((t_wake s)(t := w)) (butlast rest)"
    using r assms(3) ts by (subst off_sorted_cong [of _ _ "t_wake s"]) (auto simp: running_def dest: in_set_butlastD)
  with r assms(2,3) ts show ?thesis
    by (auto simp: sched_inv_def running_def set_wake_def user_timer_def)
qed

lemma pending_user: "user_timer t \<Longrightarrow> t \<in> set (pending ts) \<longleftrightarrow> t \<in> set ts"
  by (auto simp: pending_def user_timer_def)

interpretation tq: timer_queue sched_queue t_wake head_wake set_wake sched_add_timer sched_del_timer
proof
  fix s :: "'z sched_scheme" and q t w
  assume "sched_queue s q"
  then obtain ts where i: "sched_inv s ts" and q: "q = pending ts" by (auto simp: sched_queue_def)
  show "distinct q" using i by (cases ts) (auto simp: sched_inv_def running_def q pending_def)
  show "Deleted_timer \<notin> set q" by (simp add: q pending_def)
  assume t: "user_timer t"
  show "\<exists>s'. sched_del_timer t s = Ok () s' \<and> sched_queue s' (remove1 t q) \<and>
      head_wake s' = head_wake s \<and> (\<forall>u. u \<noteq> Deleted_timer \<longrightarrow> t_wake s' u = t_wake s u)"
    using sched_del_timer_cases [OF i t] q by (metis sched_queue_def)
  assume "t \<notin> set q"
  then have n: "t \<notin> set ts" using t by (simp add: q pending_user)
  have "timer_list s \<noteq> t" using i n by (cases ts) (auto simp: sched_inv_def running_def)
  then show "sched_queue (set_wake t w s) q \<and> t_wake (set_wake t w s) = (t_wake s)(t := w) \<and>
      head_wake (set_wake t w s) = head_wake s"
    using sched_inv_set_wake [OF i t n] q by (auto simp: sched_queue_def set_wake_def head_wake_def)
  assume "in_reach (head_wake s) (t_wake s) q (t_wake s t)"
  then show "(\<exists>s'. sched_add_timer t s = Ok () s' \<and>
        sched_queue s' (tinsert (t_wake s) (t_wake s t) t q) \<and>
        (\<forall>u. u \<noteq> Deleted_timer \<longrightarrow> t_wake s' u = t_wake s u)) \<or>
      (\<exists>s'. sched_add_timer t s = Shutdown ''Timer too close'' s')"
    using sched_add_timer_cases [OF i n t] q by (metis sched_queue_def)
qed

section \<open>Properties\<close>

text \<open>A small machine for the examples: a 16 MHz clock that reads \<open>1000\<close>, nothing scheduled.\<close>

definition demo_sched :: sched where
  "demo_sched = sched_boot
     \<lparr>clock_freq = 16000000, inline_stepper_hack = False, want_both_edge = False, mach_avr = False,
      hw_time = (\<lambda>n. 1000), hw_pin = (\<lambda>n p. False), hw_reads = 0, irq_on = True, out_log = [],
      t_next = (\<lambda>t. None), t_func = (\<lambda>t. None), t_wake = (\<lambda>t. 2000),
      timer_list = Periodic_timer, last_insert = Periodic_timer, tasks_status = 0, tasks_busy = 0,
      shutdown_status = 0, shutdown_reason = [], task_wake = (\<lambda>w. False)\<rparr>"

text \<open>
  C7: adding a timer to a well-formed timer list either shuts down with
  \<^verbatim>\<open>Timer too close\<close>, and then the wake time is already past, or inserts the timer behind all
  pending timers that wake no later; the search never leaves the list, the other wake times stay
  and the interrupt flag is restored.
\<close>

theorem sched_add_timer_refines:
  assumes "sched_inv s ts" "add \<notin> set ts" "user_timer add"
    and "in_reach (head_wake s) (t_wake s) (pending ts) (t_wake s add)"
  shows "(\<exists>s' ts'. sched_add_timer add s = Ok () s' \<and> sched_inv s' ts' \<and>
       pending ts' = tinsert (t_wake s) (t_wake s add) add (pending ts) \<and>
       (\<forall>u. u \<noteq> Deleted_timer \<longrightarrow> t_wake s' u = t_wake s u) \<and> irq_on s' = irq_on s) \<or>
     (\<exists>s'. sched_add_timer add s = Shutdown ''Timer too close'' s' \<and>
       timer_is_before (t_wake s add) (fst (timer_read_time s)))"
  by (rule sched_add_timer_cases) (fact assms)+

theorem sched_add_timer_refines_witness:
  "\<exists>s' ts'. sched_add_timer (Obj_timer 0 0) demo_sched = Ok () s' \<and> sched_inv s' ts' \<and>
     pending ts' = [Periodic_timer, Obj_timer 0 0, Sentinel_timer]"
proof -
  let ?t = "Obj_timer 0 0"
  have i: "sched_inv demo_sched [Periodic_timer, Sentinel_timer]"
    unfolding demo_sched_def by (rule sched_boot_inv)
  have w: "t_wake demo_sched ?t = 2000" "t_wake demo_sched Periodic_timer = 0"
    "t_wake demo_sched Sentinel_timer = 0x80000000" "fst (timer_read_time demo_sched) = 1000"
    by (simp_all add: demo_sched_def sched_boot_def timer_read_time_def)
  have "head_wake demo_sched = 0" by (simp add: demo_sched_def sched_boot_def head_wake_def)
  then have "in_reach (head_wake demo_sched) (t_wake demo_sched) (pending [Periodic_timer, Sentinel_timer])
      (t_wake demo_sched ?t)" by (simp add: in_reach_def w timer_is_before_iff)
  then show ?thesis
    using sched_add_timer_refines [OF i, of ?t] w
    by (auto simp: user_timer_def off_def pending_def timer_is_before_iff tinsert_def)
qed

text \<open>
  C8: deleting a timer, pending or not, first in the list or not, removes it from the pending
  timers and changes nothing else; the search never leaves the list.
\<close>

theorem sched_del_timer_refines:
  assumes "sched_inv s ts" "user_timer del"
  shows "\<exists>s' ts'. sched_del_timer del s = Ok () s' \<and> sched_inv s' ts' \<and>
     pending ts' = remove1 del (pending ts) \<and>
     (\<forall>u. u \<noteq> Deleted_timer \<longrightarrow> t_wake s' u = t_wake s u) \<and> irq_on s' = irq_on s"
  using sched_del_timer_cases [OF assms] by blast

theorem sched_del_timer_refines_witness:
  "\<exists>s' ts'. sched_del_timer (Obj_timer 7 0) demo_sched = Ok () s' \<and> sched_inv s' ts' \<and>
     pending ts' = [Periodic_timer, Sentinel_timer]"
proof -
  have "sched_inv demo_sched [Periodic_timer, Sentinel_timer]"
    unfolding demo_sched_def by (rule sched_boot_inv)
  from sched_del_timer_refines [OF this, of "Obj_timer 7 0"] show ?thesis
    by (auto simp: user_timer_def pending_def)
qed

text \<open>
  C6: dispatching the first timer, whose function keeps the list behind it well formed, drops
  the timer when the function is done and otherwise moves it to its place behind all timers that
  wake no later, whatever shortcut \<^verbatim>\<open>last_insert\<close> offers; the result is the wake time of the new
  first timer.
\<close>

theorem sched_timer_dispatch_refines:
  assumes "sched_inv s (t # rest)" "timer_func_call call t s = Ok res s1"
    and "running (t_wake s t) s1 t rest'"
    and "res = SF_DONE \<Longrightarrow> t \<noteq> Periodic_timer"
    and "res = SF_RESCHEDULE \<Longrightarrow> t \<noteq> Deleted_timer \<and> off (t_wake s t) (t_wake s1 t) < 2 ^ 31"
    and "ts' = (if res = SF_DONE then rest' else tinsert (t_wake s1) (t_wake s1 t) t rest')"
  shows "\<exists>s2. sched_timer_dispatch call s = Ok (t_wake s2 (hd ts')) s2 \<and> sched_inv s2 ts' \<and>
     t_wake s2 = t_wake s1"
proof -
  have tl: "timer_list s = t" using assms(1) by (simp add: sched_inv_def running_def)
  show ?thesis
  proof (cases res)
    case SF_DONE
    with assms sched_timer_dispatch_done [OF tl _ assms(3)] show ?thesis by simp
  next
    case SF_RESCHEDULE
    with assms sched_timer_dispatch_again [OF tl _ assms(3)] show ?thesis by simp
  qed
qed

theorem sched_timer_dispatch_refines_witness:
  "\<exists>s2. sched_timer_dispatch (\<lambda>f t s. Fault) demo_sched = Ok 1600000 s2 \<and>
     sched_inv s2 [Periodic_timer, Sentinel_timer]"
proof -
  have i: "sched_inv demo_sched [Periodic_timer, Sentinel_timer]"
    unfolding demo_sched_def by (rule sched_boot_inv)
  from periodic_event_running [OF i] obtain s1 where
    s1: "periodic_event demo_sched = Ok SF_RESCHEDULE s1"
    "running (t_wake demo_sched Periodic_timer) s1 Periodic_timer [Sentinel_timer]"
    "off (t_wake demo_sched Periodic_timer) (t_wake s1 Periodic_timer) = unat (timer_from_us demo_sched 100000)"
    by blast
  have c: "timer_func_call (\<lambda>f t s. Fault) Periodic_timer demo_sched = Ok SF_RESCHEDULE s1"
    using s1(1) by (simp add: timer_func_call_def demo_sched_def sched_boot_def)
  have w: "t_wake s1 Periodic_timer = 1600000" "t_wake s1 Sentinel_timer = 0x80000000 + 1600000"
    using s1(1) by (auto simp: periodic_event_def demo_sched_def sched_boot_def Let_def set_wake_def
        timer_from_us_def sched_wake_tasks_def)
  have "timer_from_us demo_sched 100000 = 1600000"
    by (simp add: timer_from_us_def demo_sched_def sched_boot_def)
  then show ?thesis
    using sched_timer_dispatch_refines [OF i c s1(2), of "[Periodic_timer, Sentinel_timer]"] w s1(3)
    by (auto simp: tinsert_def timer_is_before_iff)
qed

text \<open>
  The way every component reschedules a timer that may be pending (delete, set the wake
  time, add) leaves it pending exactly once at the new time and keeps the order of the other
  timers, unless the new time is already past.
\<close>

theorem timer_rearm:
  assumes "sched_queue s q" "user_timer t" "in_reach (head_wake s) (t_wake s) (remove1 t q) w"
  shows "(\<exists>s' q'. andthen (sched_del_timer t s) (\<lambda>_ s. sched_add_timer t (set_wake t w s)) = Ok () s' \<and>
       sched_queue s' q' \<and> t \<in> set q' \<and> remove1 t q' = remove1 t q \<and> t_wake s' t = w \<and>
       (\<forall>u. u \<noteq> Deleted_timer \<longrightarrow> u \<noteq> t \<longrightarrow> t_wake s' u = t_wake s u)) \<or>
     (\<exists>s'. andthen (sched_del_timer t s) (\<lambda>_ s. sched_add_timer t (set_wake t w s))
        = Shutdown ''Timer too close'' s')"
  by (rule tq.rearm) (fact assms)+

theorem timer_rearm_witness:
  "(\<exists>s' q'. andthen (sched_del_timer (Obj_timer 0 1) demo_sched)
       (\<lambda>_ s. sched_add_timer (Obj_timer 0 1) (set_wake (Obj_timer 0 1) 5000 s)) = Ok () s' \<and>
     sched_queue s' q' \<and> Obj_timer 0 1 \<in> set q' \<and> t_wake s' (Obj_timer 0 1) = 5000) \<or>
   (\<exists>s'. andthen (sched_del_timer (Obj_timer 0 1) demo_sched)
       (\<lambda>_ s. sched_add_timer (Obj_timer 0 1) (set_wake (Obj_timer 0 1) 5000 s))
     = Shutdown ''Timer too close'' s')"
proof -
  have "sched_inv demo_sched [Periodic_timer, Sentinel_timer]"
    unfolding demo_sched_def by (rule sched_boot_inv)
  then have "sched_queue demo_sched [Periodic_timer, Sentinel_timer]"
    by (auto simp: sched_queue_def pending_def intro!: exI [of _ "[Periodic_timer, Sentinel_timer]"])
  moreover have "head_wake demo_sched = 0" by (simp add: demo_sched_def sched_boot_def head_wake_def)
  then have "in_reach (head_wake demo_sched) (t_wake demo_sched) [Periodic_timer, Sentinel_timer] 5000"
    by (simp add: in_reach_def timer_is_before_iff)
  ultimately show ?thesis
    using timer_rearm [of demo_sched "[Periodic_timer, Sentinel_timer]" "Obj_timer 0 1" 5000]
    by (auto simp: user_timer_def)
qed

end
