(* ===== verification/Basecmd.thy ===== *)
theory Basecmd
  imports Sched_Inv
begin

text \<open>
  The basic infrastructure of the firmware (\<^verbatim>\<open>src/src/basecmd.c\<close>, \<^verbatim>\<open>src/src/generic/alloc.c\<close>):
  the allocator, the pool of move nodes and the queues made of them, the object ids, the load
  statistics and the \<^verbatim>\<open>identify\<close> command. Addresses are natural numbers; NULL is \<open>None\<close>. The
  first field of a move node, its \<^verbatim>\<open>next\<close> pointer, is kept in the map \<open>m_next\<close>; the rest of a
  node belongs to the component that queues it.
\<close>

section \<open>State\<close>

datatype oid_type = Stepper_oid | Endstop_oid | Trsync_oid | Digital_out_oid
  | Sos_filter_oid | Trigger_analog_oid | Analog_in_oid | Buttons_oid | Counter_oid | Pwm_out_oid

record oid_s =
  oid_type_of :: "oid_type option"
  oid_data :: "nat option"

record move_queue_head =
  mq_first :: "nat option"
  mq_last :: "nat option"

record basecmd = sched +
  dynmem_start :: nat
  dynmem_end :: nat
  ptr_size :: nat                \<comment> \<open>size and alignment of a pointer\<close>
  identify_data :: "u8 list"     \<comment> \<open>\<^verbatim>\<open>command_identify_data\<close>, generated by the build\<close>
  alloc_end :: nat
  m_next :: "nat \<Rightarrow> nat option"
  move_free_list :: "nat option"
  move_list :: "nat option"
  move_count :: u16
  move_item_size :: u8
  oids :: "oid_s list option"
  oid_count :: u8
  config_crc :: u32
  stats_send_time :: u32
  stats_send_time_high :: u32
  stats_count :: u32
  stats_sum :: u32
  stats_sumsq :: u32

section \<open>Low level allocation\<close>

text \<open>\<^verbatim>\<open>ALIGN(x, a)\<close> of \<^verbatim>\<open>src/src/compiler.h\<close>.\<close>

definition align :: "nat \<Rightarrow> nat \<Rightarrow> nat" where
  "align x a = (x + a - 1) div a * a"

definition alloc_init :: "'z basecmd_scheme \<Rightarrow> 'z basecmd_scheme" where
  "alloc_init s = s\<lparr>alloc_end := align (dynmem_start s) (ptr_size s)\<rparr>"

text \<open>\<^verbatim>\<open>memset\<close> clears the \<^verbatim>\<open>next\<close> pointers stored in the area.\<close>

definition memset_next :: "nat \<Rightarrow> nat \<Rightarrow> (nat \<Rightarrow> nat option) \<Rightarrow> nat \<Rightarrow> nat option" where
  "memset_next data sz nxt a = (if data \<le> a \<and> a < data + sz then None else nxt a)"

definition alloc_chunk :: "nat \<Rightarrow> 'z basecmd_scheme \<Rightarrow> (nat, 'z basecmd_scheme) outcome" where
  "alloc_chunk sz s =
     (if alloc_end s + sz > dynmem_end s then sched_shutdown ''alloc_chunk failed'' s
      else let data = alloc_end s;
               s = s\<lparr>alloc_end := alloc_end s + align sz (ptr_size s)\<rparr>;
               s = s\<lparr>m_next := memset_next data sz (m_next s)\<rparr>
           in Ok data s)"

text \<open>The loop of \<^verbatim>\<open>alloc_chunks\<close>: how many more items fit from \<open>p\<close> on, up to a count.\<close>

fun alloc_chunks_loop :: "nat \<Rightarrow> nat \<Rightarrow> nat \<Rightarrow> nat \<Rightarrow> nat \<times> nat" where
  "alloc_chunks_loop sz dend 0 p = (0, p)"
| "alloc_chunks_loop sz dend (Suc left) p =
     (if p + sz \<le> dend
      then let (n, q) = alloc_chunks_loop sz dend left (p + sz) in (Suc n, q)
      else (0, p))"

definition alloc_chunks ::
  "nat \<Rightarrow> nat \<Rightarrow> 'z basecmd_scheme \<Rightarrow> (nat \<times> u16, 'z basecmd_scheme) outcome" where
  "alloc_chunks sz count s =
     (let (can_alloc, p) = alloc_chunks_loop sz (dynmem_end s) count (alloc_end s) in
      if can_alloc = 0 then sched_shutdown ''alloc_chunks failed'' s
      else andthen (alloc_chunk (p - alloc_end s) s)
             (\<lambda>data s. Ok (data, of_nat can_alloc) s))"

section \<open>Move queue\<close>

definition is_finalized :: "'z basecmd_scheme \<Rightarrow> bool" where
  "is_finalized s \<longleftrightarrow> move_count s \<noteq> 0"

definition move_free :: "nat \<Rightarrow> 'z basecmd_scheme \<Rightarrow> 'z basecmd_scheme" where
  "move_free m s = s\<lparr>m_next := (m_next s)(m := move_free_list s), move_free_list := Some m\<rparr>"

definition move_alloc :: "'z basecmd_scheme \<Rightarrow> (nat, 'z basecmd_scheme) outcome" where
  "move_alloc s =
     (let flag = irq_on s; s = irq_disable s in
      case move_free_list s of
        None \<Rightarrow> sched_shutdown ''Move queue overflow'' s
      | Some mf \<Rightarrow> Ok mf (s\<lparr>move_free_list := m_next s mf, irq_on := flag\<rparr>))"

definition move_queue_empty :: "move_queue_head \<Rightarrow> bool" where
  "move_queue_empty mh \<longleftrightarrow> mq_first mh = None"

definition move_queue_first :: "move_queue_head \<Rightarrow> nat option" where
  "move_queue_first mh = mq_first mh"

text \<open>The result is whether the queue was empty; \<open>None\<close> is a NULL \<^verbatim>\<open>last\<close> pointer.\<close>

definition move_queue_push ::
  "nat \<Rightarrow> move_queue_head \<Rightarrow> 'z basecmd_scheme \<Rightarrow> (bool \<times> move_queue_head \<times> 'z basecmd_scheme) option"
where
  "move_queue_push m mh s =
     (let s = s\<lparr>m_next := (m_next s)(m := None)\<rparr> in
      if mq_first mh \<noteq> None
      then case mq_last mh of
             None \<Rightarrow> None
           | Some l \<Rightarrow> Some (False, mh\<lparr>mq_last := Some m\<rparr>, s\<lparr>m_next := (m_next s)(l := Some m)\<rparr>)
      else Some (True, mh\<lparr>mq_first := Some m, mq_last := Some m\<rparr>, s))"

definition move_queue_pop ::
  "move_queue_head \<Rightarrow> 'z basecmd_scheme \<Rightarrow> (nat \<times> move_queue_head) option"
where
  "move_queue_pop mh s =
     (case mq_first mh of
        None \<Rightarrow> None
      | Some mn \<Rightarrow> Some (mn, mh\<lparr>mq_first := m_next s mn\<rparr>))"

definition move_queue_clear :: "move_queue_head \<Rightarrow> move_queue_head" where
  "move_queue_clear mh = mh\<lparr>mq_first := None\<rparr>"

definition move_queue_setup :: "nat \<Rightarrow> 'z basecmd_scheme \<Rightarrow> (move_queue_head, 'z basecmd_scheme) outcome"
where
  "move_queue_setup sz s =
     (let mh = \<lparr>mq_first = None, mq_last = None\<rparr> in
      if sz > 255 \<or> is_finalized s then sched_shutdown ''Invalid move request size'' s
      else if sz > unat (move_item_size s) then Ok mh (s\<lparr>move_item_size := of_nat sz\<rparr>)
      else Ok mh s)"

text \<open>The loop of \<^verbatim>\<open>move_reset\<close> and the assignments after it.\<close>

fun move_reset_loop :: "nat \<Rightarrow> nat \<Rightarrow> nat \<Rightarrow> nat \<Rightarrow> (nat \<Rightarrow> nat option) \<Rightarrow> nat \<Rightarrow> nat option" where
  "move_reset_loop base sz i 0 nxt = nxt(base + i * sz := None)"
| "move_reset_loop base sz i (Suc n) nxt =
     move_reset_loop base sz (Suc i) n (nxt(base + i * sz := Some (base + Suc i * sz)))"

definition move_reset :: "'z basecmd_scheme \<Rightarrow> (unit, 'z basecmd_scheme) outcome" where
  "move_reset s =
     (if move_count s = 0 then Ok () s
      else case move_list s of
             None \<Rightarrow> Fault
           | Some base \<Rightarrow>
               Ok () (s\<lparr>m_next := move_reset_loop base (unat (move_item_size s)) 0
                               (unat (move_count s) - 1) (m_next s),
                        move_free_list := Some base\<rparr>))"

definition move_finalize :: "'z basecmd_scheme \<Rightarrow> (unit, 'z basecmd_scheme) outcome" where
  "move_finalize s =
     (if is_finalized s then sched_shutdown ''Already finalized'' s
      else andthen (move_queue_setup (ptr_size s) s)
        (\<lambda>dummy s. andthen (alloc_chunks (unat (move_item_size s)) 1024 s)
          (\<lambda>(data, avail) s. move_reset (s\<lparr>move_list := Some data, move_count := avail\<rparr>))))"

section \<open>Object ids\<close>

text \<open>
  The \<^verbatim>\<open>oid\<close> parameter is a byte: the calls pass the low byte of a command argument. Every
  caller of \<^verbatim>\<open>oid_lookup\<close> dereferences the result at once, so the NULL data of an object whose
  allocation failed is a fault here.
\<close>

definition oid_lookup :: "u32 \<Rightarrow> oid_type \<Rightarrow> 'z basecmd_scheme \<Rightarrow> (nat, 'z basecmd_scheme) outcome" where
  "oid_lookup arg type s =
     (let oid = ucast arg :: u8 in
      if oid \<ge> oid_count s then sched_shutdown ''Invalid oid type'' s
      else case oids s of
             None \<Rightarrow> Fault
           | Some tab \<Rightarrow>
               if unat oid \<ge> length tab then Fault
               else if oid_type_of (tab ! unat oid) \<noteq> Some type
               then sched_shutdown ''Invalid oid type'' s
               else case oid_data (tab ! unat oid) of None \<Rightarrow> Fault | Some d \<Rightarrow> Ok d s)"

definition oid_alloc :: "u32 \<Rightarrow> oid_type \<Rightarrow> nat \<Rightarrow> 'z basecmd_scheme \<Rightarrow> (nat, 'z basecmd_scheme) outcome"
where
  "oid_alloc arg type sz s =
     (let oid = ucast arg :: u8 in
      if oid \<ge> oid_count s then sched_shutdown ''Can't assign oid'' s
      else case oids s of
             None \<Rightarrow> Fault
           | Some tab \<Rightarrow>
               if unat oid \<ge> length tab then Fault
               else if oid_type_of (tab ! unat oid) \<noteq> None \<or> is_finalized s
               then sched_shutdown ''Can't assign oid'' s
               else let s = s\<lparr>oids := Some (tab[unat oid := (tab ! unat oid)\<lparr>oid_type_of := Some type\<rparr>])\<rparr> in
                 andthen (alloc_chunk sz s)
                   (\<lambda>data s. Ok data
                      (s\<lparr>oids := Some (tab[unat oid := \<lparr>oid_type_of = Some type, oid_data = Some data\<rparr>])\<rparr>)))"

text \<open>
  \<^verbatim>\<open>oid_next\<close>: the loop over the entries after \<open>oid\<close>; \<open>None\<close> is the NULL result. With it
  \<^verbatim>\<open>foreach_oid\<close> visits the id and the data of every object of a type; \<^verbatim>\<open>pos\<close> starts at \<^verbatim>\<open>-1\<close>.
\<close>

fun oid_next_loop :: "oid_s list \<Rightarrow> oid_type \<Rightarrow> nat \<Rightarrow> nat \<Rightarrow> (nat \<times> nat option) option" where
  "oid_next_loop tab type 0 oid = None"
| "oid_next_loop tab type (Suc left) oid =
     (if oid_type_of (tab ! oid) = Some type then Some (oid, oid_data (tab ! oid))
      else oid_next_loop tab type left (Suc oid))"

definition oid_next :: "u8 \<Rightarrow> oid_type \<Rightarrow> 'z basecmd_scheme \<Rightarrow> (u8 \<times> nat option) option" where
  "oid_next i type s =
     (let first = unat (i + 1); tab = (case oids s of None \<Rightarrow> [] | Some tab \<Rightarrow> tab) in
      case oid_next_loop tab type (unat (oid_count s) - first) first of
        None \<Rightarrow> None
      | Some (oid, d) \<Rightarrow> Some (of_nat oid, d))"

fun foreach_oid_from :: "nat \<Rightarrow> u8 \<Rightarrow> oid_type \<Rightarrow> 'z basecmd_scheme \<Rightarrow> (u8 \<times> nat) list" where
  "foreach_oid_from 0 i type s = []"
| "foreach_oid_from (Suc n) i type s =
     (case oid_next i type s of
        None \<Rightarrow> []
      | Some (j, None) \<Rightarrow> []
      | Some (j, Some d) \<Rightarrow> (j, d) # foreach_oid_from n j type s)"

definition foreach_oid :: "oid_type \<Rightarrow> 'z basecmd_scheme \<Rightarrow> (u8 \<times> nat) list" where
  "foreach_oid type s = foreach_oid_from 256 255 type s"

definition command_allocate_oids :: "u32 list \<Rightarrow> 'z basecmd_scheme \<Rightarrow> (unit, 'z basecmd_scheme) outcome"
where
  "command_allocate_oids args s =
     (if oids s \<noteq> None then sched_shutdown ''oids already allocated'' s
      else let count = ucast (args ! 0) :: u8 in
        andthen (alloc_chunk (2 * ptr_size s * unat count) s)
          (\<lambda>_ s. Ok () (s\<lparr>oids := Some (replicate (unat count) \<lparr>oid_type_of = None, oid_data = None\<rparr>),
                          oid_count := count\<rparr>)))"

section \<open>Configuration\<close>

definition bool_u32 :: "bool \<Rightarrow> u32" where
  "bool_u32 b = (if b then 1 else 0)"

definition command_get_config :: "u32 list \<Rightarrow> 'z basecmd_scheme \<Rightarrow> 'z basecmd_scheme" where
  "command_get_config args s =
     emit (Sendf ''config is_config=%c crc=%u is_shutdown=%c move_count=%hu''
       [bool_u32 (is_finalized s), config_crc s, bool_u32 (sched_is_shutdown s), ucast (move_count s)] []) s"

definition command_finalize_config :: "u32 list \<Rightarrow> 'z basecmd_scheme \<Rightarrow> (unit, 'z basecmd_scheme) outcome"
where
  "command_finalize_config args s =
     andthen (move_finalize s) (\<lambda>_ s. Ok () (s\<lparr>config_crc := args ! 0\<rparr>))"

definition config_reset :: "u32 list \<Rightarrow> 'z basecmd_scheme \<Rightarrow> (unit, 'z basecmd_scheme) outcome" where
  "config_reset args s =
     (if \<not> sched_is_shutdown s then sched_shutdown ''config_reset only available when shutdown'' s
      else let s = irq_disable s;
               s = s\<lparr>config_crc := 0, oid_count := 0, oids := None, move_free_list := None,
                     move_list := None, move_count := 0, move_item_size := 0\<rparr>;
               s = alloc_init s;
               s = sched_timer_reset s
           in andthen (sched_clear_shutdown s) (\<lambda>_ s. Ok () (irq_enable s)))"

section \<open>Timing and load statistics\<close>

definition command_get_clock :: "u32 list \<Rightarrow> 'z basecmd_scheme \<Rightarrow> 'z basecmd_scheme" where
  "command_get_clock args s =
     (let (now, s) = timer_read_time s in emit (Sendf ''clock clock=%u'' [now] []) s)"

definition uptime_high :: "u32 \<Rightarrow> 'z basecmd_scheme \<Rightarrow> u32" where
  "uptime_high cur s = stats_send_time_high s + bool_u32 (cur < stats_send_time s)"

definition command_get_uptime :: "u32 list \<Rightarrow> 'z basecmd_scheme \<Rightarrow> 'z basecmd_scheme" where
  "command_get_uptime args s =
     (let (cur, s) = timer_read_time s;
          high = uptime_high cur s
      in emit (Sendf ''uptime high=%u clock=%u'' [high, cur] []) s)"

definition timer_has_elapsed :: "u32 \<Rightarrow> u32 \<Rightarrow> u32 \<Rightarrow> bool" where
  "timer_has_elapsed start cur duration \<longleftrightarrow> cur - start \<ge> duration"

text \<open>\<^verbatim>\<open>DIV_ROUND_UP(n, d)\<close> of \<^verbatim>\<open>src/src/compiler.h\<close> on 32-bit numbers.\<close>

definition div_round_up :: "u32 \<Rightarrow> u32 \<Rightarrow> u32" where
  "div_round_up n d = (n + d - 1) div d"

abbreviation (input) SUMSQ_BASE :: u32 where "SUMSQ_BASE \<equiv> 256"

definition next_sumsq :: "u32 \<Rightarrow> u32 \<Rightarrow> u32" where
  "next_sumsq sumsq diff =
     (let nextsumsq =
        (if diff \<le> 0xffff then sumsq + div_round_up (diff * diff) SUMSQ_BASE
         else if diff \<le> 0xfffff then sumsq + div_round_up diff SUMSQ_BASE * diff
         else 0xffffffff)
      in if nextsumsq < sumsq then 0xffffffff else nextsumsq)"

definition stats_update :: "u32 \<Rightarrow> u32 \<Rightarrow> 'z basecmd_scheme \<Rightarrow> 'z basecmd_scheme" where
  "stats_update start cur s =
     (let diff = cur - start;
          s = s\<lparr>stats_count := stats_count s + 1, stats_sum := stats_sum s + diff,
                stats_sumsq := next_sumsq (stats_sumsq s) diff\<rparr>
      in if \<not> timer_has_elapsed (stats_send_time s) cur (timer_from_us s 5000000) then s
         else let s = emit (Sendf ''stats count=%u sum=%u sumsq=%u''
                        [stats_count s, stats_sum s, stats_sumsq s] []) s;
                  s = (if cur < stats_send_time s
                       then s\<lparr>stats_send_time_high := stats_send_time_high s + 1\<rparr> else s)
              in s\<lparr>stats_send_time := cur, stats_count := 0, stats_sum := 0, stats_sumsq := 0\<rparr>)"

section \<open>Miscellaneous commands\<close>

definition command_emergency_stop :: "u32 list \<Rightarrow> 'z basecmd_scheme \<Rightarrow> (unit, 'z basecmd_scheme) outcome"
where
  "command_emergency_stop args s = sched_shutdown ''Command request'' s"

definition command_clear_shutdown :: "u32 list \<Rightarrow> 'z basecmd_scheme \<Rightarrow> (unit, 'z basecmd_scheme) outcome"
where
  "command_clear_shutdown args s = sched_clear_shutdown s"

text \<open>\<open>None\<close> is a read outside \<^verbatim>\<open>command_identify_data\<close>.\<close>

definition command_identify :: "u32 list \<Rightarrow> 'z basecmd_scheme \<Rightarrow> 'z basecmd_scheme option" where
  "command_identify args s =
     (let offset = args ! 0;
          count = ucast (args ! 1) :: u8;
          isize = of_nat (length (identify_data s)) :: u32;
          count = (if offset \<ge> isize then 0
                   else if offset + ucast count > isize then ucast (isize - offset) else count)
      in if count \<noteq> 0 \<and> unat offset + unat count > length (identify_data s) then None
         else Some (emit (Sendf ''identify_response offset=%u data=%.*s'' [offset, ucast count]
                (take (unat count) (drop (unat offset) (identify_data s)))) s))"

end
