(* ===== verification/Command.thy ===== *)
theory Command
  imports Msgblock Basecmd
begin

text \<open>
  Parsing of incoming commands and encoding of outgoing messages
  (\<^verbatim>\<open>src/src/command.c\<close>, \<^verbatim>\<open>src/src/command.h\<close>). Buffers are lists of bytes and pointers into
  them are positions; a read or write outside a buffer is a fault. The tables the build
  generates (\<^verbatim>\<open>command_index\<close>) and the console of the board (\<^verbatim>\<open>console_sendf\<close>) are parameters.
\<close>

section \<open>Data\<close>

datatype param_type = PT_uint32 | PT_int32 | PT_uint16 | PT_int16 | PT_byte
  | PT_string | PT_progmem_buffer | PT_buffer

definition is_int_type :: "param_type \<Rightarrow> bool" where
  "is_int_type t \<longleftrightarrow> t \<in> {PT_uint32, PT_int32, PT_uint16, PT_int16, PT_byte}"

record command_encoder =
  ce_encoded_msgid :: u16
  ce_max_size :: u8
  ce_min_size :: u8
  ce_param_types :: "param_type list"

text \<open>
  A handler gets its arguments and the buffer of the block, into which buffer arguments point.
  Pointers are passed as positions in that buffer, as \<^verbatim>\<open>command_encode_ptr\<close> does where they do not
  fit 32 bits.
\<close>

record 's command_parser =
  cp_encoded_msgid :: u16
  cp_num_args :: nat
  cp_flags :: u8
  cp_param_types :: "param_type list"
  cp_func :: "u32 list \<Rightarrow> u8 list \<Rightarrow> 's \<Rightarrow> (unit, 's) outcome"

abbreviation (input) HF_IN_SHUTDOWN :: u8 where "HF_IN_SHUTDOWN \<equiv> 0x01"

record command = basecmd +
  next_sequence :: u8
  sync_state :: u8
  in_sendf :: bool

section \<open>Parsing arguments\<close>

datatype parse_result = Parsed nat "u32 list" | Parse_error | Parse_fault

definition command_encode_ptr :: "nat \<Rightarrow> u32" where
  "command_encode_ptr p = of_nat p"

definition command_decode_ptr :: "u32 \<Rightarrow> nat" where
  "command_decode_ptr v = unat v"

text \<open>The loop of \<^verbatim>\<open>command_parsef\<close>; \<open>n\<close> is the size of the array \<^verbatim>\<open>args\<close>.\<close>

fun parsef_loop :: "u8 list \<Rightarrow> nat \<Rightarrow> nat \<Rightarrow> param_type list \<Rightarrow> nat \<Rightarrow> u32 list \<Rightarrow> parse_result" where
  "parsef_loop buf maxend n [] p args = (if p > maxend then Parse_error else Parsed p args)"
| "parsef_loop buf maxend n (t # ts) p args =
     (if p > maxend then Parse_error
      else if is_int_type t
      then (case parse_int buf p of
              None \<Rightarrow> Parse_fault
            | Some (v, q) \<Rightarrow>
                if length args < n then parsef_loop buf maxend n ts q (args @ [v]) else Parse_fault)
      else if t = PT_buffer
      then (if p < length buf \<and> length args + 1 < n
            then let len = buf ! p
                 in parsef_loop buf maxend n ts (Suc p + unat len)
                      (args @ [ucast len, command_encode_ptr (Suc p)])
            else Parse_fault)
      else Parse_error)"

definition command_parsef :: "u8 list \<Rightarrow> nat \<Rightarrow> nat \<Rightarrow> 's command_parser \<Rightarrow> parse_result" where
  "command_parsef buf p maxend cp = parsef_loop buf maxend (cp_num_args cp) (cp_param_types cp) p []"

lemma parsef_loop_mono:
  "parsef_loop buf maxend n ts p args = Parsed q args' \<Longrightarrow> p \<le> q \<and> q \<le> maxend"
proof (induction buf maxend n ts p args rule: parsef_loop.induct)
  case (2 buf maxend n t ts p args)
  then show ?case
    by (force simp: Let_def dest: parse_int_bounds split: if_splits option.splits)
qed (auto split: if_splits)

lemma command_parse_msgid_bounds:
  "command_parse_msgid buf p = Some (m, q) \<Longrightarrow> p < q \<and> q \<le> length buf \<and> q \<le> p + 2"
  by (auto simp: command_parse_msgid_def Let_def split: if_splits)

section \<open>Dispatching the commands of a block\<close>

definition command_lookup_parser ::
  "('z sched_scheme) command_parser list \<Rightarrow> u16 \<Rightarrow> 'z sched_scheme \<Rightarrow>
     (('z sched_scheme) command_parser, 'z sched_scheme) outcome"
where
  "command_lookup_parser index cmdid s =
     (if cmdid = 0 \<or> unat cmdid \<ge> length index then sched_shutdown ''Invalid command'' s
      else Ok (index ! unat cmdid) s)"

function command_dispatch_loop ::
  "('z sched_scheme) command_parser list \<Rightarrow> u8 list \<Rightarrow> nat \<Rightarrow> nat \<Rightarrow> 'z sched_scheme \<Rightarrow>
     (unit, 'z sched_scheme) outcome"
where
  "command_dispatch_loop index buf msgend p s =
     (if p < msgend
      then case command_parse_msgid buf p of
             None \<Rightarrow> Fault
           | Some (cmdid, p1) \<Rightarrow>
               andthen (command_lookup_parser index cmdid s)
                 (\<lambda>cp s1. case command_parsef buf p1 msgend cp of
                    Parse_fault \<Rightarrow> Fault
                  | Parse_error \<Rightarrow> sched_shutdown ''Command parser error'' s1
                  | Parsed p2 args \<Rightarrow>
                      if sched_is_shutdown s1 \<and> cp_flags cp AND HF_IN_SHUTDOWN = 0
                      then command_dispatch_loop index buf msgend p2 (sched_report_shutdown s1)
                      else andthen (cp_func cp args buf s1)
                             (\<lambda>_ s2. command_dispatch_loop index buf msgend p2 s2))
      else Ok () s)"
  by pat_completeness auto
termination
proof (relation "measure (\<lambda>(index, buf, msgend, p, s). msgend - p)", goal_cases)
  case 1
  show ?case by simp
qed (auto simp: command_parsef_def dest!: parsef_loop_mono command_parse_msgid_bounds)

declare command_dispatch_loop.simps [simp del]

definition command_dispatch ::
  "('z sched_scheme) command_parser list \<Rightarrow> u8 list \<Rightarrow> nat \<Rightarrow> 'z sched_scheme \<Rightarrow>
     (unit, 'z sched_scheme) outcome"
where
  "command_dispatch index buf msglen s =
     command_dispatch_loop index buf (msglen - MESSAGE_TRAILER_SIZE) MESSAGE_HEADER_SIZE s"

section \<open>Encoding messages\<close>

datatype cmd_arg = A_int u32 | A_str "u8 list" | A_buf u32 "u8 list"

datatype encode_result = Encoded nat "u8 list" | Encode_fault

text \<open>
  The value of an integer argument: where \<^verbatim>\<open>int\<close> has 16 bits (\<open>int16\<close>), the short types are
  passed as \<^verbatim>\<open>int\<close>.
\<close>

definition arg_value :: "bool \<Rightarrow> param_type \<Rightarrow> u32 \<Rightarrow> u32" where
  "arg_value int16 t v =
     (if int16 \<and> t \<in> {PT_uint16, PT_int16, PT_byte}
      then if t = PT_int16 then scast (ucast v :: u16) else ucast (ucast v :: u16)
      else v)"

text \<open>
  The bytes one parameter adds at \<open>p\<close>. An argument that does not fit its type is a misuse of
  \<^verbatim>\<open>va_arg\<close>, which C does not define. A string ends at its zero byte.
\<close>

datatype param_bytes = Bytes "u8 list" | Need_space | Bad_arg

definition encode_param :: "bool \<Rightarrow> int \<Rightarrow> param_type \<Rightarrow> cmd_arg \<Rightarrow> nat \<Rightarrow> param_bytes" where
  "encode_param int16 maxend t a p =
     (if is_int_type t
      then (case a of A_int v \<Rightarrow> Bytes (encode_int (arg_value int16 t v)) | _ \<Rightarrow> Bad_arg)
      else if t = PT_string
      then (case a of
              A_str str \<Rightarrow>
                let cs = takeWhile (\<lambda>c. c \<noteq> 0) str;
                    n = min (length cs) (nat (maxend + 1 - int (Suc p)))
                in Bytes (of_nat n # take n cs)
            | _ \<Rightarrow> Bad_arg)
      else (case a of
              A_buf v data \<Rightarrow>
                if int (unat v) \<ge> maxend - int p then Need_space
                else if unat v \<le> length data then Bytes (ucast v # take (unat v) data)
                else Bad_arg
            | _ \<Rightarrow> Bad_arg))"

text \<open>The loop of \<^verbatim>\<open>command_encodef\<close>; the result 0 is the label \<^verbatim>\<open>need_space\<close>.\<close>

fun encodef_loop ::
  "bool \<Rightarrow> int \<Rightarrow> param_type list \<Rightarrow> cmd_arg list \<Rightarrow> u8 list \<Rightarrow> nat \<Rightarrow> encode_result"
where
  "encodef_loop int16 maxend [] args buf p =
     (if int p > maxend then Encoded 0 buf else Encoded (p + MESSAGE_TRAILER_SIZE) buf)"
| "encodef_loop int16 maxend (t # ts) [] buf p =
     (if int p + 2 > maxend then Encoded 0 buf else Encode_fault)"
| "encodef_loop int16 maxend (t # ts) (a # as) buf p =
     (if int p + 2 > maxend then Encoded 0 buf
      else case encode_param int16 maxend t a p of
             Bad_arg \<Rightarrow> Encode_fault
           | Need_space \<Rightarrow> Encoded 0 buf
           | Bytes bs \<Rightarrow>
               (case write_at buf p bs of
                  None \<Rightarrow> Encode_fault
                | Some buf' \<Rightarrow> encodef_loop int16 maxend ts as buf' (p + length bs)))"

text \<open>
  \<open>buf\<close> is the memory from the first byte of the message on; \<open>buf_size\<close> is what the caller says
  is available.
\<close>

definition command_encodef ::
  "bool \<Rightarrow> u8 list \<Rightarrow> nat \<Rightarrow> command_encoder \<Rightarrow> cmd_arg list \<Rightarrow> encode_result"
where
  "command_encodef int16 buf buf_size ce args =
     (let max_size = unat (ce_max_size ce) in
      if max_size \<le> MESSAGE_MIN then Encoded max_size buf
      else let max_size = (if buf_size < max_size then buf_size else max_size);
               p = MESSAGE_HEADER_SIZE;
               maxend = int p + (int max_size - int MESSAGE_MIN);
               ms = encode_msgid (ce_encoded_msgid ce)
           in case write_at buf p ms of
                None \<Rightarrow> Encode_fault
              | Some buf' \<Rightarrow> encodef_loop int16 maxend (ce_param_types ce) args buf' (p + length ms))"

definition command_add_frame :: "u8 \<Rightarrow> u8 list \<Rightarrow> nat \<Rightarrow> u8 list option" where
  "command_add_frame seq buf msglen =
     (if msglen < MESSAGE_MIN \<or> length buf < msglen then None
      else let buf = buf[0 := of_nat msglen];
               buf = buf[1 := seq];
               crc = crc16_ccitt buf (msglen - MESSAGE_TRAILER_SIZE);
               buf = buf[msglen - 3 := ucast (drop_bit 8 crc)];
               buf = buf[msglen - 2 := ucast crc];
               buf = buf[msglen - 1 := MESSAGE_SYNC]
           in Some buf)"

definition command_encode_and_frame ::
  "bool \<Rightarrow> u8 \<Rightarrow> u8 list \<Rightarrow> nat \<Rightarrow> command_encoder \<Rightarrow> cmd_arg list \<Rightarrow> encode_result"
where
  "command_encode_and_frame int16 seq buf buf_size ce args =
     (case command_encodef int16 buf buf_size ce args of
        Encode_fault \<Rightarrow> Encode_fault
      | Encoded msglen buf' \<Rightarrow>
          if msglen \<noteq> 0
          then (case command_add_frame seq buf' msglen of
                  None \<Rightarrow> Encode_fault
                | Some buf'' \<Rightarrow> Encoded msglen buf'')
          else Encoded msglen buf')"

section \<open>Sending\<close>

text \<open>\<open>cons\<close> is the \<^verbatim>\<open>console_sendf\<close> of the board.\<close>

type_synonym 's console = "command_encoder \<Rightarrow> cmd_arg list \<Rightarrow> 's \<Rightarrow> (unit, 's) outcome"

definition command_sendf ::
  "('z command_scheme) console \<Rightarrow> command_encoder \<Rightarrow> cmd_arg list \<Rightarrow> 'z command_scheme \<Rightarrow>
     (unit, 'z command_scheme) outcome"
where
  "command_sendf cons ce args s =
     (if in_sendf s then Ok () s
      else andthen (cons ce args (s\<lparr>in_sendf := True\<rparr>))
             (\<lambda>_ s. Ok () (s\<lparr>in_sendf := False\<rparr>)))"

definition sendf_shutdown :: "'z command_scheme \<Rightarrow> 'z command_scheme" where
  "sendf_shutdown s = s\<lparr>in_sendf := False\<rparr>"

definition encode_acknak :: command_encoder where
  "encode_acknak = \<lparr>ce_encoded_msgid = 0, ce_max_size = of_nat MESSAGE_MIN, ce_min_size = 0, ce_param_types = []\<rparr>"

definition command_send_ack :: "('z command_scheme) console \<Rightarrow> 'z command_scheme \<Rightarrow> (unit, 'z command_scheme) outcome"
where
  "command_send_ack cons s = command_sendf cons encode_acknak [] s"

section \<open>Finding message blocks\<close>

abbreviation (input) CF_NEED_SYNC :: u8 where "CF_NEED_SYNC \<equiv> 1"
abbreviation (input) CF_NEED_VALID :: u8 where "CF_NEED_VALID \<equiv> 2"

text \<open>The code from the label \<^verbatim>\<open>need_sync\<close> on, and from the label \<^verbatim>\<open>error\<close> on.\<close>

definition find_block_nak ::
  "('z command_scheme) console \<Rightarrow> nat \<Rightarrow> 'z command_scheme \<Rightarrow> (int \<times> nat, 'z command_scheme) outcome"
where
  "find_block_nak cons pop_count s =
     andthen (command_sendf cons encode_acknak [] s) (\<lambda>_ s. Ok (- 1, pop_count) s)"

definition find_block_need_sync ::
  "('z command_scheme) console \<Rightarrow> u8 list \<Rightarrow> nat \<Rightarrow> 'z command_scheme \<Rightarrow>
     (int \<times> nat, 'z command_scheme) outcome"
where
  "find_block_need_sync cons buf buf_len s =
     (let (pop_count, s) =
        (case memchr buf MESSAGE_SYNC buf_len of
           Some i \<Rightarrow> (i + 1, s\<lparr>sync_state := sync_state s AND NOT CF_NEED_SYNC\<rparr>)
         | None \<Rightarrow> (buf_len, s))
      in if sync_state s AND CF_NEED_VALID \<noteq> 0 then Ok (- 1, pop_count) s
         else find_block_nak cons pop_count (s\<lparr>sync_state := sync_state s OR CF_NEED_VALID\<rparr>))"

definition find_block_error ::
  "('z command_scheme) console \<Rightarrow> u8 list \<Rightarrow> nat \<Rightarrow> 'z command_scheme \<Rightarrow>
     (int \<times> nat, 'z command_scheme) outcome"
where
  "find_block_error cons buf buf_len s =
     (if buf ! 0 = MESSAGE_SYNC then Ok (- 1, 1) s
      else find_block_need_sync cons buf buf_len (s\<lparr>sync_state := sync_state s OR CF_NEED_SYNC\<rparr>))"

definition command_find_block ::
  "('z command_scheme) console \<Rightarrow> u8 list \<Rightarrow> nat \<Rightarrow> 'z command_scheme \<Rightarrow>
     (int \<times> nat, 'z command_scheme) outcome"
where
  "command_find_block cons buf buf_len s =
     (if buf_len \<noteq> 0 \<and> sync_state s AND CF_NEED_SYNC \<noteq> 0 then find_block_need_sync cons buf buf_len s
      else if buf_len < MESSAGE_MIN then Ok (0, 0) s
      else let msglen = unat (buf ! 0) in
        if msglen < MESSAGE_MIN \<or> msglen > MESSAGE_MAX then find_block_error cons buf buf_len s
        else let msgseq = buf ! 1 in
          if msgseq AND NOT MESSAGE_SEQ_MASK \<noteq> MESSAGE_DEST then find_block_error cons buf buf_len s
          else if buf_len < msglen then Ok (0, 0) s
          else if buf ! (msglen - 1) \<noteq> MESSAGE_SYNC then find_block_error cons buf buf_len s
          else let msgcrc = read_crc buf msglen; crc = crc16_ccitt buf (msglen - MESSAGE_TRAILER_SIZE) in
            if crc \<noteq> msgcrc then find_block_error cons buf buf_len s
            else let s = s\<lparr>sync_state := sync_state s AND NOT CF_NEED_VALID\<rparr>; pop_count = msglen in
              if msgseq \<noteq> next_sequence s then find_block_nak cons pop_count s
              else Ok (1, pop_count)
                     (s\<lparr>next_sequence := ((msgseq + 1) AND MESSAGE_SEQ_MASK) OR MESSAGE_DEST\<rparr>))"

definition command_find_and_dispatch ::
  "('z command_scheme) console \<Rightarrow> ('z command_scheme) command_parser list \<Rightarrow> u8 list \<Rightarrow> nat \<Rightarrow>
     'z command_scheme \<Rightarrow> (int \<times> nat, 'z command_scheme) outcome"
where
  "command_find_and_dispatch cons index buf buf_len s =
     andthen (command_find_block cons buf buf_len s)
       (\<lambda>(ret, pop_count) s.
         if ret > 0
         then andthen (command_dispatch index buf pop_count s)
                (\<lambda>_ s. andthen (command_send_ack cons s) (\<lambda>_ s. Ok (ret, pop_count) s))
         else Ok (ret, pop_count) s)"

end
