(* ===== verification/Basecmd_Props.thy ===== *)
theory Basecmd_Props
  imports Basecmd
begin

text \<open>
  Properties of \<^verbatim>\<open>src/src/basecmd.c\<close>: the move queues are first-in first-out queues that never
  share a node, the pool holds as many disjoint nodes as it reports, object ids resolve to the
  object allocated for them, the statistics saturate, the uptime is exact and \<^verbatim>\<open>identify\<close> never
  reads outside its data.
\<close>

section \<open>Chains of move nodes\<close>

fun chain :: "(nat \<Rightarrow> nat option) \<Rightarrow> nat option \<Rightarrow> nat list \<Rightarrow> bool" where
  "chain nxt p [] \<longleftrightarrow> p = None"
| "chain nxt p (x # xs) \<longleftrightarrow> p = Some x \<and> chain nxt (nxt x) xs"

lemma chain_upd [simp]: "a \<notin> set xs \<Longrightarrow> chain (nxt(a := v)) p xs = chain nxt p xs"
  by (induction xs arbitrary: p) auto

lemma chain_snoc:
  "chain nxt p (xs @ [l]) \<Longrightarrow> distinct (xs @ [l]) \<Longrightarrow> m \<notin> set (xs @ [l]) \<Longrightarrow>
   chain (nxt(m := None, l := Some m)) p (xs @ [l, m])"
  by (induction xs arbitrary: p) auto

definition mq :: "'z basecmd_scheme \<Rightarrow> move_queue_head \<Rightarrow> nat list \<Rightarrow> bool" where
  "mq s mh xs \<longleftrightarrow> chain (m_next s) (mq_first mh) xs \<and> distinct xs \<and>
     (xs \<noteq> [] \<longrightarrow> mq_last mh = Some (last xs))"

definition free_nodes :: "'z basecmd_scheme \<Rightarrow> nat list \<Rightarrow> bool" where
  "free_nodes s xs \<longleftrightarrow> chain (m_next s) (move_free_list s) xs \<and> distinct xs"

lemma mq_empty [simp]: "mq s mh [] \<longleftrightarrow> mq_first mh = None"
  by (simp add: mq_def)

lemma move_queue_push_mq:
  assumes "mq s mh xs" "m \<notin> set xs"
  shows "\<exists>mh' nxt. move_queue_push m mh s = Some (xs = [], mh', s\<lparr>m_next := nxt\<rparr>) \<and>
     mq (s\<lparr>m_next := nxt\<rparr>) mh' (xs @ [m]) \<and>
     (\<forall>u. u \<notin> set (m # xs) \<longrightarrow> nxt u = m_next s u)"
proof (cases xs rule: rev_cases)
  case Nil
  with assms show ?thesis
    by (intro exI [of _ "mh\<lparr>mq_first := Some m, mq_last := Some m\<rparr>"] exI [of _ "(m_next s)(m := None)"])
      (simp add: move_queue_push_def Let_def mq_def)
next
  case (snoc ys l)
  have c: "chain ((m_next s)(m := None, l := Some m)) (mq_first mh) (ys @ [l, m])"
    using assms snoc by (intro chain_snoc) (auto simp: mq_def)
  have "mq_first mh \<noteq> None" "mq_last mh = Some l" using assms snoc by (cases ys; auto simp: mq_def)+
  with c snoc assms show ?thesis
    by (intro exI [of _ "mh\<lparr>mq_last := Some m\<rparr>"] exI [of _ "(m_next s)(m := None, l := Some m)"])
      (auto simp: move_queue_push_def Let_def mq_def)
qed

lemma move_queue_pop_mq:
  assumes "mq s mh (x # xs)"
  shows "\<exists>mh'. move_queue_pop mh s = Some (x, mh') \<and> mq s mh' xs"
  using assms by (auto simp: mq_def move_queue_pop_def)

lemma mq_frame:
  assumes "mq s mh ys" "\<forall>u. u \<in> set ys \<longrightarrow> nxt u = m_next s u"
  shows "mq (s\<lparr>m_next := nxt\<rparr>) mh ys"
proof -
  have "chain nxt p ys" if "chain (m_next s) p ys" for p
    using that assms(2) by (induction ys arbitrary: p) auto
  with assms show ?thesis by (simp add: mq_def)
qed

lemma move_free_frame [simp]:
  "t_func (move_free m s) = t_func s" "t_wake (move_free m s) = t_wake s" "out_log (move_free m s) = out_log s"
  by (simp_all add: move_free_def)

section \<open>First-in first-out queues\<close>

fun push_all :: "('a \<Rightarrow> 'q \<Rightarrow> 's \<Rightarrow> (bool \<times> 'q \<times> 's) option) \<Rightarrow> 'a list \<Rightarrow> 'q \<Rightarrow> 's \<Rightarrow> ('q \<times> 's) option" where
  "push_all push [] q s = Some (q, s)"
| "push_all push (m # ms) q s =
     (case push m q s of None \<Rightarrow> None | Some (b, q', s') \<Rightarrow> push_all push ms q' s')"

fun pop_many :: "('q \<Rightarrow> 's \<Rightarrow> ('a \<times> 'q) option) \<Rightarrow> nat \<Rightarrow> 'q \<Rightarrow> 's \<Rightarrow> ('a list \<times> 'q) option" where
  "pop_many pop 0 q s = Some ([], q)"
| "pop_many pop (Suc n) q s =
     (case pop q s of
        None \<Rightarrow> None
      | Some (x, q') \<Rightarrow> map_option (\<lambda>(xs, q''). (x # xs, q'')) (pop_many pop n q' s))"

text \<open>A queue whose elements are nodes of a shared memory \<open>'s\<close>.\<close>

locale node_queue =
  fixes rep :: "'s \<Rightarrow> 'q \<Rightarrow> 'a list \<Rightarrow> bool"
    and push :: "'a \<Rightarrow> 'q \<Rightarrow> 's \<Rightarrow> (bool \<times> 'q \<times> 's) option"
    and pop :: "'q \<Rightarrow> 's \<Rightarrow> ('a \<times> 'q) option"
  assumes push_law: "rep s q xs \<Longrightarrow> m \<notin> set xs \<Longrightarrow>
      \<exists>q' s'. push m q s = Some (xs = [], q', s') \<and> rep s' q' (xs @ [m])"
    and push_frame: "rep s q xs \<Longrightarrow> m \<notin> set xs \<Longrightarrow> push m q s = Some (b, q', s') \<Longrightarrow>
      rep s r ys \<Longrightarrow> set ys \<inter> set (m # xs) = {} \<Longrightarrow> rep s' r ys"
    and pop_law: "rep s q (x # xs) \<Longrightarrow> \<exists>q'. pop q s = Some (x, q') \<and> rep s q' xs"
begin

lemma push_all_rep:
  assumes "rep s q xs" "distinct (xs @ ms)"
  shows "\<exists>q' s'. push_all push ms q s = Some (q', s') \<and> rep s' q' (xs @ ms) \<and>
     (\<forall>r ys. rep s r ys \<longrightarrow> set ys \<inter> set (xs @ ms) = {} \<longrightarrow> rep s' r ys)"
  using assms
proof (induction ms arbitrary: q s xs)
  case Nil
  then show ?case by auto
next
  case (Cons m ms)
  then have nm: "m \<notin> set xs" by auto
  from push_law [OF Cons.prems(1) nm] obtain q1 s1 where
    p: "push m q s = Some (xs = [], q1, s1)" "rep s1 q1 (xs @ [m])" by blast
  from Cons.IH [OF p(2)] Cons.prems(2) obtain q' s' where
    i: "push_all push ms q1 s1 = Some (q', s')" "rep s' q' ((xs @ [m]) @ ms)"
    "\<forall>r ys. rep s1 r ys \<longrightarrow> set ys \<inter> set ((xs @ [m]) @ ms) = {} \<longrightarrow> rep s' r ys" by auto
  have "rep s' r ys" if "rep s r ys" "set ys \<inter> set (xs @ m # ms) = {}" for r ys
    using push_frame [OF Cons.prems(1) nm p(1) that(1)] that(2) i(3) by auto
  with p i show ?case by auto
qed

lemma pop_many_rep:
  assumes "rep s q (xs @ ys)"
  shows "\<exists>q'. pop_many pop (length xs) q s = Some (xs, q') \<and> rep s q' ys"
  using assms
proof (induction xs arbitrary: q)
  case Nil
  then show ?case by auto
next
  case (Cons x xs)
  from pop_law [of s q x "xs @ ys"] Cons.prems obtain q1 where
    p: "pop q s = Some (x, q1)" "rep s q1 (xs @ ys)" by auto
  from Cons.IH [OF p(2)] p(1) show ?case by auto
qed

text \<open>Elements come out in the order they went in.\<close>

lemma fifo:
  assumes "rep s q xs" "distinct (xs @ ms)"
  shows "\<exists>q1 s1 q2. push_all push ms q s = Some (q1, s1) \<and>
     pop_many pop (length (xs @ ms)) q1 s1 = Some (xs @ ms, q2) \<and> rep s1 q2 [] \<and>
     (\<forall>r ys. rep s r ys \<longrightarrow> set ys \<inter> set (xs @ ms) = {} \<longrightarrow> rep s1 r ys)"
proof -
  from push_all_rep [OF assms] obtain q1 s1 where p: "push_all push ms q s = Some (q1, s1)"
    "rep s1 q1 (xs @ ms)" "\<forall>r ys. rep s r ys \<longrightarrow> set ys \<inter> set (xs @ ms) = {} \<longrightarrow> rep s1 r ys"
    by blast
  from pop_many_rep [of s1 q1 "xs @ ms" "[]"] p(2) show ?thesis using p by auto
qed

end

interpretation mvq: node_queue mq move_queue_push move_queue_pop
proof
  fix s :: "'z basecmd_scheme" and mh xs m
  assume q: "mq s mh xs" and n: "m \<notin> set xs"
  from move_queue_push_mq [OF q n] obtain mh' nxt where
    p: "move_queue_push m mh s = Some (xs = [], mh', s\<lparr>m_next := nxt\<rparr>)"
    "mq (s\<lparr>m_next := nxt\<rparr>) mh' (xs @ [m])" "\<forall>u. u \<notin> set (m # xs) \<longrightarrow> nxt u = m_next s u" by blast
  then show "\<exists>q' s'. move_queue_push m mh s = Some (xs = [], q', s') \<and> mq s' q' (xs @ [m])" by blast
  fix b mh1 s1 r ys
  assume "move_queue_push m mh s = Some (b, mh1, s1)" "mq s r ys" "set ys \<inter> set (m # xs) = {}"
  with p show "mq s1 r ys" by (auto intro!: mq_frame)
qed (fact move_queue_pop_mq)

section \<open>The pool of move nodes\<close>

lemma move_alloc_free_nodes:
  assumes "free_nodes s (m # fl)"
  shows "\<exists>s'. move_alloc s = Ok m s' \<and> free_nodes s' fl \<and> m_next s' = m_next s \<and> irq_on s' = irq_on s"
  using assms
  by (auto simp: free_nodes_def move_alloc_def Let_def irq_disable_def)

lemma move_alloc_overflow:
  "free_nodes s [] \<Longrightarrow> \<exists>s'. move_alloc s = Shutdown ''Move queue overflow'' s'"
  by (simp add: free_nodes_def move_alloc_def Let_def irq_disable_def sched_shutdown_def)

lemma move_free_free_nodes:
  "free_nodes s fl \<Longrightarrow> m \<notin> set fl \<Longrightarrow> free_nodes (move_free m s) (m # fl)"
  by (simp add: free_nodes_def move_free_def)

lemma align_ge: "0 < a \<Longrightarrow> x \<le> align x a"
proof -
  assume a: "0 < a"
  have "x + a - 1 = (x + a - 1) div a * a + (x + a - 1) mod a" by simp
  moreover have "(x + a - 1) mod a < a" using a by simp
  ultimately show ?thesis unfolding align_def using a by linarith
qed

lemma alloc_chunks_loop_spec:
  "alloc_chunks_loop sz dend k p = (n, q) \<Longrightarrow>
     n \<le> k \<and> q = p + n * sz \<and> (p \<le> dend \<longrightarrow> q \<le> dend) \<and> (n < k \<longrightarrow> dend < q + sz)"
proof (induction k arbitrary: p n q)
  case (Suc k)
  show ?case
  proof (cases "p + sz \<le> dend")
    case True
    obtain n' q' where r: "alloc_chunks_loop sz dend k (p + sz) = (n', q')" by force
    with Suc.prems True have "n = Suc n'" "q = q'" by auto
    with Suc.IH [OF r] True show ?thesis by (auto simp: algebra_simps)
  next
    case False
    with Suc.prems show ?thesis by auto
  qed
qed auto

lemma move_reset_loop_frame:
  "a < base + i * sz \<Longrightarrow> move_reset_loop base sz i n nxt a = nxt a"
proof (induction n arbitrary: i nxt)
  case (Suc n)
  have "a < base + Suc i * sz" using Suc.prems by (simp add: algebra_simps)
  with Suc.IH [of "Suc i"] Suc.prems show ?case by simp
qed simp

lemma move_reset_loop_chain:
  assumes "0 < sz"
  shows "chain (move_reset_loop base sz i n nxt) (Some (base + i * sz)) (map (\<lambda>j. base + j * sz) [i..<i + Suc n])"
  using assms
proof (induction n arbitrary: i nxt)
  case 0
  then show ?case by simp
next
  case (Suc n)
  let ?nxt = "nxt(base + i * sz := Some (base + Suc i * sz))"
  have "move_reset_loop base sz (Suc i) n ?nxt (base + i * sz) = ?nxt (base + i * sz)"
    by (rule move_reset_loop_frame) (use Suc.prems in simp)
  then have "move_reset_loop base sz (Suc i) n ?nxt (base + i * sz) = Some (base + Suc i * sz)"
    by (simp only: fun_upd_same)
  moreover have "[i..<i + Suc (Suc n)] = i # [Suc i..<Suc i + Suc n]"
    by (simp add: upt_conv_Cons del: upt_Suc)
  ultimately show ?case using Suc.IH [OF Suc.prems, of "Suc i" ?nxt]
    by (simp only: move_reset_loop.simps list.map chain.simps)
qed

text \<open>The addresses of the nodes of the pool.\<close>

definition pool_nodes :: "'z basecmd_scheme \<Rightarrow> nat list" where
  "pool_nodes s =
     (case move_list s of None \<Rightarrow> []
      | Some base \<Rightarrow> map (\<lambda>j. base + j * unat (move_item_size s)) [0..<unat (move_count s)])"

lemma move_reset_pool:
  assumes "move_count s \<noteq> 0" "move_list s = Some base" "move_item_size s \<noteq> 0"
  shows "\<exists>s'. move_reset s = Ok () s' \<and> free_nodes s' (pool_nodes s') \<and> move_list s' = Some base \<and>
     move_count s' = move_count s \<and> move_item_size s' = move_item_size s"
proof -
  let ?sz = "unat (move_item_size s)" and ?n = "unat (move_count s)"
  have n: "0 < ?n" and sz: "0 < ?sz"
    using assms unat_eq_zero [of "move_count s"] unat_eq_zero [of "move_item_size s"] by auto
  have "distinct (map (\<lambda>j. base + j * ?sz) [0..<?n])"
    using sz by (simp add: distinct_map inj_on_def)
  moreover have "chain (move_reset_loop base ?sz 0 (?n - 1) (m_next s)) (Some base)
      (map (\<lambda>j. base + j * ?sz) [0..<?n])"
    using move_reset_loop_chain [OF sz, of base 0 "?n - 1" "m_next s"] n by simp
  ultimately show ?thesis using assms
    by (auto simp: move_reset_def free_nodes_def pool_nodes_def)
qed

lemma alloc_chunk_Ok:
  assumes "alloc_chunk sz s = Ok d s'"
  shows "d = alloc_end s \<and> d + sz \<le> dynmem_end s \<and>
    s' = s\<lparr>alloc_end := alloc_end s + align sz (ptr_size s),
           m_next := memset_next d sz (m_next s)\<rparr>"
  using assms by (auto simp: alloc_chunk_def Let_def sched_shutdown_def split: if_splits)

lemma move_queue_setup_Ok:
  assumes "move_queue_setup sz s = Ok mh s'"
  shows "mh = \<lparr>mq_first = None, mq_last = None\<rparr> \<and> sz \<le> 255 \<and> \<not> is_finalized s \<and>
     s' = s\<lparr>move_item_size := (if sz > unat (move_item_size s) then of_nat sz else move_item_size s)\<rparr> \<and>
     sz \<le> unat (move_item_size s') \<and> unat (move_item_size s) \<le> unat (move_item_size s')"
  using assms
  by (auto simp: move_queue_setup_def Let_def sched_shutdown_def unat_of_nat_small split: if_splits)

lemma move_finalize_Ok:
  assumes f: "move_finalize s = Ok () s'" and p: "0 < ptr_size s"
  shows "free_nodes s' (pool_nodes s') \<and> length (pool_nodes s') = unat (move_count s') \<and>
     0 < unat (move_count s') \<and> unat (move_count s') \<le> 1024 \<and>
     unat (move_item_size s) \<le> unat (move_item_size s') \<and> ptr_size s \<le> unat (move_item_size s') \<and>
     (\<forall>a\<in>set (pool_nodes s'). alloc_end s \<le> a \<and> a + unat (move_item_size s') \<le> dynmem_end s)"
proof -
  obtain mh s1 where q: "move_queue_setup (ptr_size s) s = Ok mh s1" and nf: "\<not> is_finalized s"
    and r1: "andthen (alloc_chunks (unat (move_item_size s1)) 1024 s1)
      (\<lambda>(data, avail) s. move_reset (s\<lparr>move_list := Some data, move_count := avail\<rparr>)) = Ok () s'"
    using f by (auto simp: move_finalize_def sched_shutdown_def andthen_Ok_iff split: if_splits)
  note s1 = move_queue_setup_Ok [OF q]
  let ?sz = "unat (move_item_size s1)"
  obtain n e where l: "alloc_chunks_loop ?sz (dynmem_end s1) 1024 (alloc_end s1) = (n, e)" by force
  note ls = alloc_chunks_loop_spec [OF l]
  obtain d s2 where c: "alloc_chunk (e - alloc_end s1) s1 = Ok d s2" and n0: "n \<noteq> 0"
    and r2: "move_reset (s2\<lparr>move_list := Some d, move_count := of_nat n\<rparr>) = Ok () s'"
    using r1 l by (auto simp: alloc_chunks_def sched_shutdown_def andthen_Ok_iff split: if_splits)
  note s2 = alloc_chunk_Ok [OF c]
  have un: "unat (of_nat n :: u16) = n" by (rule unat_of_nat_small) (use ls in simp)
  have "of_nat n \<noteq> (0 :: u16)" using un n0 by (metis unat_0)
  moreover have "move_item_size s2 \<noteq> 0" using s1 s2 p by auto
  ultimately obtain s3 where r: "move_reset (s2\<lparr>move_list := Some d, move_count := of_nat n\<rparr>) = Ok () s3"
    "free_nodes s3 (pool_nodes s3)" "move_list s3 = Some d" "move_count s3 = of_nat n"
    "move_item_size s3 = move_item_size s2"
    using move_reset_pool [of "s2\<lparr>move_list := Some d, move_count := of_nat n\<rparr>" d] by auto
  then have s3: "s3 = s'" using r2 by simp
  have i: "move_item_size s2 = move_item_size s1" "alloc_end s1 = alloc_end s" "dynmem_end s1 = dynmem_end s"
    using s1 s2 by auto
  have "d + j * ?sz + ?sz \<le> dynmem_end s" if "j < n" for j
  proof -
    have "Suc j * ?sz \<le> n * ?sz" using that by (intro mult_right_mono) auto
    then show ?thesis using s2 ls i by (simp add: algebra_simps)
  qed
  then show ?thesis
    using r un s1 s2 ls i n0 by (auto simp: s3 pool_nodes_def)
qed

section \<open>Object ids\<close>

definition heap_ok :: "'z basecmd_scheme \<Rightarrow> bool" where
  "heap_ok s \<longleftrightarrow> 0 < ptr_size s \<and>
     (\<forall>tab. oids s = Some tab \<longrightarrow> length tab = unat (oid_count s) \<and>
        (\<forall>e\<in>set tab. \<forall>d. oid_data e = Some d \<longrightarrow> d < alloc_end s))"

lemma oid_lookup_Ok:
  "oid_lookup arg type s = Ok d s' \<longleftrightarrow>
     s' = s \<and> (\<exists>tab. oids s = Some tab \<and> (ucast arg :: u8) < oid_count s \<and>
       unat (ucast arg :: u8) < length tab \<and>
       oid_type_of (tab ! unat (ucast arg :: u8)) = Some type \<and>
       oid_data (tab ! unat (ucast arg :: u8)) = Some d)"
  by (auto simp: oid_lookup_def Let_def sched_shutdown_def not_le split: option.splits)

lemma oid_alloc_Ok:
  assumes "oid_alloc arg type sz s = Ok d s'"
  shows "\<exists>tab. oids s = Some tab \<and> (ucast arg :: u8) < oid_count s \<and>
     unat (ucast arg :: u8) < length tab \<and> oid_type_of (tab ! unat (ucast arg :: u8)) = None \<and>
     \<not> is_finalized s \<and> d = alloc_end s \<and> d + sz \<le> dynmem_end s \<and>
     s' = s\<lparr>alloc_end := alloc_end s + align sz (ptr_size s), m_next := memset_next d sz (m_next s),
       oids := Some (tab[unat (ucast arg :: u8) := \<lparr>oid_type_of = Some type, oid_data = Some d\<rparr>])\<rparr>"
  using assms
  by (auto simp: oid_alloc_def Let_def sched_shutdown_def not_le andthen_Ok_iff
      dest!: alloc_chunk_Ok split: option.splits if_splits)

lemma oid_alloc_fresh_aux:
  assumes h: "heap_ok s" and sz: "0 < sz" and a: "oid_alloc arg type sz s = Ok d s'"
  shows "heap_ok s' \<and> oid_lookup arg type s' = Ok d s' \<and>
     (\<forall>arg2 type2 d2. oid_lookup arg2 type2 s = Ok d2 s \<longrightarrow>
        d2 \<noteq> d \<and> oid_lookup arg2 type2 s' = Ok d2 s')"
proof -
  let ?i = "unat (ucast arg :: u8)"
  from oid_alloc_Ok [OF a] obtain tab where tab: "oids s = Some tab" "(ucast arg :: u8) < oid_count s"
    "?i < length tab" "oid_type_of (tab ! ?i) = None" "d = alloc_end s"
    and s': "s' = s\<lparr>alloc_end := alloc_end s + align sz (ptr_size s), m_next := memset_next d sz (m_next s),
       oids := Some (tab[?i := \<lparr>oid_type_of = Some type, oid_data = Some d\<rparr>])\<rparr>" by blast
  have old: "\<And>e d. e \<in> set tab \<Longrightarrow> oid_data e = Some d \<Longrightarrow> d < alloc_end s" and p: "0 < ptr_size s"
    and len: "length tab = unat (oid_count s)"
    using h tab(1) by (auto simp: heap_ok_def)
  have g: "alloc_end s < alloc_end s + align sz (ptr_size s)" using align_ge [OF p, of sz] sz by linarith
  have "d' < alloc_end s + align sz (ptr_size s)"
    if "e \<in> set (tab[?i := \<lparr>oid_type_of = Some type, oid_data = Some d\<rparr>])" "oid_data e = Some d'" for e d'
  proof -
    from that(1) have "e \<in> set tab \<or> e = \<lparr>oid_type_of = Some type, oid_data = Some d\<rparr>"
      by (auto dest!: set_update_subset_insert [THEN subsetD])
    then have "d' < alloc_end s \<or> d' = d" using old [of e d'] that(2) by auto
    then show ?thesis using g tab(5) by linarith
  qed
  then have "heap_ok s'" using p len by (auto simp: heap_ok_def s')
  moreover have "oid_lookup arg type s' = Ok d s'"
    using tab by (auto simp: oid_lookup_Ok s')
  moreover have "d2 \<noteq> d \<and> oid_lookup arg2 type2 s' = Ok d2 s'" if "oid_lookup arg2 type2 s = Ok d2 s" for arg2 type2 d2
  proof -
    let ?j = "unat (ucast arg2 :: u8)"
    from that tab(1) have j: "(ucast arg2 :: u8) < oid_count s" "?j < length tab"
      "oid_type_of (tab ! ?j) = Some type2" "oid_data (tab ! ?j) = Some d2" by (auto simp: oid_lookup_Ok)
    have "?j \<noteq> ?i" using j(3) tab(4) by auto
    with j old [of "tab ! ?j" d2] tab(5) show ?thesis by (auto simp: oid_lookup_Ok s')
  qed
  ultimately show ?thesis by blast
qed

section \<open>Statistics\<close>

lemma saturating_add:
  "unat (if a + b < a then 0xffffffff else a + b :: u32) = min (2 ^ 32 - 1) (unat a + unat b)"
proof (cases "unat a + unat b < 2 ^ 32")
  case True
  then have "unat (a + b) = unat a + unat b" by (rule unat_add_u32)
  with True show ?thesis by (auto simp: word_less_nat_alt min_def)
next
  case False
  then have "unat (a + b) = unat a + unat b - 2 ^ 32" using unat_plus_if' [of a b] by simp
  moreover have "unat b < 2 ^ 32" using unsigned_less [of b] by simp
  ultimately show ?thesis using False by (auto simp: word_less_nat_alt min_def)
qed

lemma unat_mult_u32: "unat x * unat (y :: u32) < 2 ^ 32 \<Longrightarrow> unat (x * y) = unat x * unat y"
  using unat_mult_lem [of x y] by simp

lemma div_round_up_256:
  assumes "unat n + 255 < 2 ^ 32"
  shows "unat (div_round_up n 256) = (unat n + 255) div 256"
proof -
  have "n + 256 - 1 = n + 255" by simp
  moreover have "unat (n + 255) = unat n + 255" using assms unat_add_u32 [of n 255] by simp
  ultimately have "unat (n + 256 - 1) = unat n + 255" by (simp only:)
  then show ?thesis unfolding div_round_up_def unat_div by simp
qed

text \<open>The exact value the code approximates from above: the square in units of the base.\<close>

definition sumsq_increment :: "nat \<Rightarrow> nat" where
  "sumsq_increment d = (if d \<le> 0xffff then (d * d + 255) div 256 else (d + 255) div 256 * d)"

lemma sumsq_increment_ge: "d * d \<le> 256 * sumsq_increment d"
proof (cases "d \<le> 0xffff")
  case True
  have "d * d \<le> 256 * ((d * d + 255) div 256)" by linarith
  with True show ?thesis by (simp add: sumsq_increment_def)
next
  case False
  have "d \<le> 256 * ((d + 255) div 256)" by linarith
  then have "d * d \<le> 256 * ((d + 255) div 256) * d" by (rule mult_right_mono) simp
  with False show ?thesis by (simp add: sumsq_increment_def mult.assoc)
qed

lemma next_sumsq_unat:
  "unat (next_sumsq q diff) = min (2 ^ 32 - 1) (unat q + sumsq_increment (unat diff))"
proof -
  define d where "d = unat diff"
  have dl: "d < 2 ^ 32" unfolding d_def using unsigned_less [of diff] by simp
  consider "d \<le> 0xffff" | "0xffff < d" "d \<le> 0xfffff" | "0xfffff < d" by linarith
  then show ?thesis
  proof cases
    case 1
    then have dd: "d * d \<le> 0xffff * 0xffff" by (intro mult_le_mono)
    then have u: "unat (diff * diff) = d * d" unfolding d_def by (intro unat_mult_u32) simp
    have "unat (div_round_up (diff * diff) 256) = (d * d + 255) div 256"
      using div_round_up_256 [of "diff * diff"] dd by (simp add: u)
    moreover have "diff \<le> 0xffff" using 1 by (simp add: d_def word_le_nat_alt)
    ultimately show ?thesis
      using 1 saturating_add [of q "div_round_up (diff * diff) 256"]
      by (simp add: next_sumsq_def Let_def sumsq_increment_def d_def [symmetric])
  next
    case 2
    have r: "unat (div_round_up diff 256) = (d + 255) div 256"
      using div_round_up_256 [of diff] 2 by (simp add: d_def [symmetric])
    have "(d + 255) div 256 * d \<le> 4096 * 0xfffff" using 2 by (intro mult_le_mono) auto
    then have "unat (div_round_up diff 256 * diff) = (d + 255) div 256 * d"
      using unat_mult_u32 [of "div_round_up diff 256" diff] by (simp add: r d_def [symmetric])
    moreover have "\<not> diff \<le> 0xffff" "diff \<le> 0xfffff" using 2 by (simp_all add: d_def word_le_nat_alt)
    ultimately show ?thesis
      using 2 saturating_add [of q "div_round_up diff 256 * diff"]
      by (simp add: next_sumsq_def Let_def sumsq_increment_def d_def [symmetric])
  next
    case 3
    then have "4096 * 0x100000 \<le> (d + 255) div 256 * d" by (intro mult_le_mono) auto
    moreover have "\<not> diff \<le> 0xffff" "\<not> diff \<le> 0xfffff" using 3 by (simp_all add: d_def word_le_nat_alt)
    moreover have "\<not> (0xffffffff :: u32) < q" using unat_u32_less [of q] by (simp add: word_less_nat_alt)
    ultimately show ?thesis using 3
      by (simp add: next_sumsq_def Let_def sumsq_increment_def d_def [symmetric])
  qed
qed

section \<open>Uptime\<close>

text \<open>
  \<open>sent_at T s\<close>: the statistics were last sent \<open>T\<close> ticks after the clock started, and the
  state records this time as the pair of the clock then and the number of wraps before it.
\<close>

definition sent_at :: "nat \<Rightarrow> 'z basecmd_scheme \<Rightarrow> bool" where
  "sent_at T s \<longleftrightarrow> stats_send_time s = of_nat T \<and> stats_send_time_high s = of_nat (T div 2 ^ 32)"

lemma unat_of_nat_u32: "unat (of_nat n :: u32) = n mod 2 ^ 32"
  by (simp add: unat_of_nat)

lemma wrap_count:
  assumes "T0 \<le> T" "T < T0 + 2 ^ 32"
  shows "T div 2 ^ 32 = T0 div 2 ^ 32 + (if T mod 2 ^ 32 < T0 mod 2 ^ 32 then 1 else 0 :: nat)"
proof -
  let ?B = "2 ^ 32 :: nat"
  define q where "q = T0 div ?B"
  define r where "r = T0 mod ?B"
  have T0: "T0 = q * ?B + r" "r < ?B" unfolding q_def r_def by simp_all
  show ?thesis
  proof (cases "T < Suc q * ?B")
    case True
    then have "T div ?B = q" using assms T0 by (intro div_nat_eqI) (simp_all add: mult.commute)
    moreover from this have "T mod ?B = T - q * ?B" by (simp add: minus_div_mult_eq_mod [symmetric])
    ultimately show ?thesis using assms T0 unfolding q_def [symmetric] r_def [symmetric] by auto
  next
    case False
    then have d: "T div ?B = Suc q" using assms T0 by (intro div_nat_eqI) (simp_all add: mult.commute)
    then have "T mod ?B = T - Suc q * ?B" by (simp add: minus_div_mult_eq_mod [symmetric])
    then show ?thesis using assms T0 d False unfolding q_def [symmetric] r_def [symmetric] by auto
  qed
qed

lemma uptime_high_exact:
  assumes "sent_at T0 s" "T0 \<le> T" "T < T0 + 2 ^ 32"
  shows "uptime_high (of_nat T) s = of_nat (T div 2 ^ 32)"
  using assms(1) wrap_count [OF assms(2,3)]
  by (simp add: uptime_high_def sent_at_def bool_u32_def word_less_nat_alt unat_of_nat_u32)

lemma stats_update_sent_at:
  assumes "sent_at T0 s" "T0 \<le> T" "T < T0 + 2 ^ 32"
  shows "sent_at T (stats_update start (of_nat T) s) \<or> sent_at T0 (stats_update start (of_nat T) s)"
  using assms(1) wrap_count [OF assms(2,3)]
  by (auto simp: stats_update_def Let_def sent_at_def emit_def word_less_nat_alt unat_of_nat_u32)

section \<open>Identification\<close>

lemma command_identify_data:
  assumes "length (identify_data s) + 255 < 2 ^ 32"
    and "out = take (unat (ucast (args ! 1) :: u8)) (drop (unat (args ! 0)) (identify_data s))"
  shows "command_identify args s =
     Some (emit (Sendf ''identify_response offset=%u data=%.*s'' [args ! 0, of_nat (length out)] out) s)"
proof -
  define D where "D = identify_data s"
  define c where "c = (ucast (args ! 1) :: u8)"
  define f where "f = args ! 0"
  define n where "n = (if f \<ge> of_nat (length D) then 0
     else if f + ucast c > of_nat (length D) then ucast (of_nat (length D) - f) else c)"
  note fold = D_def [symmetric] c_def [symmetric] f_def [symmetric]
  have il: "unat (of_nat (length D) :: u32) = length D" using assms(1) by (simp add: D_def unat_of_nat)
  have c8: "unat c < 256" using unsigned_less [of c] by simp
  have uc: "unat (ucast c :: u32) = unat c"
    using c8 by (simp add: unsigned_ucast_eq take_bit_nat_eq_self)
  have fl: "f \<ge> of_nat (length D) \<longleftrightarrow> length D \<le> unat f" by (simp add: word_le_nat_alt il)
  have un: "unat n = min (unat c) (length D - unat f)"
  proof (cases "length D \<le> unat f")
    case True
    then show ?thesis by (simp add: n_def fl)
  next
    case False
    have s: "unat (f + ucast c) = unat f + unat c"
      using unat_add_u32 [of f "ucast c"] uc False c8 assms(1) by (simp add: D_def)
    have g: "f + ucast c > of_nat (length D) \<longleftrightarrow> length D < unat f + unat c"
      by (simp add: word_less_nat_alt il s)
    have u: "unat (of_nat (length D) - f) = length D - unat f"
      using unat_diff_u32 [of "of_nat (length D)" f] il False by simp
    have "length D < unat f + unat c \<Longrightarrow> unat (ucast (of_nat (length D) - f :: u32) :: u8) = length D - unat f"
      using c8 u by (simp add: unsigned_ucast_eq take_bit_nat_eq_self)
    then show ?thesis using False g by (auto simp: n_def fl)
  qed
  have out: "out = take (unat n) (drop (unat f) D)" "length out = unat n"
    using assms(2) [unfolded fold] by (simp_all add: un min_def)
  have "\<not> (n \<noteq> 0 \<and> length D < unat f + unat n)"
  proof
    assume a: "n \<noteq> 0 \<and> length D < unat f + unat n"
    then have "unat n \<noteq> 0" by (simp add: unat_eq_zero)
    with a un show False by linarith
  qed
  moreover have "of_nat (length out) = (ucast n :: u32)"
    unfolding out(2) by simp
  ultimately show ?thesis
    using out(1) unfolding command_identify_def Let_def fold n_def [symmetric] by simp
qed

section \<open>Properties\<close>

lemma alloc_chunks_loop_numeral:
  "alloc_chunks_loop sz dend (numeral k) p =
     (if p + sz \<le> dend
      then let (n, q) = alloc_chunks_loop sz dend (pred_numeral k) (p + sz) in (Suc n, q)
      else (0, p))"
  by (simp add: numeral_eq_Suc)

text \<open>The machine of the examples: 20 KB of memory after the static timers.\<close>

definition demo_basecmd :: basecmd where
  "demo_basecmd = sched.extend demo_sched
     \<lparr>dynmem_start = 1, dynmem_end = 20481, ptr_size = 4, identify_data = [120, 156, 171],
      alloc_end = 4, m_next = (\<lambda>a. None), move_free_list = None, move_list = None, move_count = 0,
      move_item_size = 0, oids = Some [\<lparr>oid_type_of = None, oid_data = None\<rparr>], oid_count = 1,
      config_crc = 0, stats_send_time = 4294967000, stats_send_time_high = 1, stats_count = 0,
      stats_sum = 0, stats_sumsq = 0\<rparr>"

lemmas demo_basecmd_simps =
  demo_basecmd_def sched.defs demo_sched_def sched_boot_def

text \<open>
  C34: moves leave a move queue in the order in which they were pushed, and pushing onto one
  queue leaves every queue that shares no node with it as it was.
\<close>

theorem move_queue_fifo:
  assumes "mq s mh xs" "distinct (xs @ ms)"
  shows "\<exists>mh1 s1 mh2. push_all move_queue_push ms mh s = Some (mh1, s1) \<and>
     pop_many move_queue_pop (length (xs @ ms)) mh1 s1 = Some (xs @ ms, mh2) \<and>
     move_queue_empty mh2 \<and>
     (\<forall>r ys. mq s r ys \<longrightarrow> set ys \<inter> set (xs @ ms) = {} \<longrightarrow> mq s1 r ys)"
  using mvq.fifo [OF assms] by (auto simp: move_queue_empty_def)

theorem move_queue_fifo_witness:
  "\<exists>mh1 s1 mh2. push_all move_queue_push [40, 16] \<lparr>mq_first = None, mq_last = None\<rparr> demo_basecmd = Some (mh1, s1) \<and>
     pop_many move_queue_pop 2 mh1 s1 = Some ([40, 16], mh2)"
  using move_queue_fifo [of demo_basecmd "\<lparr>mq_first = None, mq_last = None\<rparr>" "[]" "[40, 16]"]
  by (auto simp: numeral_2_eq_2)

text \<open>
  When finalizing the configuration succeeds, the free list holds exactly the reported number
  of moves, all different, each large enough for every queue set up before and inside the memory
  that was still free, so that no move overlaps an object or another move.
\<close>

theorem move_finalize_pool:
  assumes "move_finalize s = Ok () s'" "0 < ptr_size s"
  shows "free_nodes s' (pool_nodes s') \<and> length (pool_nodes s') = unat (move_count s') \<and>
     0 < unat (move_count s') \<and> unat (move_count s') \<le> 1024 \<and>
     unat (move_item_size s) \<le> unat (move_item_size s') \<and> ptr_size s \<le> unat (move_item_size s') \<and>
     (\<forall>a\<in>set (pool_nodes s'). alloc_end s \<le> a \<and> a + unat (move_item_size s') \<le> dynmem_end s)"
  by (rule move_finalize_Ok) (fact assms)+

theorem move_finalize_pool_witness:
  "\<exists>s'. move_finalize (demo_basecmd\<lparr>dynmem_end := 30\<rparr>) = Ok () s' \<and>
     free_nodes s' (pool_nodes s') \<and> move_count s' = 6"
proof -
  let ?s = "demo_basecmd\<lparr>dynmem_end := 30\<rparr>"
  have "\<exists>s'. move_finalize ?s = Ok () s' \<and> move_count s' = 6"
    by (simp add: move_finalize_def move_queue_setup_def is_finalized_def alloc_chunks_def Let_def
        demo_basecmd_simps alloc_chunk_def move_reset_def alloc_chunks_loop_numeral)
  then obtain s' where s': "move_finalize ?s = Ok () s'" "move_count s' = 6" by blast
  with move_finalize_pool [OF s'(1)] show ?thesis by (auto simp: demo_basecmd_simps)
qed



text \<open>
  The sum of squares of the load statistics is exact up to rounding each term up, and
  saturates instead of wrapping: it is never less than the true sum unless it is at its maximum.
\<close>

theorem stats_sumsq_saturates:
  "unat (next_sumsq q diff) = min (2 ^ 32 - 1) (unat q + sumsq_increment (unat diff)) \<and>
   unat diff * unat diff \<le> 256 * sumsq_increment (unat diff)"
  by (simp only: next_sumsq_unat sumsq_increment_ge simp_thms)

text \<open>
  As long as the statistics are sent at least once per wrap of the 32-bit clock, the uptime
  reported to the host is the exact 64-bit tick count, and an update of the statistics keeps
  this so.
\<close>

theorem uptime_exact:
  assumes "sent_at T0 s" "T0 \<le> T" "T < T0 + 2 ^ 32"
  shows "uptime_high (of_nat T) s = of_nat (T div 2 ^ 32) \<and>
     (sent_at T (stats_update start (of_nat T) s) \<or> sent_at T0 (stats_update start (of_nat T) s))"
  using uptime_high_exact [OF assms] stats_update_sent_at [OF assms] by simp

theorem uptime_exact_witness:
  "uptime_high (of_nat 8589934600) demo_basecmd = 2"
  using uptime_exact [of 8589934296 demo_basecmd 8589934600 0]
  by (simp add: sent_at_def demo_basecmd_simps)

text \<open>
  The answer to an \<^verbatim>\<open>identify\<close> request is the requested part of the dictionary, cut off at its
  end, for every offset and count; nothing outside the dictionary is read.
\<close>

theorem identify_in_bounds:
  assumes "length (identify_data s) + 255 < 2 ^ 32"
    and "out = take (unat (ucast (args ! 1) :: u8)) (drop (unat (args ! 0)) (identify_data s))"
  shows "command_identify args s =
     Some (emit (Sendf ''identify_response offset=%u data=%.*s'' [args ! 0, of_nat (length out)] out) s)"
  by (rule command_identify_data) (fact assms)+

theorem identify_in_bounds_witness:
  "command_identify [1, 40] demo_basecmd =
     Some (emit (Sendf ''identify_response offset=%u data=%.*s'' [1, 2] [156, 171]) demo_basecmd)"
proof -
  have "[156, 171] = take (unat (ucast ([1, 40] ! 1 :: u32) :: u8)) (drop (unat ([1, 40] ! 0 :: u32)) (identify_data demo_basecmd))"
    and "length (identify_data demo_basecmd) = 3" by (simp_all add: demo_basecmd_simps)
  then show ?thesis using identify_in_bounds [of demo_basecmd "[156, 171]" "[1, 40]"] by simp
qed

end
