(* ===== verification/Command_Props.thy ===== *)
theory Command_Props
  imports Command Basecmd_Props
begin

text \<open>
  Properties of \<^verbatim>\<open>src/src/command.c\<close>: parsing a valid block never reads outside it, a block runs
  exactly the commands it was built from, blocks are accepted in sequence order, and outgoing
  messages stay inside the space they are given and are valid blocks.
\<close>

section \<open>Parsing stays inside the block\<close>

fun args_needed :: "param_type list \<Rightarrow> nat" where
  "args_needed [] = 0"
| "args_needed (t # ts) = (if t = PT_buffer then 2 else 1) + args_needed ts"

text \<open>What a handler may assume of its arguments: every buffer lies before \<open>maxend\<close>.\<close>

fun buffers_ok :: "nat \<Rightarrow> param_type list \<Rightarrow> u32 list \<Rightarrow> bool" where
  "buffers_ok maxend [] args \<longleftrightarrow> args = []"
| "buffers_ok maxend (t # ts) args \<longleftrightarrow>
     (if t = PT_buffer
      then (case args of
              len # ptr # as \<Rightarrow> command_decode_ptr ptr + unat len \<le> maxend \<and> buffers_ok maxend ts as
            | _ \<Rightarrow> False)
      else (case args of v # as \<Rightarrow> is_int_type t \<and> buffers_ok maxend ts as | [] \<Rightarrow> False))"

lemma parsef_loop_no_fault:
  assumes "maxend < k" "k < length buf" "\<not> bit (buf ! k) 7"
    and "length args + args_needed ts \<le> n"
  shows "parsef_loop buf maxend n ts p args \<noteq> Parse_fault"
  using assms(4)
proof (induction ts arbitrary: p args)
  case (Cons t ts)
  show ?case
  proof (cases "p \<le> maxend \<and> is_int_type t")
    case True
    then have t: "t \<noteq> PT_buffer" by (auto simp: is_int_type_def)
    from True assms(1) have "p \<le> k" by simp
    from parse_int_stops [OF this assms(2,3)] obtain v q where v: "parse_int buf p = Some (v, q)" by blast
    have "parsef_loop buf maxend n ts q (args @ [v]) \<noteq> Parse_fault"
      by (rule Cons.IH) (use Cons.prems t in simp)
    with v True t Cons.prems show ?thesis by simp
  next
    case False
    with Cons.IH Cons.prems assms(1,2) show ?thesis by (auto simp: Let_def)
  qed
qed simp

lemma parsef_loop_buffers:
  assumes "length buf < 2 ^ 32"
  shows "parsef_loop buf maxend n ts p args = Parsed q args' \<Longrightarrow>
     \<exists>as. args' = args @ as \<and> buffers_ok maxend ts as"
proof (induction ts arbitrary: p args)
  case Nil
  then show ?case by (auto split: if_splits)
next
  case (Cons t ts)
  show ?case
  proof (cases "is_int_type t")
    case True
    then have t: "t \<noteq> PT_buffer" by (auto simp: is_int_type_def)
    from True Cons.prems obtain v r where "parsef_loop buf maxend n ts r (args @ [v]) = Parsed q args'"
      by (auto split: if_splits option.splits)
    from Cons.IH [OF this] obtain as where "args' = args @ v # as" "buffers_ok maxend ts as" by auto
    with True t show ?thesis by (intro exI [of _ "v # as"]) simp
  next
    case False
    with Cons.prems have t: "t = PT_buffer" and p: "p < length buf"
      and r: "parsef_loop buf maxend n ts (Suc p + unat (buf ! p))
          (args @ [ucast (buf ! p), command_encode_ptr (Suc p)]) = Parsed q args'"
      by (auto simp: Let_def split: if_splits)
    from Cons.IH [OF r] obtain as where a: "args' = args @ ucast (buf ! p) # command_encode_ptr (Suc p) # as"
      "buffers_ok maxend ts as" by auto
    have "Suc p + unat (buf ! p) \<le> maxend" using parsef_loop_mono [OF r] by linarith
    moreover have "unat (of_nat (Suc p) :: u32) = Suc p"
      by (rule unat_of_nat_small) (use p assms in simp)
    moreover have "unat (ucast (buf ! p) :: u32) = unat (buf ! p)"
      by (rule unat_ucast_u8_u32)
    ultimately show ?thesis
      using a t by (intro exI [of _ "ucast (buf ! p) # command_encode_ptr (Suc p) # as"])
        (simp add: command_decode_ptr_def command_encode_ptr_def)
  qed
qed

lemma parse_msgid_in_bounds:
  assumes "Suc p < length buf"
  shows "\<exists>m q. command_parse_msgid buf p = Some (m, q)"
  using assms by (auto simp: command_parse_msgid_def Let_def)

lemma dispatch_loop_no_fault:
  assumes k: "msgend < k" "k < length buf" "\<not> bit (buf ! k) 7" "length buf < 2 ^ 32"
    and idx: "\<forall>cp\<in>set index. args_needed (cp_param_types cp) \<le> cp_num_args cp"
    and h: "\<forall>cp\<in>set index. \<forall>args s. buffers_ok msgend (cp_param_types cp) args \<longrightarrow>
      no_fault (cp_func cp args buf s)"
  shows "no_fault (command_dispatch_loop index buf msgend p s)"
proof (induction "msgend - p" arbitrary: p s rule: less_induct)
  case less
  show ?case
  proof (cases "p < msgend")
    case False
    then show ?thesis by (simp add: command_dispatch_loop.simps [of index buf msgend p])
  next
    case True
    with k parse_msgid_in_bounds [of p buf] obtain m q where m: "command_parse_msgid buf p = Some (m, q)"
      by auto
    note q = command_parse_msgid_bounds [OF m]
    show ?thesis
    proof (cases "m = 0 \<or> length index \<le> unat m")
      case True
      with m \<open>p < msgend\<close> show ?thesis
        by (auto simp: command_dispatch_loop.simps [of index buf msgend p] command_lookup_parser_def sched_shutdown_def)
    next
      case False
      define cp where "cp = index ! unat m"
      have l: "command_lookup_parser index m s = Ok cp s" using False by (simp add: command_lookup_parser_def cp_def)
      have cp: "cp \<in> set index" using False by (simp add: cp_def)
      have "parsef_loop buf msgend (cp_num_args cp) (cp_param_types cp) q [] \<noteq> Parse_fault"
        using k idx cp by (intro parsef_loop_no_fault) auto
      moreover have "no_fault (command_dispatch_loop index buf msgend q2 s2)"
        "no_fault (cp_func cp args buf s)"
        if "parsef_loop buf msgend (cp_num_args cp) (cp_param_types cp) q [] = Parsed q2 args" for q2 args s2
      proof -
        show "no_fault (command_dispatch_loop index buf msgend q2 s2)"
          using parsef_loop_mono [OF that] q \<open>p < msgend\<close> by (intro less) linarith
        show "no_fault (cp_func cp args buf s)"
          using parsef_loop_buffers [OF k(4) that] h cp by auto
      qed
      ultimately show ?thesis using m l \<open>p < msgend\<close>
        by (auto simp: command_dispatch_loop.simps [of index buf msgend p] command_parsef_def sched_shutdown_def
            split: parse_result.split intro!: no_fault_andthen)
    qed
  qed
qed

section \<open>Dispatching what was encoded\<close>

text \<open>A command with integer arguments as the host writes it into a block.\<close>

definition cmd_bytes :: "u16 \<times> u32 list \<Rightarrow> u8 list" where
  "cmd_bytes c = encode_msgid (fst c) @ vlq_bytes (snd c)"

definition cmd_ok :: "('z sched_scheme) command_parser list \<Rightarrow> u16 \<times> u32 list \<Rightarrow> bool" where
  "cmd_ok index c \<longleftrightarrow> fst c \<noteq> 0 \<and> fst c < 2 ^ 14 \<and> unat (fst c) < length index \<and>
     list_all is_int_type (cp_param_types (index ! unat (fst c))) \<and>
     length (cp_param_types (index ! unat (fst c))) = length (snd c) \<and>
     length (snd c) \<le> cp_num_args (index ! unat (fst c))"

text \<open>What the protocol promises: the handlers run in order on the arguments sent.\<close>

fun run_commands ::
  "('z sched_scheme) command_parser list \<Rightarrow> u8 list \<Rightarrow> (u16 \<times> u32 list) list \<Rightarrow> 'z sched_scheme \<Rightarrow>
     (unit, 'z sched_scheme) outcome"
where
  "run_commands index buf [] s = Ok () s"
| "run_commands index buf ((m, vs) # cs) s =
     (let cp = index ! unat m in
      if sched_is_shutdown s \<and> cp_flags cp AND HF_IN_SHUTDOWN = 0
      then run_commands index buf cs (sched_report_shutdown s)
      else andthen (cp_func cp vs buf s) (\<lambda>_ s. run_commands index buf cs s))"

lemma parsef_loop_ints:
  assumes "list_all is_int_type ts" "length ts = length vs" "length args + length vs \<le> n"
    and "drop p buf = vlq_bytes vs @ rest" "p + length (vlq_bytes vs) \<le> maxend"
  shows "parsef_loop buf maxend n ts p args = Parsed (p + length (vlq_bytes vs)) (args @ vs)"
  using assms
proof (induction ts arbitrary: vs p args)
  case Nil
  then show ?case by simp
next
  case (Cons t ts)
  then obtain v ws where vs: "vs = v # ws" by (cases vs) auto
  with Cons.prems have d: "drop p buf = encode_int v @ (vlq_bytes ws @ rest)" by simp
  have "parsef_loop buf maxend n ts (p + length (encode_int v)) (args @ [v]) =
      Parsed (p + length (encode_int v) + length (vlq_bytes ws)) ((args @ [v]) @ ws)"
    by (rule Cons.IH) (use Cons.prems vs drop_appendD [OF d] in simp_all)
  then show ?case using Cons.prems vs encode_int_parse [OF d] by simp
qed

lemma dispatch_loop_runs:
  assumes "list_all (cmd_ok index) cs"
    and "drop p buf = concat (map cmd_bytes cs) @ rest" "p + length (concat (map cmd_bytes cs)) = msgend"
  shows "command_dispatch_loop index buf msgend p s = run_commands index buf cs s"
  using assms
proof (induction cs arbitrary: p s)
  case Nil
  then show ?case by (simp add: command_dispatch_loop.simps [of index buf msgend msgend])
next
  case (Cons c cs)
  obtain m vs where c: "c = (m, vs)" by force
  let ?e = "encode_msgid m" and ?r = "concat (map cmd_bytes cs)"
  from Cons.prems c have ok: "cmd_ok index (m, vs)" and okcs: "list_all (cmd_ok index) cs" by auto
  from Cons.prems(2) c have d: "drop p buf = ?e @ (vlq_bytes vs @ ?r @ rest)"
    by (simp add: cmd_bytes_def [of "(m, vs)"])
  have e: "command_parse_msgid buf p = Some (m, p + length ?e)"
    using encode_msgid_parse [OF _ d] ok by (simp add: cmd_ok_def)
  have d2: "drop (p + length ?e) buf = vlq_bytes vs @ (?r @ rest)" using drop_appendD [OF d] by simp
  have "0 < length ?e" by (simp add: encode_msgid_def)
  moreover have "p + (length ?e + (length (vlq_bytes vs) + length ?r)) = msgend"
    using Cons.prems(3) c by (simp add: cmd_bytes_def [of "(m, vs)"])
  ultimately have "p < msgend" by linarith
  define cp where "cp = index ! unat m"
  have l: "command_lookup_parser index m s = Ok cp s"
    using ok by (simp add: command_lookup_parser_def cmd_ok_def cp_def)
  define p2 where "p2 = p + length ?e + length (vlq_bytes vs)"
  have "command_parsef buf (p + length ?e) msgend cp = Parsed p2 vs"
    using parsef_loop_ints [OF _ _ _ d2, of "cp_param_types cp" "[]" "cp_num_args cp" msgend] ok Cons.prems(3) c
    by (simp add: command_parsef_def cmd_ok_def cp_def p2_def cmd_bytes_def [of "(m, vs)"])
  moreover have "command_dispatch_loop index buf msgend p2 = run_commands index buf cs"
    by (rule ext, rule Cons.IH [OF okcs])
      (use drop_appendD [OF d2] Cons.prems(3) c in \<open>simp_all add: p2_def cmd_bytes_def [of "(m, vs)"]\<close>)
  ultimately show ?case
    using e l \<open>p < msgend\<close> c
    by (simp add: command_dispatch_loop.simps [of index buf msgend p] cp_def [symmetric] Let_def)
qed

section \<open>Finding blocks\<close>

lemma andthen_nak: "find_block_nak cons pop s = Ok (r, n) s' \<Longrightarrow> r = - 1 \<and> n = pop"
  by (auto simp: find_block_nak_def andthen_Ok_iff)

lemma find_block_need_sync_pop:
  assumes "find_block_need_sync cons buf buf_len s = Ok (r, n) s'" "0 < buf_len"
  shows "r = - 1 \<and> 0 < n \<and> n \<le> buf_len"
  using assms
  by (auto simp: find_block_need_sync_def Let_def dest!: andthen_nak dest: memchr_Some
      split: option.splits if_splits prod.splits)

lemma find_block_error_pop:
  assumes "find_block_error cons buf buf_len s = Ok (r, n) s'" "0 < buf_len"
  shows "r = - 1 \<and> 0 < n \<and> n \<le> buf_len"
  using assms by (auto simp: find_block_error_def dest!: find_block_need_sync_pop split: if_splits)

text \<open>The cases of \<^verbatim>\<open>command_find_block\<close> when it is not looking for a sync byte.\<close>

lemma command_find_block_cases:
  assumes "sync_state s AND CF_NEED_SYNC = 0" "buf_len \<le> length buf"
  shows "command_find_block cons buf buf_len s =
     (if \<exists>n\<le>buf_len. valid_block (take n buf)
      then let n = unat (buf ! 0); s = s\<lparr>sync_state := sync_state s AND NOT CF_NEED_VALID\<rparr> in
        if buf ! 1 = next_sequence s
        then Ok (1, n) (s\<lparr>next_sequence := ((buf ! 1 + 1) AND MESSAGE_SEQ_MASK) OR MESSAGE_DEST\<rparr>)
        else find_block_nak cons n s
      else if buf_len < MESSAGE_MIN \<or>
         (MESSAGE_MIN \<le> unat (buf ! 0) \<and> unat (buf ! 0) \<le> MESSAGE_MAX \<and>
          buf ! 1 AND NOT MESSAGE_SEQ_MASK = MESSAGE_DEST \<and> buf_len < unat (buf ! 0))
      then Ok (0, 0) s
      else find_block_error cons buf buf_len s)"
proof -
  define m where "m = unat (buf ! 0)"
  have u: "uint (buf ! 0) = int m" by (simp add: m_def)
  have v: "(\<exists>n\<le>buf_len. valid_block (take n buf)) \<longleftrightarrow> m \<le> buf_len \<and> valid_block (take m buf)"
  proof
    assume "\<exists>n\<le>buf_len. valid_block (take n buf)"
    then obtain n where n: "n \<le> buf_len" "valid_block (take n buf)" by blast
    then have "5 \<le> n" by (simp add: valid_block_def)
    with n assms(2) valid_block_take [of n buf] have "m = n" by (simp add: m_def)
    with n show "m \<le> buf_len \<and> valid_block (take m buf)" by simp
  qed blast
  show ?thesis
  proof (cases "5 \<le> m \<and> m \<le> buf_len")
    case True
    with assms valid_block_take [of m buf] show ?thesis
      unfolding v command_find_block_def Let_def m_def [symmetric] by auto
  next
    case False
    with assms show ?thesis
      unfolding v command_find_block_def Let_def m_def [symmetric] by (auto simp: valid_block_def)
  qed
qed

lemma command_find_block_accepts:
  assumes "sync_state s AND CF_NEED_SYNC = 0" "buf_len \<le> length buf"
  shows "(\<exists>s'. command_find_block cons buf buf_len s = Ok (1, n) s') \<longleftrightarrow>
     n \<le> buf_len \<and> valid_block (take n buf) \<and> buf ! 1 = next_sequence s"
proof -
  have v: "n = unat (buf ! 0)" if "n \<le> buf_len" "valid_block (take n buf)" for n
  proof -
    have "5 \<le> n" using that by (simp add: valid_block_def)
    with that assms(2) valid_block_take [of n buf] show ?thesis by simp
  qed
  have e: "find_block_error cons buf buf_len s \<noteq> Ok (1, n) s'" if "\<not> buf_len < 5" for s'
    using find_block_error_pop [of cons buf buf_len s 1 n s'] that by auto
  have k: "find_block_nak cons k s1 \<noteq> Ok (1, n) s'" for k s1 s' using andthen_nak [of cons k s1 1 n s'] by auto
  show ?thesis
  proof (cases "\<exists>n\<le>buf_len. valid_block (take n buf)")
    case True
    then obtain m where m: "m \<le> buf_len" "valid_block (take m buf)" by blast
    have "n \<le> buf_len \<and> valid_block (take n buf) \<longleftrightarrow> n = m" using v m by metis
    then show ?thesis
      unfolding command_find_block_cases [OF assms] Let_def v [OF m, symmetric]
      using k True by auto
  next
    case False
    then show ?thesis unfolding command_find_block_cases [OF assms] using e by (auto split: if_splits)
  qed
qed

lemma command_find_block_progress:
  assumes "command_find_block cons buf buf_len s = Ok (r, n) s'" "buf_len \<le> length buf"
  shows "n \<le> buf_len \<and> (r = 0 \<longleftrightarrow> n = 0) \<and> r \<in> {- 1, 0, 1}"
proof (cases "sync_state s AND CF_NEED_SYNC = 0 \<or> buf_len = 0")
  case True
  define m where "m = unat (buf ! 0)"
  show ?thesis
  proof (cases "buf_len < 5")
    case True
    with \<open>sync_state s AND CF_NEED_SYNC = 0 \<or> buf_len = 0\<close> assms show ?thesis
      by (auto simp: command_find_block_def split: if_splits)
  next
    case False
    with True assms show ?thesis
      unfolding command_find_block_def Let_def m_def [symmetric]
      by (auto dest!: find_block_error_pop andthen_nak split: if_splits)
  qed
next
  case False
  with assms show ?thesis
    by (auto simp: command_find_block_def dest!: find_block_need_sync_pop)
qed

section \<open>Encoding messages\<close>

fun args_match :: "param_type list \<Rightarrow> cmd_arg list \<Rightarrow> bool" where
  "args_match [] args \<longleftrightarrow> args = []"
| "args_match (t # ts) (A_int v # as) \<longleftrightarrow> is_int_type t \<and> args_match ts as"
| "args_match (t # ts) (A_str str # as) \<longleftrightarrow> t = PT_string \<and> args_match ts as"
| "args_match (t # ts) (A_buf v data # as) \<longleftrightarrow>
     t \<in> {PT_buffer, PT_progmem_buffer} \<and> unat v \<le> length data \<and> args_match ts as"
| "args_match (t # ts) [] \<longleftrightarrow> False"

text \<open>One parameter ends at most three bytes, the size of the trailer, after \<open>maxend\<close>.\<close>

lemma encode_param_room:
  assumes "encode_param int16 maxend t a p = Bytes bs" "int p + 2 \<le> maxend"
  shows "int (p + length bs) \<le> maxend + 3"
proof (cases a)
  case (A_int v)
  then have "length bs \<le> 5" using assms encode_int_length
    by (auto simp: encode_param_def Let_def split: if_splits)
  with assms show ?thesis by linarith
next
  case (A_str str)
  then obtain n cs where "bs = of_nat n # take n cs" "n \<le> nat (maxend + 1 - int (Suc p))"
    using assms by (auto simp: encode_param_def Let_def split: if_splits)
  with assms(2) show ?thesis by (auto simp: min_def)
next
  case (A_buf v data)
  then have "\<not> int (unat v) \<ge> maxend - int p" "length bs \<le> Suc (unat v)"
    using assms by (auto simp: encode_param_def Let_def split: if_splits)
  then show ?thesis by linarith
qed

lemma encode_param_match:
  assumes "args_match (t # ts) (a # as)"
  shows "encode_param int16 maxend t a p \<noteq> Bad_arg"
  using assms by (cases a) (auto simp: encode_param_def is_int_type_def Let_def)

text \<open>
  The loop writes inside the first \<open>m\<close> bytes, leaves what was before \<open>p\<close>, and reports a
  length that fits \<open>m\<close>.
\<close>

lemma encodef_loop_bounds:
  assumes "args_match ts args" "m \<le> length buf" "p \<le> m"
  shows "\<exists>n buf'. encodef_loop int16 (int m - 3) ts args buf p = Encoded n buf' \<and>
     length buf' = length buf \<and>
     (n \<noteq> 0 \<longrightarrow> p + 3 \<le> n \<and> n \<le> m \<and> take p buf' = take p buf)"
  using assms
proof (induction ts arbitrary: args buf p)
  case Nil
  then show ?case by auto
next
  case (Cons t ts)
  then obtain a as where args: "args = a # as" by (cases args) auto
  show ?case
  proof (cases "int p + 2 > int m - 3")
    case True
    with args show ?thesis by simp
  next
    case False
    have bad: "encode_param int16 (int m - 3) t a p \<noteq> Bad_arg"
      using encode_param_match Cons.prems(1) args by blast
    show ?thesis
    proof (cases "encode_param int16 (int m - 3) t a p")
      case (Bytes bs)
      with encode_param_room [OF this] False have r: "p + length bs \<le> m" by linarith
      with Cons.prems(2) obtain buf1 where w: "write_at buf p bs = Some buf1" by (auto simp: write_at_def)
      note wl = write_at_length [OF w] and wt = write_at_take [OF w]
      have "args_match ts as" using Cons.prems(1) args by (cases a) auto
      from Cons.IH [OF this, of buf1 "p + length bs"] wl r Cons.prems(2) obtain n buf' where
        i: "encodef_loop int16 (int m - 3) ts as buf1 (p + length bs) = Encoded n buf'"
        "length buf' = length buf"
        "n \<noteq> 0 \<longrightarrow> p + length bs + 3 \<le> n \<and> n \<le> m \<and> take (p + length bs) buf' = take (p + length bs) buf1"
        by auto
      have "take p buf1 = take p buf" using arg_cong [OF wt, of "take p"] r Cons.prems(2) by (simp add: min_def)
      moreover have "take p buf' = take p buf1" if "n \<noteq> 0"
        using i(3) that by (metis le_add1 min.absorb1 take_take)
      ultimately show ?thesis using i Bytes w False args by auto
    next
      case Need_space
      with args False show ?thesis by simp
    qed (use bad in simp)
  qed
qed

lemma command_encodef_bounds:
  assumes "args_match (ce_param_types ce) args" "buf_size \<le> length buf" "MESSAGE_MIN \<le> buf_size"
  shows "\<exists>n buf'. command_encodef int16 buf buf_size ce args = Encoded n buf' \<and>
     length buf' = length buf \<and>
     (unat (ce_max_size ce) > MESSAGE_MIN \<longrightarrow> n \<noteq> 0 \<longrightarrow>
        MESSAGE_MIN < n \<and> n \<le> buf_size \<and> n \<le> unat (ce_max_size ce))"
proof (cases "unat (ce_max_size ce) \<le> 5")
  case True
  then show ?thesis by (simp add: command_encodef_def Let_def)
next
  case False
  define m where "m = (if buf_size < unat (ce_max_size ce) then buf_size else unat (ce_max_size ce))"
  let ?ms = "encode_msgid (ce_encoded_msgid ce)"
  have ms: "1 \<le> length ?ms" "length ?ms \<le> 2" by (simp_all add: encode_msgid_def)
  have m: "m \<le> buf_size" "m \<le> unat (ce_max_size ce)" "5 \<le> m" using assms(3) False by (simp_all add: m_def)
  with ms assms(2) obtain buf1 where w: "write_at buf 2 ?ms = Some buf1" by (auto simp: write_at_def)
  note wl = write_at_length [OF w]
  have "2 + length ?ms \<le> m" using ms m by linarith
  with encodef_loop_bounds [OF assms(1), of m buf1 "2 + length ?ms" int16] wl m assms(2) obtain n buf' where
    i: "encodef_loop int16 (int m - 3) (ce_param_types ce) args buf1 (2 + length ?ms) = Encoded n buf'"
    "length buf' = length buf" "n \<noteq> 0 \<longrightarrow> 2 + length ?ms + 3 \<le> n \<and> n \<le> m" by auto
  have "command_encodef int16 buf buf_size ce args = Encoded n buf'"
    using False w i(1) by (simp add: command_encodef_def Let_def m_def [symmetric])
  with i m ms show ?thesis by auto
qed

lemma split_message:
  assumes "5 \<le> n" "n \<le> length buf"
  obtains a b pl x y z rest where "buf = a # b # pl @ x # y # z # rest" "length pl = n - 5"
    "pl = take (n - 5) (drop 2 buf)"
proof -
  define pl where "pl = take (n - 5) (drop 2 buf)"
  obtain a b where ab: "buf = a # b # drop 2 buf"
    using assms(1) assms(2) that by (cases buf; cases "tl buf") auto
  have "n - 5 + 2 = n - 3" using assms(1) by simp
  then have "drop 2 buf = pl @ drop (n - 3) buf"
    using append_take_drop_id [of "n - 5" "drop 2 buf"] by (simp add: pl_def)
  moreover obtain x y z rest where "drop (n - 3) buf = x # y # z # rest"
  proof -
    define d where "d = drop (n - 3) buf"
    have "Suc (Suc (Suc 0)) \<le> length d" using assms by (simp add: d_def)
    then obtain x y z rest where "d = x # y # z # rest" by (auto simp: Suc_le_length_iff)
    then show thesis using that by (simp add: d_def)
  qed
  moreover have "length pl = n - 5" using assms by (simp add: pl_def)
  ultimately show thesis using that [of a b pl x y z rest] ab pl_def by metis
qed

lemma command_add_frame_block:
  assumes "5 \<le> n" "n \<le> length buf"
  shows "\<exists>buf'. command_add_frame seq buf n = Some buf' \<and> length buf' = length buf \<and>
     take n buf' = make_block seq (take (n - 5) (drop 2 buf)) \<and> drop n buf' = drop n buf"
proof -
  from split_message [OF assms] obtain a b pl x y z rest where
    buf: "buf = a # b # pl @ x # y # z # rest" "length pl = n - 5" "pl = take (n - 5) (drop 2 buf)" by blast
  have n: "n = length pl + 5" using buf(2) assms(1) by simp
  define h where "h = of_nat n # seq # pl"
  have bh: "block_head seq pl = h" by (simp add: block_head_def n h_def)
  have lh: "n - 3 = length h" "n - 2 = length (h @ [e])" "n - 1 = length (h @ [e, g])" for e g :: u8
    by (simp_all add: h_def n)
  define crc where "crc = crc16_ccitt h (length h)"
  have b1: "buf[0 := of_nat n, 1 := seq] = h @ x # y # z # rest" by (simp add: buf(1) h_def)
  have c: "crc16_ccitt (h @ x # y # z # rest) (n - 3) = crc" by (simp add: crc16_ccitt_def crc_def lh(1))
  let ?c1 = "ucast (drop_bit 8 crc) :: u8" and ?c2 = "ucast crc :: u8"
  have u: "(h @ x # y # z # rest)[n - 3 := ?c1, n - 2 := ?c2, n - 1 := MESSAGE_SYNC]
      = h @ ?c1 # ?c2 # MESSAGE_SYNC # rest"
    using list_update_length [of h x "y # z # rest" ?c1]
      list_update_length [of "h @ [?c1]" y "z # rest" ?c2]
      list_update_length [of "h @ [?c1, ?c2]" z rest MESSAGE_SYNC]
    unfolding lh(1) lh(2) [of ?c1] lh(3) [of ?c1 ?c2] by simp
  define blk where "blk = h @ [?c1, ?c2, MESSAGE_SYNC]"
  have f: "command_add_frame seq buf n = Some (blk @ rest)"
    using assms unfolding command_add_frame_def Let_def b1 c u by (simp add: blk_def)
  have mb: "make_block seq (take (n - 5) (drop 2 buf)) = blk"
    unfolding buf(3) [symmetric] by (simp add: make_block_def bh Let_def crc_def blk_def)
  have lb: "length blk = n" using assms(1) lh(1) by (simp add: blk_def)
  have r: "drop n buf = rest"
  proof -
    have "(a # b # pl @ [x, y, z]) @ rest = buf" "n = length (a # b # pl @ [x, y, z])"
      using n by (simp_all add: buf(1))
    then show ?thesis by (metis append_eq_conv_conj)
  qed
  have "length buf = length (blk @ rest)" using arg_cong [OF buf(1), of length] n lb by simp
  with f mb lb r show ?thesis by simp
qed

lemma encodef_loop_ints:
  assumes "list_all is_int_type ts" "length ts = length vs"
    and "encodef_loop False maxend ts (map A_int vs) buf p = Encoded n buf'" "n \<noteq> 0"
  shows "n = p + length (vlq_bytes vs) + 3 \<and> take (p + length (vlq_bytes vs)) buf' = take p buf @ vlq_bytes vs"
  using assms
proof (induction ts arbitrary: vs buf p)
  case Nil
  then show ?case by (auto split: if_splits)
next
  case (Cons t ts)
  then obtain v ws where vs: "vs = v # ws" by (cases vs) auto
  from Cons.prems(1) have t: "is_int_type t" by simp
  then have e: "encode_param False maxend t (A_int v) p = Bytes (encode_int v)"
    by (simp add: encode_param_def arg_value_def)
  from Cons.prems(3,4) vs e obtain buf1 where w: "write_at buf p (encode_int v) = Some buf1"
    and r: "encodef_loop False maxend ts (map A_int ws) buf1 (p + length (encode_int v)) = Encoded n buf'"
    by (auto split: if_splits option.splits)
  from Cons.IH [OF _ _ r] Cons.prems(1,2,4) vs write_at_take [OF w] show ?case by (simp add: add.assoc)
qed

lemma command_encodef_ints:
  assumes "list_all is_int_type (ce_param_types ce)" "length (ce_param_types ce) = length vs"
    and "command_encodef False buf buf_size ce (map A_int vs) = Encoded n buf'" "n \<noteq> 0"
    and "unat (ce_max_size ce) > MESSAGE_MIN" "2 \<le> length buf"
  shows "n = length (cmd_bytes (ce_encoded_msgid ce, vs)) + MESSAGE_MIN \<and>
     take (2 + length (cmd_bytes (ce_encoded_msgid ce, vs))) buf' = take 2 buf @ cmd_bytes (ce_encoded_msgid ce, vs)"
proof -
  let ?ms = "encode_msgid (ce_encoded_msgid ce)"
  from assms(3,5) obtain buf1 maxend where w: "write_at buf 2 ?ms = Some buf1"
    and l: "encodef_loop False maxend (ce_param_types ce) (map A_int vs) buf1 (2 + length ?ms) = Encoded n buf'"
    by (auto simp: command_encodef_def Let_def split: option.splits)
  from encodef_loop_ints [OF assms(1,2) l assms(4)] write_at_take [OF w]
  show ?thesis by (simp add: cmd_bytes_def add.assoc)
qed

lemma encode_and_frame_bounds:
  assumes "args_match (ce_param_types ce) args" "buf_size \<le> length buf" "MESSAGE_MIN \<le> buf_size"
    and "MESSAGE_MIN \<le> unat (ce_max_size ce)" "unat (ce_max_size ce) \<le> MESSAGE_MAX"
    and "seq AND NOT MESSAGE_SEQ_MASK = MESSAGE_DEST"
  shows "\<exists>n buf'. command_encode_and_frame int16 seq buf buf_size ce args = Encoded n buf' \<and>
     length buf' = length buf \<and> n \<le> buf_size \<and> (n \<noteq> 0 \<longrightarrow> valid_block (take n buf'))"
proof -
  from command_encodef_bounds [OF assms(1-3), of int16] obtain n buf1 where
    e: "command_encodef int16 buf buf_size ce args = Encoded n buf1" "length buf1 = length buf"
    "unat (ce_max_size ce) > 5 \<Longrightarrow> n \<noteq> 0 \<Longrightarrow> 5 < n \<and> n \<le> buf_size \<and> n \<le> unat (ce_max_size ce)" by blast
  show ?thesis
  proof (cases "n = 0")
    case True
    with e show ?thesis by (simp add: command_encode_and_frame_def)
  next
    case False
    have n: "5 \<le> n" "n \<le> buf_size" "n \<le> 64"
    proof -
      have "5 \<le> n \<and> n \<le> buf_size \<and> n \<le> unat (ce_max_size ce)"
      proof (cases "unat (ce_max_size ce) > 5")
        case True
        with e(3) False show ?thesis by simp
      next
        case max5: False
        with e(1) have "n = unat (ce_max_size ce)" by (simp add: command_encodef_def Let_def)
        with max5 assms show ?thesis by simp
      qed
      with assms(5) show "5 \<le> n" "n \<le> buf_size" "n \<le> 64" by simp_all
    qed
    from command_add_frame_block [of n buf1 seq] n e(2) assms(2) obtain buf2 where
      f: "command_add_frame seq buf1 n = Some buf2" "length buf2 = length buf1"
      "take n buf2 = make_block seq (take (n - 5) (drop 2 buf1))" by auto
    have "valid_block (take n buf2)"
      unfolding f(3) by (rule make_block_valid) (use n assms(6) in auto)
    with f e n False show ?thesis by (simp add: command_encode_and_frame_def)
  qed
qed

lemma encode_and_frame_ints:
  assumes "list_all is_int_type (ce_param_types ce)" "length (ce_param_types ce) = length vs"
    and "unat (ce_max_size ce) > MESSAGE_MIN" "buf_size \<le> length buf" "MESSAGE_MIN \<le> buf_size"
    and "command_encode_and_frame False seq buf buf_size ce (map A_int vs) = Encoded n buf'" "n \<noteq> 0"
  shows "take n buf' = make_block seq (cmd_bytes (ce_encoded_msgid ce, vs))"
proof -
  let ?c = "cmd_bytes (ce_encoded_msgid ce, vs)"
  from assms(6,7) obtain buf1 where e: "command_encodef False buf buf_size ce (map A_int vs) = Encoded n buf1"
    and f: "command_add_frame seq buf1 n = Some buf'"
    by (auto simp: command_encode_and_frame_def split: encode_result.splits if_splits option.splits)
  note c = command_encodef_ints [OF assms(1,2) e assms(7) assms(3)]
  have "2 \<le> length buf" using assms by simp
  with c have n: "n = length ?c + 5" "take (2 + length ?c) buf1 = take 2 buf @ ?c" by simp_all
  then have "take (n - 5) (drop 2 buf1) = ?c"
    using arg_cong [OF n(2), of "drop 2"] \<open>2 \<le> length buf\<close> by (simp add: take_drop add.commute)
  moreover have "n \<le> length buf1" using f by (auto simp: command_add_frame_def Let_def split: if_splits)
  ultimately show ?thesis using command_add_frame_block [of n buf1 seq] f n by auto
qed

lemma next_sequence_differs: "((q + 1) AND 0x0f) OR 0x10 \<noteq> (q :: u8)"
proof
  assume "((q + 1) AND 0x0f) OR 0x10 = q"
  then have "bit (((q + 1) AND 0x0f) OR 0x10) 0 = bit q 0" by simp
  then show False by (simp add: bit_simps) (simp add: bit_0)
qed

lemma find_block_no_repeat:
  assumes "sync_state s AND CF_NEED_SYNC = 0" "buf_len \<le> length buf"
    and "command_find_block cons buf buf_len s = Ok (1, n) s'"
  shows "next_sequence s' = ((next_sequence s + 1) AND MESSAGE_SEQ_MASK) OR MESSAGE_DEST \<and>
     \<not> (\<exists>m s''. command_find_block cons buf buf_len s' = Ok (1, m) s'')"
proof -
  have acc: "n \<le> buf_len" "valid_block (take n buf)" "buf ! 1 = next_sequence s"
    using command_find_block_accepts [OF assms(1,2)] assms(3) by metis+
  then have "\<exists>n\<le>buf_len. valid_block (take n buf)" by blast
  with acc(3) have "command_find_block cons buf buf_len s = Ok (1, unat (buf ! 0))
      (s\<lparr>sync_state := sync_state s AND NOT CF_NEED_VALID,
         next_sequence := ((next_sequence s + 1) AND MESSAGE_SEQ_MASK) OR MESSAGE_DEST\<rparr>)"
    unfolding command_find_block_cases [OF assms(1,2)] by simp
  with assms(3) have s': "s' = s\<lparr>sync_state := sync_state s AND NOT CF_NEED_VALID,
      next_sequence := ((next_sequence s + 1) AND MESSAGE_SEQ_MASK) OR MESSAGE_DEST\<rparr>" by simp
  have "sync_state s' AND CF_NEED_SYNC = 0"
  proof -
    have "sync_state s' AND CF_NEED_SYNC = (sync_state s AND CF_NEED_SYNC) AND NOT CF_NEED_VALID"
      by (simp add: s' ac_simps)
    then show ?thesis using assms(1) by simp
  qed
  from command_find_block_accepts [OF this assms(2)] acc(3) next_sequence_differs [of "next_sequence s"]
  show ?thesis by (auto simp: s')
qed

lemma dispatch_block_runs:
  assumes "list_all (cmd_ok index) cs" "payload = concat (map cmd_bytes cs)"
  shows "command_dispatch index (make_block seq payload) (length payload + MESSAGE_MIN) s =
     run_commands index (make_block seq payload) cs s"
proof -
  let ?b = "make_block seq payload"
  have "?b = (of_nat (length payload + 5) # seq # payload) @ drop (length payload + 2) ?b"
    using make_block_payload [of seq payload] by (simp add: block_head_def)
  then have "drop 2 ?b = payload @ drop (length payload + 2) ?b"
    by (metis append_Cons drop0 drop_Suc_Cons numeral_2_eq_2)
  then show ?thesis
    unfolding command_dispatch_def
    by (intro dispatch_loop_runs [where rest = "drop (length payload + 2) ?b"]) (use assms in auto)
qed

section \<open>Properties\<close>

definition demo_command :: command where
  "demo_command = basecmd.extend demo_basecmd \<lparr>next_sequence = 0x10, sync_state = 0, in_sendf = False\<rparr>"

lemmas demo_command_simps = demo_command_def basecmd.defs demo_basecmd_simps

text \<open>A table with one command of one argument, which records the argument.\<close>

definition demo_index :: "('z sched_scheme) command_parser list" where
  "demo_index =
     [\<lparr>cp_encoded_msgid = 0, cp_num_args = 0, cp_flags = 0, cp_param_types = [], cp_func = (\<lambda>args buf s. Ok () s)\<rparr>,
      \<lparr>cp_encoded_msgid = 1, cp_num_args = 1, cp_flags = 0, cp_param_types = [PT_byte],
       cp_func = (\<lambda>args buf s. Ok () (emit (Sendf ''ran'' args []) s))\<rparr>]"

text \<open>
  C5: dispatching a valid block never reads outside it and never overruns the argument array,
  whatever its payload: the parser stops at the sync byte, and handlers are only called with
  buffers that lie inside the payload.
\<close>

theorem command_dispatch_memory_safe:
  assumes "valid_block (take msglen buf)" "msglen \<le> length buf" "length buf < 2 ^ 32"
    and "\<forall>cp\<in>set index. args_needed (cp_param_types cp) \<le> cp_num_args cp"
    and "\<forall>cp\<in>set index. \<forall>args s. buffers_ok (msglen - 3) (cp_param_types cp) args \<longrightarrow>
      no_fault (cp_func cp args buf s)"
  shows "no_fault (command_dispatch index buf msglen s)"
proof -
  have n: "5 \<le> msglen" using assms(1) by (simp add: valid_block_def)
  with assms(1,2) have "buf ! (msglen - 1) = 0x7e" using valid_block_take [of msglen buf] by simp
  then have "\<not> bit (buf ! (msglen - 1)) 7" by simp
  with n assms(2-) show ?thesis
    unfolding command_dispatch_def by (intro dispatch_loop_no_fault [of _ "msglen - 1"]) auto
qed

theorem command_dispatch_memory_safe_witness:
  "no_fault (command_dispatch demo_index (make_block 0x10 [1, 0x80]) 7 demo_sched)"
proof (rule command_dispatch_memory_safe)
  have "valid_block (make_block 0x10 [1, 0x80])" by (rule make_block_valid) simp_all
  then show "valid_block (take 7 (make_block 0x10 [1, 0x80]))" by (simp add: make_block_length)
qed (auto simp: demo_index_def make_block_length)

text \<open>
  C30: a block built from a list of commands runs exactly these commands, in order, each with the
  arguments it was built from, except that a command is answered by a shutdown report while the
  machine is shut down and the command is not allowed then.
\<close>

theorem command_dispatch_runs_block:
  assumes "list_all (cmd_ok index) cs" "payload = concat (map cmd_bytes cs)"
  shows "command_dispatch index (make_block seq payload) (length payload + MESSAGE_MIN) s =
     run_commands index (make_block seq payload) cs s"
  using assms by (rule dispatch_block_runs)

theorem command_dispatch_runs_block_witness:
  "command_dispatch demo_index (make_block 0x10 [1, 7, 1, 9]) 9 demo_sched =
     Ok () (emit (Sendf ''ran'' [9] []) (emit (Sendf ''ran'' [7] []) demo_sched))"
proof -
  have "concat (map cmd_bytes [(1, [7]), (1, [9])]) = [1, 7, 1, 9]" by code_simp
  moreover have "list_all (cmd_ok demo_index) [(1, [7]), (1, [9])]"
    by (simp add: cmd_ok_def demo_index_def is_int_type_def)
  ultimately show ?thesis
    using command_dispatch_runs_block [of demo_index "[(1, [7]), (1, [9])]" "[1, 7, 1, 9]" "0x10" demo_sched]
    by (simp add: demo_index_def sched_is_shutdown_def demo_sched_def sched_boot_def emit_def)
qed

text \<open>
  C29: outside of resynchronisation, \<^verbatim>\<open>command_find_block\<close> accepts \<open>n\<close> bytes exactly when they form
  a valid block that carries the expected sequence number.
\<close>

theorem command_find_block_accepts_iff:
  assumes "sync_state s AND CF_NEED_SYNC = 0" "buf_len \<le> length buf"
  shows "(\<exists>s'. command_find_block cons buf buf_len s = Ok (1, n) s') \<longleftrightarrow>
     n \<le> buf_len \<and> valid_block (take n buf) \<and> buf ! 1 = next_sequence s"
  by (rule command_find_block_accepts) (fact assms)+

theorem command_find_block_accepts_iff_witness:
  "\<exists>s'. command_find_block (\<lambda>ce args s. Ok () s) (make_block 0x10 [1]) 6 demo_command = Ok (1, 6) s'"
proof -
  have "valid_block (make_block 0x10 [1])" by (rule make_block_valid) simp_all
  moreover have "take 6 (make_block 0x10 [1]) = make_block 0x10 [1]" "length (make_block 0x10 [1]) = 6"
    by (simp_all add: make_block_length)
  ultimately show ?thesis
    using command_find_block_accepts_iff [of demo_command 6 "make_block 0x10 [1]" "\<lambda>ce args s. Ok () s" 6]
      make_block_nth(2) [of "0x10" "[1]"] by (simp add: demo_command_simps)
qed

text \<open>
  An accepted block advances the sequence number by one modulo 16, and the same bytes are not
  accepted a second time: a retransmitted block is never executed twice.
\<close>

theorem command_find_block_no_repeat:
  assumes "sync_state s AND CF_NEED_SYNC = 0" "buf_len \<le> length buf"
    and "command_find_block cons buf buf_len s = Ok (1, n) s'"
  shows "next_sequence s' = ((next_sequence s + 1) AND MESSAGE_SEQ_MASK) OR MESSAGE_DEST \<and>
     \<not> (\<exists>m s''. command_find_block cons buf buf_len s' = Ok (1, m) s'')"
  by (rule find_block_no_repeat) (fact assms)+

theorem command_find_block_no_repeat_witness:
  "\<exists>s'. command_find_block (\<lambda>ce args s. Ok () s) (make_block 0x10 [1]) 6 demo_command = Ok (1, 6) s' \<and>
     \<not> (\<exists>m s''. command_find_block (\<lambda>ce args s. Ok () s) (make_block 0x10 [1]) 6 s' = Ok (1, m) s'')"
proof -
  have v: "valid_block (make_block 0x10 [1])" by (rule make_block_valid) simp_all
  have t: "take 6 (make_block 0x10 [1]) = make_block 0x10 [1]" "6 \<le> length (make_block 0x10 [1])"
    by (simp_all add: make_block_length)
  have d: "sync_state demo_command AND CF_NEED_SYNC = 0" "next_sequence demo_command = 0x10"
    by (simp_all add: demo_command_simps)
  obtain s' where s': "command_find_block (\<lambda>ce args s. Ok () s) (make_block 0x10 [1]) 6 demo_command = Ok (1, 6) s'"
    using command_find_block_accepts [OF d(1) t(2), of "\<lambda>ce args s. Ok () s" 6] v t(1) d(2)
      make_block_nth(2) [of "0x10" "[1]"] by auto
  with command_find_block_no_repeat [OF d(1) t(2) s'] show ?thesis by blast
qed

end
