(* ===== verification/Serial_Irq.thy ===== *)
theory Serial_Irq
  imports Command_Props
begin

text \<open>
  The interrupt driven serial console (\<^verbatim>\<open>src/src/generic/serial_irq.c\<close>): the receive buffer
  filled by the receive interrupt and emptied by \<^verbatim>\<open>console_task\<close>, and the transmit buffer filled by
  \<^verbatim>\<open>console_sendf\<close> and emptied by the transmit interrupt. The race of \<^verbatim>\<open>console_pop_input\<close> with the
  receive interrupt is modelled: the bytes that arrive during each turn of its loop are a
  parameter.
\<close>

section \<open>State and operations\<close>

abbreviation (input) RX_BUFFER_SIZE :: nat where "RX_BUFFER_SIZE \<equiv> 192"
abbreviation (input) TX_BUFFER_SIZE :: nat where "TX_BUFFER_SIZE \<equiv> 96"

record serial = command +
  have_bootloader_request :: bool    \<comment> \<open>\<^verbatim>\<open>CONFIG_HAVE_BOOTLOADER_REQUEST\<close>\<close>
  receive_buf :: "u8 list"
  receive_pos :: nat
  transmit_buf :: "u8 list"
  transmit_pos :: nat
  transmit_max :: nat

definition serial_rx_byte :: "u8 \<Rightarrow> 'z serial_scheme \<Rightarrow> 'z serial_scheme" where
  "serial_rx_byte data s =
     (let s = (if data = MESSAGE_SYNC then sched_wake_tasks s else s) in
      if receive_pos s \<ge> RX_BUFFER_SIZE then s
      else s\<lparr>receive_buf := (receive_buf s)[receive_pos s := data], receive_pos := Suc (receive_pos s)\<rparr>)"

text \<open>The next byte to transmit, if there is one; \<open>Fault\<close> is a read outside the buffer.\<close>

definition serial_get_tx_byte :: "'z serial_scheme \<Rightarrow> (u8 option, 'z serial_scheme) outcome" where
  "serial_get_tx_byte s =
     (if transmit_pos s \<ge> transmit_max s then Ok None s
      else if transmit_pos s \<ge> length (transmit_buf s) then Fault
      else Ok (Some (transmit_buf s ! transmit_pos s)) (s\<lparr>transmit_pos := Suc (transmit_pos s)\<rparr>))"

definition memmove :: "nat \<Rightarrow> nat \<Rightarrow> nat \<Rightarrow> 'a list \<Rightarrow> 'a list" where
  "memmove dst src n buf = take dst buf @ take n (drop src buf) @ drop (dst + n) buf"

text \<open>
  One turn of the loop of \<^verbatim>\<open>console_pop_input\<close> up to the check for a race, and the loop.
  \<open>batches\<close> lists, per turn, the bytes the receive interrupt stores meanwhile.
\<close>

definition pop_input_copy :: "nat \<Rightarrow> nat \<Rightarrow> 'z serial_scheme \<Rightarrow> nat \<times> 'z serial_scheme" where
  "pop_input_copy len copied s =
     (let rpos = receive_pos s; needcopy = rpos - len in
      if needcopy \<noteq> 0
      then (needcopy, sched_wake_tasks
              (s\<lparr>receive_buf := memmove copied (copied + len) (needcopy - copied) (receive_buf s)\<rparr>))
      else (copied, s))"

fun console_pop_loop :: "nat \<Rightarrow> nat \<Rightarrow> u8 list list \<Rightarrow> 'z serial_scheme \<Rightarrow> 'z serial_scheme" where
  "console_pop_loop len copied [] s =
     (let rpos = receive_pos s; (copied, s) = pop_input_copy len copied s
      in s\<lparr>receive_pos := rpos - len\<rparr>)"
| "console_pop_loop len copied (b # bs) s =
     (let rpos = receive_pos s; (copied, s) = pop_input_copy len copied s; s = fold serial_rx_byte b s
      in if rpos \<noteq> receive_pos s then console_pop_loop len copied bs s
         else s\<lparr>receive_pos := rpos - len\<rparr>)"

definition console_pop_input :: "nat \<Rightarrow> u8 list list \<Rightarrow> 'z serial_scheme \<Rightarrow> 'z serial_scheme" where
  "console_pop_input len batches s = console_pop_loop len 0 batches s"

text \<open>\<^verbatim>\<open>console_sendf\<close>: make room, then encode the message behind the pending bytes.\<close>

definition sendf_make_room :: "command_encoder \<Rightarrow> 'z serial_scheme \<Rightarrow> (nat option) \<times> 'z serial_scheme" where
  "sendf_make_room ce s =
     (let tpos = transmit_pos s; tmax = transmit_max s;
          (tpos, tmax, s) = (if tpos \<ge> tmax then (0, 0, s\<lparr>transmit_max := 0, transmit_pos := 0\<rparr>)
                             else (tpos, tmax, s))
      in if tmax + unat (ce_max_size ce) > TX_BUFFER_SIZE
         then if tmax - tpos + unat (ce_min_size ce) > TX_BUFFER_SIZE then (None, s)
              else let s = s\<lparr>transmit_max := 0\<rparr>;
                       tpos = transmit_pos s;
                       tmax = tmax - tpos;
                       s = s\<lparr>transmit_buf := memmove 0 tpos tmax (transmit_buf s)\<rparr>
                   in (Some tmax, s\<lparr>transmit_pos := 0, transmit_max := tmax\<rparr>)
         else (Some tmax, s))"

definition console_sendf :: "command_encoder \<Rightarrow> cmd_arg list \<Rightarrow> 'z serial_scheme \<Rightarrow> (unit, 'z serial_scheme) outcome"
where
  "console_sendf ce args s =
     (case sendf_make_room ce s of
        (None, s) \<Rightarrow> Ok () s
      | (Some tmax, s) \<Rightarrow>
          (case command_encode_and_frame (mach_avr s) (next_sequence s) (drop tmax (transmit_buf s))
                  (TX_BUFFER_SIZE - tmax) ce args of
             Encode_fault \<Rightarrow> Fault
           | Encoded msglen buf \<Rightarrow>
               let s = s\<lparr>transmit_buf := take tmax (transmit_buf s) @ buf\<rparr> in
               if msglen = 0 then Ok () s
               else Ok () (s\<lparr>transmit_max := tmax + msglen\<rparr>)))"

text \<open>The request of the host to enter the bootloader, 32 bytes.\<close>

definition bootloader_magic :: "u8 list" where
  "bootloader_magic = map of_char ('' '' @ [CHR 0x1c] @ '' Request Serial Bootloader!! ~'')"

definition console_task ::
  "('z serial_scheme) command_parser list \<Rightarrow> u8 list list \<Rightarrow> 'z serial_scheme \<Rightarrow>
     (unit, 'z serial_scheme) outcome"
where
  "console_task index batches s =
     andthen (command_find_block console_sendf (receive_buf s) (receive_pos s) s)
       (\<lambda>(ret, pop_count) s.
         andthen (if ret > 0 then command_dispatch index (receive_buf s) pop_count s else Ok () s)
           (\<lambda>_ s.
             if ret \<noteq> 0
             then let s = (if have_bootloader_request s \<and> ret < 0 \<and> pop_count = 32 \<and>
                              take 32 (receive_buf s) = bootloader_magic
                           then emit Bootloader_request s else s);
                      s = console_pop_input pop_count batches s
                  in if ret > 0 then command_send_ack console_sendf s else Ok () s
             else Ok () s))"

section \<open>The receive buffer\<close>

lemma take_take_append: "take n (take n xs @ ys) = take n (xs @ ys)"
  by (cases "length xs \<le> n") simp_all

definition rx_ok :: "'z serial_scheme \<Rightarrow> bool" where
  "rx_ok s \<longleftrightarrow> length (receive_buf s) = RX_BUFFER_SIZE \<and> receive_pos s \<le> RX_BUFFER_SIZE"

definition rx_content :: "'z serial_scheme \<Rightarrow> u8 list" where
  "rx_content s = take (receive_pos s) (receive_buf s)"

lemma wake_tasks_rx [simp]:
  "receive_buf (sched_wake_tasks s) = receive_buf s" "receive_pos (sched_wake_tasks s) = receive_pos s"
  by (simp_all add: sched_wake_tasks_def)

lemma serial_rx_byte_content:
  assumes "rx_ok s"
  shows "rx_ok (serial_rx_byte d s) \<and>
     rx_content (serial_rx_byte d s) =
       (if receive_pos s < RX_BUFFER_SIZE then rx_content s @ [d] else rx_content s)"
  using assms
  by (auto simp: serial_rx_byte_def Let_def rx_ok_def rx_content_def take_Suc_conv_app_nth)

lemma rx_content_length: "rx_ok s \<Longrightarrow> length (rx_content s) = receive_pos s"
  by (simp add: rx_ok_def rx_content_def)

lemma rx_fold:
  assumes "rx_ok s"
  shows "rx_ok (fold serial_rx_byte b s) \<and>
     rx_content (fold serial_rx_byte b s) = take RX_BUFFER_SIZE (rx_content s @ b)"
  using assms
proof (induction b arbitrary: s)
  case Nil
  then show ?case by (simp add: rx_content_length rx_ok_def)
next
  case (Cons d b)
  note r = serial_rx_byte_content [OF Cons.prems, of d] and i = Cons.IH [of "serial_rx_byte d s"]
  have p: "length (rx_content s) = receive_pos s" "receive_pos s \<le> 192"
    using Cons.prems by (simp_all add: rx_content_length rx_ok_def)
  show ?case
  proof (cases "receive_pos s < 192")
    case True
    with r i show ?thesis by simp
  next
    case False
    with p r i show ?thesis by simp
  qed
qed

text \<open>
  \<open>popping len copied V s\<close>: between turns of the loop, \<open>V\<close> is the input received, and the first
  \<open>copied\<close> bytes of what remains after \<open>len\<close> bytes are already in place.
\<close>

definition popping :: "nat \<Rightarrow> nat \<Rightarrow> u8 list \<Rightarrow> 'z serial_scheme \<Rightarrow> bool" where
  "popping len copied V s \<longleftrightarrow> rx_ok s \<and> length V = receive_pos s \<and> copied + len \<le> length V \<and>
     take copied (rx_content s) = take copied (drop len V) \<and>
     drop (copied + len) (rx_content s) = drop (copied + len) V"

lemma pop_input_copy_popping:
  assumes "popping len copied V s" "pop_input_copy len copied s = (copied', s')"
  shows "popping len copied' V s' \<and> copied' = length V - len \<and> receive_pos s' = receive_pos s"
proof (cases "receive_pos s - len = 0")
  case True
  with assms show ?thesis by (auto simp: pop_input_copy_def popping_def Let_def)
next
  case False
  let ?n = "receive_pos s - len" and ?b = "receive_buf s"
  from assms False have c': "copied' = ?n"
    and s': "s' = sched_wake_tasks (s\<lparr>receive_buf := memmove copied (copied + len) (?n - copied) ?b\<rparr>)"
    by (auto simp: pop_input_copy_def Let_def)
  from assms(1) have p: "length ?b = 192" "receive_pos s \<le> 192" "length V = receive_pos s"
    "copied + len \<le> receive_pos s" "take copied (rx_content s) = take copied (drop len V)"
    "drop (copied + len) (rx_content s) = drop (copied + len) V"
    by (simp_all add: popping_def rx_ok_def)
  have rb: "receive_buf s' = take copied ?b @ take (?n - copied) (drop (copied + len) ?b) @ drop ?n ?b"
    using p(4) by (simp add: s' memmove_def)
  have "take copied ?b = take copied (drop len V)" using p by (simp add: rx_content_def min_def)
  moreover have "take (?n - copied) (drop (copied + len) ?b) = drop (copied + len) V"
    using p(4,6) by (simp add: rx_content_def drop_take add.commute)
  moreover have "take copied (drop len V) @ drop (copied + len) V = drop len V"
    by (metis append_take_drop_id drop_drop)
  ultimately have rb2: "receive_buf s' = drop len V @ drop ?n ?b" using rb by (metis append_assoc)
  have "length (receive_buf s') = 192" unfolding rb2 using p False by simp
  moreover have rp: "receive_pos s' = receive_pos s" by (simp add: s')
  moreover have "take ?n (rx_content s') = drop len V"
    unfolding rx_content_def rb2 rp using p by (simp add: min_def)
  ultimately show ?thesis using p c' False by (auto simp: popping_def rx_ok_def rx_content_def)
qed

lemma popping_receive:
  assumes "popping len (length V - len) V s"
  shows "popping len (length V - len) (take RX_BUFFER_SIZE (V @ b)) (fold serial_rx_byte b s)"
proof -
  let ?c = "length V - len" and ?s = "fold serial_rx_byte b s"
  from assms have p: "rx_ok s" "length V = receive_pos s" "len \<le> length V" "length V \<le> 192"
    "take ?c (rx_content s) = take ?c (drop len V)"
    unfolding popping_def rx_ok_def by auto
  note f = rx_fold [OF p(1), of b]
  have lr: "length (rx_content s) = length V" using p by (simp add: rx_content_length)
  have "receive_pos ?s = length (rx_content ?s)" using f rx_content_length by metis
  then have pos: "receive_pos ?s = length (take 192 (V @ b))" using f lr by simp
  have "take ?c (rx_content ?s) = take ?c (drop len (take 192 (V @ b)))"
    using f p lr by (simp add: drop_take min_def)
  moreover have "drop (length V) (rx_content ?s) = drop (length V) (take 192 (V @ b))"
    using f lr by (simp add: drop_take)
  ultimately show ?thesis using f p pos by (simp add: popping_def)
qed

lemma popping_done:
  assumes "popping len (length V - len) V s"
  shows "rx_ok (s\<lparr>receive_pos := length V - len\<rparr>) \<and> rx_content (s\<lparr>receive_pos := length V - len\<rparr>) = drop len V"
proof -
  have "take (length V - len) (rx_content s) = take (length V - len) (receive_buf s)"
    using assms by (simp add: popping_def rx_content_def min_def)
  then show ?thesis using assms by (auto simp: popping_def rx_ok_def rx_content_def)
qed

lemma console_pop_loop_content:
  assumes "popping len copied V s"
  shows "\<exists>k\<le>length batches. rx_ok (console_pop_loop len copied batches s) \<and>
     rx_content (console_pop_loop len copied batches s) =
       drop len (take RX_BUFFER_SIZE (V @ concat (take k batches)))"
  using assms
proof (induction batches arbitrary: copied V s)
  case Nil
  obtain c s1 where c: "pop_input_copy len copied s = (c, s1)" by force
  note p = pop_input_copy_popping [OF Nil c]
  have "length V \<le> 192" "receive_pos s = length V" using Nil by (simp_all add: popping_def rx_ok_def)
  with p popping_done [of len V s1] c show ?case by auto
next
  case (Cons b bs)
  obtain c s1 where c: "pop_input_copy len copied s = (c, s1)" by force
  note p = pop_input_copy_popping [OF Cons.prems c]
  define s2 where "s2 = fold serial_rx_byte b s1"
  define W where "W = take 192 (V @ b)"
  have q: "popping len c W s2" using popping_receive [of len V s1 b] p by (auto simp: s2_def W_def)
  have V: "length V \<le> 192" "receive_pos s = length V" using Cons.prems by (simp_all add: popping_def rx_ok_def)
  show ?case
  proof (cases "receive_pos s = receive_pos s2")
    case False
    from Cons.IH [OF q] obtain k where k: "k \<le> length bs"
      "rx_ok (console_pop_loop len c bs s2)"
      "rx_content (console_pop_loop len c bs s2) = drop len (take 192 (W @ concat (take k bs)))" by blast
    have "take 192 (W @ concat (take k bs)) = take 192 (V @ concat (take (Suc k) (b # bs)))"
      by (simp only: W_def take_take_append append_assoc take_Suc_Cons concat.simps)
    then show ?thesis using False c k by (intro exI [of _ "Suc k"]) (simp add: s2_def)
  next
    case True
    with q V have "length W = length V" by (simp add: popping_def)
    then have "W = V" unfolding W_def using V by (cases b) auto
    with popping_done [of len V s2] q p True c V show ?thesis
      by (intro exI [of _ 0]) (simp add: s2_def [symmetric])
  qed
qed

section \<open>The transmit buffer\<close>

definition tx_ok :: "'z serial_scheme \<Rightarrow> bool" where
  "tx_ok s \<longleftrightarrow> length (transmit_buf s) = TX_BUFFER_SIZE \<and> transmit_pos s \<le> transmit_max s \<and>
     transmit_max s \<le> TX_BUFFER_SIZE"

definition tx_pending :: "'z serial_scheme \<Rightarrow> u8 list" where
  "tx_pending s = take (transmit_max s - transmit_pos s) (drop (transmit_pos s) (transmit_buf s))"

lemma sendf_make_room_spec:
  assumes "tx_ok s"
  shows "(\<exists>s'. sendf_make_room ce s = (None, s') \<and> tx_ok s' \<and> tx_pending s' = tx_pending s \<and>
       length (tx_pending s) + unat (ce_min_size ce) > TX_BUFFER_SIZE) \<or>
     (\<exists>m s'. sendf_make_room ce s = (Some m, s') \<and> tx_ok s' \<and> tx_pending s' = tx_pending s \<and>
       transmit_max s' = m \<and> next_sequence s' = next_sequence s \<and> mach_avr s' = mach_avr s \<and>
       (m + unat (ce_max_size ce) \<le> TX_BUFFER_SIZE \<or>
        m = length (tx_pending s) \<and> m + unat (ce_min_size ce) \<le> TX_BUFFER_SIZE))"
  using assms
  by (auto simp: sendf_make_room_def Let_def tx_ok_def tx_pending_def memmove_def min_def)

lemma tx_pending_append:
  assumes "tx_ok s" "length buf = TX_BUFFER_SIZE - transmit_max s" "n \<le> length buf"
  shows "tx_ok (s\<lparr>transmit_buf := take (transmit_max s) (transmit_buf s) @ buf, transmit_max := transmit_max s + n\<rparr>) \<and>
     tx_pending (s\<lparr>transmit_buf := take (transmit_max s) (transmit_buf s) @ buf, transmit_max := transmit_max s + n\<rparr>)
       = tx_pending s @ take n buf"
proof -
  define p where "p = transmit_pos s"
  define k where "k = transmit_max s - p"
  have m: "transmit_max s = p + k" "p + k \<le> length (transmit_buf s)" "length (transmit_buf s) = 96"
    using assms(1) by (simp_all add: tx_ok_def p_def k_def)
  define y where "y = take k (drop p (transmit_buf s))"
  have y: "drop p (take (p + k) (transmit_buf s)) = y" "length y = k" "length (take (p + k) (transmit_buf s)) = p + k"
    using m(2) by (simp_all add: y_def drop_take)
  then have "drop p (take (p + k) (transmit_buf s) @ buf) = y @ buf" by simp
  then have "take (p + k + n - p) (drop p (take (p + k) (transmit_buf s) @ buf)) =
      take k (drop p (transmit_buf s)) @ take n buf"
    using y(2) by (simp add: y_def [symmetric])
  then show ?thesis using assms m by (simp add: tx_ok_def tx_pending_def p_def [symmetric])
qed

definition encoder_ok :: "command_encoder \<Rightarrow> bool" where
  "encoder_ok ce \<longleftrightarrow> MESSAGE_MIN \<le> unat (ce_min_size ce) \<and> MESSAGE_MIN \<le> unat (ce_max_size ce) \<and>
     unat (ce_max_size ce) \<le> MESSAGE_MAX"

lemma console_sendf_spec:
  assumes t: "tx_ok s" and ce: "encoder_ok ce" "args_match (ce_param_types ce) args"
    and seq: "next_sequence s AND NOT MESSAGE_SEQ_MASK = MESSAGE_DEST"
  shows "\<exists>s' out. console_sendf ce args s = Ok () s' \<and> tx_ok s' \<and> tx_pending s' = tx_pending s @ out \<and>
     (out = [] \<or> valid_block out)"
  using sendf_make_room_spec [OF t, of ce]
proof
  assume "\<exists>s'. sendf_make_room ce s = (None, s') \<and> tx_ok s' \<and> tx_pending s' = tx_pending s \<and>
       length (tx_pending s) + unat (ce_min_size ce) > TX_BUFFER_SIZE"
  then show ?thesis by (auto simp: console_sendf_def)
next
  assume "\<exists>m s'. sendf_make_room ce s = (Some m, s') \<and> tx_ok s' \<and> tx_pending s' = tx_pending s \<and>
       transmit_max s' = m \<and> next_sequence s' = next_sequence s \<and> mach_avr s' = mach_avr s \<and>
       (m + unat (ce_max_size ce) \<le> TX_BUFFER_SIZE \<or>
        m = length (tx_pending s) \<and> m + unat (ce_min_size ce) \<le> TX_BUFFER_SIZE)"
  then obtain s1 where r: "sendf_make_room ce s = (Some (transmit_max s1), s1)" "tx_ok s1"
    "tx_pending s1 = tx_pending s" "next_sequence s1 = next_sequence s" "mach_avr s1 = mach_avr s"
    "transmit_max s1 + 5 \<le> 96"
    using ce(1) by (auto simp: encoder_ok_def)
  let ?b = "drop (transmit_max s1) (transmit_buf s1)"
  have lb: "length ?b = 96 - transmit_max s1" using r(2) by (simp add: tx_ok_def)
  have "5 \<le> 96 - transmit_max s1" using r(6) by simp
  then obtain n buf where e: "command_encode_and_frame (mach_avr s1) (next_sequence s1) ?b (96 - transmit_max s1) ce args
      = Encoded n buf" "length buf = 96 - transmit_max s1" "n \<le> 96 - transmit_max s1"
    "n \<noteq> 0 \<longrightarrow> valid_block (take n buf)"
    using encode_and_frame_bounds [OF ce(2), of "96 - transmit_max s1" ?b "next_sequence s1" "mach_avr s1"]
      lb r(4,6) seq ce(1) by (auto simp: encoder_ok_def)
  note a = tx_pending_append [OF r(2) e(2), of n]
  show ?thesis
  proof (cases "n = 0")
    case True
    then show ?thesis using r e a by (auto simp: console_sendf_def Let_def)
  next
    case False
    then show ?thesis using r e a by (auto simp: console_sendf_def Let_def)
  qed
qed

lemma console_ack_spec:
  assumes t: "tx_ok s"
  shows "console_sendf encode_acknak [] s = Fault \<longleftrightarrow> length (tx_pending s) > TX_BUFFER_SIZE - MESSAGE_MIN"
proof -
  have z: "unat (ce_min_size encode_acknak) = 0" "unat (ce_max_size encode_acknak) = 5"
    by (simp_all add: encode_acknak_def)
  have lp: "length (tx_pending s) \<le> 96" using t by (simp add: tx_ok_def tx_pending_def)
  from sendf_make_room_spec [OF t, of encode_acknak] lp obtain s1 where
    r: "sendf_make_room encode_acknak s = (Some (transmit_max s1), s1)" "tx_ok s1"
    "transmit_max s1 + 5 \<le> 96 \<or> transmit_max s1 = length (tx_pending s)"
    and p: "tx_pending s1 = tx_pending s"
    by (auto simp: z)
  let ?b = "drop (transmit_max s1) (transmit_buf s1)"
  have lb: "length ?b = 96 - transmit_max s1" "transmit_max s1 \<le> 96" using r(2) by (simp_all add: tx_ok_def)
  have e: "command_encodef (mach_avr s1) ?b (96 - transmit_max s1) encode_acknak [] = Encoded 5 ?b"
    by (simp add: command_encodef_def Let_def z)
  have "length (tx_pending s1) \<le> transmit_max s1" by (simp add: tx_pending_def)
  then have lq: "length (tx_pending s) \<le> transmit_max s1" by (simp add: p)
  show ?thesis
  proof (cases "transmit_max s1 + 5 \<le> 96")
    case True
    with lb have "5 \<le> length ?b" by linarith
    then obtain b2 where "command_add_frame (next_sequence s1) ?b 5 = Some b2"
      using command_add_frame_block [of 5 ?b "next_sequence s1"] by blast
    with True lq show ?thesis by (simp add: console_sendf_def r(1) command_encode_and_frame_def e Let_def)
  next
    case False
    then have "command_add_frame (next_sequence s1) ?b 5 = None" using lb by (simp add: command_add_frame_def)
    then have "console_sendf encode_acknak [] s = Fault"
      by (simp add: console_sendf_def r(1) command_encode_and_frame_def e)
    with False r(3) show ?thesis by auto
  qed
qed

text \<open>A message with one integer, with its exact length.\<close>

lemma encodef_one_int:
  assumes "ce_param_types ce = [PT_uint32]" "ce_encoded_msgid ce < 0x80" "unat (ce_max_size ce) = 11"
    and m: "m = min buf_size 11" "buf_size \<le> length buf" "8 \<le> m" "6 + length (encode_int v) \<le> m"
  shows "\<exists>buf'. command_encodef int16 buf buf_size ce [A_int v] = Encoded (6 + length (encode_int v)) buf' \<and>
     length buf' = length buf"
proof -
  let ?L = "length (encode_int v)"
  have ms: "length (encode_msgid (ce_encoded_msgid ce)) = 1" using assms(2) by (simp add: encode_msgid_def)
  obtain b1 where b1: "write_at buf 2 (encode_msgid (ce_encoded_msgid ce)) = Some b1"
    using m ms by (auto simp: write_at_def)
  obtain b2 where b2: "write_at b1 3 (encode_int v) = Some b2"
    using m write_at_length [OF b1] by (auto simp: write_at_def)
  have mx: "(if buf_size < 11 then buf_size else 11) = m" using m(1) by auto
  have ep: "encode_param int16 (int m - 3) PT_uint32 (A_int v) 3 = Bytes (encode_int v)"
    by (simp add: encode_param_def is_int_type_def arg_value_def)
  have "command_encodef int16 buf buf_size ce [A_int v] = Encoded (3 + ?L + 3) b2"
    unfolding command_encodef_def Let_def assms(1,3) mx using m(3,4) b1 b2 ms ep by simp
  then show ?thesis using write_at_length [OF b1] write_at_length [OF b2] by (simp add: numeral_eq_Suc)
qed

lemma console_sendf_one_int:
  assumes t: "tx_ok s" "transmit_pos s = 0" "transmit_max s = m"
    and ce: "ce_param_types ce = [PT_uint32]" "ce_encoded_msgid ce < 0x80" "ce_max_size ce = 11"
      "ce_min_size ce = 7"
    and L: "m + 11 \<le> TX_BUFFER_SIZE \<or> m + 8 \<le> TX_BUFFER_SIZE \<and> length (encode_int v) \<le> 2"
  shows "\<exists>s'. console_sendf ce [A_int v] s = Ok () s' \<and> tx_ok s' \<and> transmit_pos s' = 0 \<and>
     transmit_max s' = m + 6 + length (encode_int v)"
proof -
  let ?L = "length (encode_int v)"
  have "\<exists>s1. sendf_make_room ce s = (Some m, s1) \<and> length (transmit_buf s1) = 96 \<and>
      transmit_pos s1 = 0 \<and> transmit_max s1 = m"
    using t ce(3,4) L
    by (cases "m = 0"; cases "m + 11 \<le> 96") (auto simp: sendf_make_room_def Let_def tx_ok_def memmove_def)
  then obtain s1 where r: "sendf_make_room ce s = (Some m, s1)" "length (transmit_buf s1) = 96"
    "transmit_pos s1 = 0" "transmit_max s1 = m" by blast
  define M where "M = min (96 - m) 11"
  have m8: "8 \<le> M" "6 + ?L \<le> M" "6 + ?L \<le> 96 - m"
    using L encode_int_length [of v] by (auto simp: M_def min_def)
  obtain b where e: "command_encodef (mach_avr s1) (drop m (transmit_buf s1)) (96 - m) ce [A_int v] = Encoded (6 + ?L) b"
    "length b = 96 - m"
    using encodef_one_int [OF ce(1,2) _ M_def, of "drop m (transmit_buf s1)" v "mach_avr s1"] m8 r(2) ce(3) by auto
  obtain b2 where f: "command_add_frame (next_sequence s1) b (6 + ?L) = Some b2" "length b2 = 96 - m"
    using command_add_frame_block [of "6 + ?L" b "next_sequence s1"] e(2) m8 by auto
  have "console_sendf ce [A_int v] s =
      Ok () (s1\<lparr>transmit_buf := take m (transmit_buf s1) @ b2, transmit_max := m + (6 + ?L)\<rparr>)"
    by (simp add: console_sendf_def r(1) command_encode_and_frame_def e f Let_def)
  then show ?thesis using r f m8 by (auto simp: tx_ok_def)
qed

section \<open>Properties\<close>

definition demo_serial :: serial where
  "demo_serial = command.extend demo_command
     \<lparr>have_bootloader_request = False, receive_buf = replicate 192 0, receive_pos = 4,
      transmit_buf = replicate 96 0, transmit_pos = 0, transmit_max = 0\<rparr>"

lemmas demo_serial_simps = demo_serial_def command.defs demo_command_simps



text \<open>
  C32: sending a message whose encoder states a minimum size never writes outside the transmit
  buffer; the bytes waiting for transmission stay, followed by nothing or by one valid block.
\<close>

theorem console_sendf_in_bounds:
  assumes "tx_ok s" "encoder_ok ce" "args_match (ce_param_types ce) args"
    and "next_sequence s AND NOT MESSAGE_SEQ_MASK = MESSAGE_DEST"
  shows "\<exists>s' out. console_sendf ce args s = Ok () s' \<and> tx_ok s' \<and> tx_pending s' = tx_pending s @ out \<and>
     (out = [] \<or> valid_block out)"
  by (rule console_sendf_spec) (fact assms)+

definition demo_clock :: command_encoder where
  "demo_clock = \<lparr>ce_encoded_msgid = 5, ce_max_size = 11, ce_min_size = 7, ce_param_types = [PT_uint32]\<rparr>"

theorem console_sendf_in_bounds_witness:
  "\<exists>s' out. console_sendf demo_clock [A_int 1000] demo_serial = Ok () s' \<and> tx_ok s' \<and>
     tx_pending s' = tx_pending demo_serial @ out \<and> (out = [] \<or> valid_block out)"
  by (rule console_sendf_in_bounds)
    (simp_all add: tx_ok_def encoder_ok_def demo_clock_def is_int_type_def demo_serial_simps)

text \<open>
  C33: an ack or nak, whose encoder states no minimum size, is written without regard to the space
  left: it runs past the end of the transmit buffer exactly when more than 91 of its 96 bytes
  are still waiting for transmission. The witness reaches this state from an empty buffer by nine
  responses that are sent faster than they are transmitted.
\<close>

theorem console_ack_overflow:
  assumes "tx_ok s"
  shows "console_sendf encode_acknak [] s = Fault \<longleftrightarrow> length (tx_pending s) > TX_BUFFER_SIZE - MESSAGE_MIN"
  by (rule console_ack_spec) (fact assms)

theorem console_ack_overflow_witness:
  "andthen (foldl (\<lambda>r v. andthen r (\<lambda>_. console_sendf demo_clock [A_int v])) (Ok () demo_serial)
      (replicate 8 0x12345678 @ [3])) (\<lambda>_. console_sendf encode_acknak []) = Fault"
proof -
  let ?send = "\<lambda>r v. andthen r (\<lambda>_. console_sendf demo_clock [A_int v])"
  have L: "length (encode_int 0x12345678) = 5" "length (encode_int 3) = 1" by code_simp+
  note one = console_sendf_one_int [where ce = demo_clock, simplified demo_clock_def, simplified, folded demo_clock_def]
  have "\<exists>s. foldl ?send (Ok () demo_serial) (replicate k 0x12345678) = Ok () s \<and> tx_ok s \<and>
      transmit_pos s = 0 \<and> transmit_max s = 11 * k" if "k \<le> 8" for k
    using that
  proof (induction k)
    case 0
    show ?case by (simp add: tx_ok_def demo_serial_simps)
  next
    case (Suc k)
    then obtain s where s: "foldl ?send (Ok () demo_serial) (replicate k 0x12345678) = Ok () s" "tx_ok s"
      "transmit_pos s = 0" "transmit_max s = 11 * k" by auto
    from one [OF s(2,3,4), of "0x12345678"] Suc.prems L obtain s' where
      s': "console_sendf demo_clock [A_int 0x12345678] s = Ok () s'" "tx_ok s'" "transmit_pos s' = 0"
      "transmit_max s' = 11 * Suc k" by auto
    have "replicate (Suc k) 0x12345678 = replicate k 0x12345678 @ [0x12345678 :: u32]"
      by (simp add: replicate_append_same)
    then show ?case using s s' by (simp del: replicate.simps)
  qed
  from this [of 8] obtain s where s: "foldl ?send (Ok () demo_serial) (replicate 8 0x12345678) = Ok () s"
    "tx_ok s" "transmit_pos s = 0" "transmit_max s = 88" by auto
  from one [OF s(2,3,4), of 3] L obtain s' where
    s': "console_sendf demo_clock [A_int 3] s = Ok () s'" "tx_ok s'" "transmit_pos s' = 0" "transmit_max s' = 95"
    by auto
  then have "length (tx_pending s') = 95" by (simp add: tx_pending_def tx_ok_def)
  with console_ack_overflow [OF s'(2)] s s' show ?thesis by simp
qed

end
