(* ===== verification/Stepper.thy ===== *)
theory Stepper
  imports Basecmd_Props
begin

text \<open>
  The stepper driver of the firmware (\<^verbatim>\<open>src/src/stepper.c\<close>). A stepper is the object at the
  address its object id resolves to; its timer is the first timer of the object. Moves are nodes
  of the move pool, with their own fields in the map \<open>smoves\<close>.
\<close>

section \<open>State\<close>

record stepper_move =
  sm_interval :: u32
  sm_add :: u16
  sm_count :: u16
  sm_flags :: u8

record stepper =
  interval :: u32
  st_add :: u16
  st_count :: u32
  next_step_time :: u32
  step_pulse_ticks :: u32
  step_pin :: u32
  dir_pin :: u32
  position :: u32
  st_mq :: move_queue_head
  st_flags :: u8
  stop_next :: "nat option"    \<comment> \<open>\<^verbatim>\<open>stop_signal.next\<close>\<close>
  stop_func :: bool            \<comment> \<open>\<^verbatim>\<open>stop_signal.func\<close> is set (to \<^verbatim>\<open>stepper_stop\<close>)\<close>

record motion = basecmd +
  sizeof_stepper :: nat
  sizeof_stepper_move :: nat
  steppers :: "nat \<Rightarrow> stepper"
  smoves :: "nat \<Rightarrow> stepper_move"

abbreviation (input) MF_DIR :: u8 where "MF_DIR \<equiv> 1"
abbreviation (input) POSITION_BIAS :: u32 where "POSITION_BIAS \<equiv> 0x40000000"
abbreviation (input) SF_LAST_DIR :: u8 where "SF_LAST_DIR \<equiv> 1"
abbreviation (input) SF_NEXT_DIR :: u8 where "SF_NEXT_DIR \<equiv> 2"
abbreviation (input) SF_INVERT_STEP :: u8 where "SF_INVERT_STEP \<equiv> 4"
abbreviation (input) SF_NEED_RESET :: u8 where "SF_NEED_RESET \<equiv> 8"
abbreviation (input) SF_SINGLE_SCHED :: u8 where "SF_SINGLE_SCHED \<equiv> 16"
abbreviation (input) SF_OPTIMIZED_PATH :: u8 where "SF_OPTIMIZED_PATH \<equiv> 32"
abbreviation (input) SF_HAVE_ADD :: u8 where "SF_HAVE_ADD \<equiv> 64"

definition has :: "u8 \<Rightarrow> u8 \<Rightarrow> bool" where
  "has flags f \<longleftrightarrow> flags AND f \<noteq> 0"

definition have_edge_optimization :: "'z board_scheme \<Rightarrow> bool" where
  "have_edge_optimization s \<longleftrightarrow> inline_stepper_hack s \<and> want_both_edge s"

definition have_avr_optimization :: "'z board_scheme \<Rightarrow> bool" where
  "have_avr_optimization s \<longleftrightarrow> inline_stepper_hack s \<and> \<not> want_both_edge s \<and> mach_avr s"

abbreviation (input) stepper_timer :: "nat \<Rightarrow> tmr" where "stepper_timer d \<equiv> Obj_timer d 0"

definition upd_stepper :: "nat \<Rightarrow> (stepper \<Rightarrow> stepper) \<Rightarrow> 'z motion_scheme \<Rightarrow> 'z motion_scheme" where
  "upd_stepper d f s = s\<lparr>steppers := (steppers s)(d := f (steppers s d))\<rparr>"

text \<open>The memory of an object after \<^verbatim>\<open>memset\<close>.\<close>

definition zero_stepper :: stepper where
  "zero_stepper = \<lparr>interval = 0, st_add = 0, st_count = 0, next_step_time = 0, step_pulse_ticks = 0,
     step_pin = 0, dir_pin = 0, position = 0, st_mq = \<lparr>mq_first = None, mq_last = None\<rparr>, st_flags = 0,
     stop_next = None, stop_func = False\<rparr>"

definition zero_timer :: "tmr \<Rightarrow> 'z sched_scheme \<Rightarrow> 'z sched_scheme" where
  "zero_timer t s = s\<lparr>t_next := (t_next s)(t := None), t_func := (t_func s)(t := None), t_wake := (t_wake s)(t := 0)\<rparr>"

section \<open>Loading the next move\<close>

text \<open>
  The busy loop that waits for the clock; the result is the number of clock reads after it. A
  clock that stays before the time never ends the loop.
\<close>

partial_function (option) busy_wait :: "(nat \<Rightarrow> u32) \<Rightarrow> nat \<Rightarrow> u32 \<Rightarrow> nat option" where
  "busy_wait tm n target =
     (if timer_is_before (tm n) target then busy_wait tm (Suc n) target else Some (Suc n))"

text \<open>The branch for the fully scheduled path.\<close>

definition load_next_full ::
  "nat \<Rightarrow> u32 \<Rightarrow> u16 \<Rightarrow> bool \<Rightarrow> 'z motion_scheme \<Rightarrow> (sched_ret, 'z motion_scheme) outcome"
where
  "load_next_full d mv_interval mv_count need_dir_change s =
     (let t = stepper_timer d;
          was_active = (st_count (steppers s d) \<noteq> 0);
          min_next_time = t_wake s t;
          nst = next_step_time (steppers s d) + mv_interval;
          s = upd_stepper d (\<lambda>st. st\<lparr>next_step_time := nst\<rparr>) s;
          s = set_wake t nst s;
          s = upd_stepper d (\<lambda>st. st\<lparr>st_count :=
                (if has (st_flags st) SF_SINGLE_SCHED then ucast mv_count else ucast mv_count * 2)\<rparr>) s
      in andthen
           (if was_active \<and> timer_is_before nst min_next_time
            then if sint (nst - min_next_time) < sint (- timer_from_us s 1000)
                 then sched_shutdown ''Stepper too far in past'' s
                 else Ok () (set_wake t min_next_time s)
            else Ok () s)
           (\<lambda>_ s.
             if was_active \<and> need_dir_change
             then andthen
                    (if has (st_flags (steppers s d)) SF_SINGLE_SCHED
                     then (case busy_wait (hw_time s) (hw_reads s) min_next_time of
                             None \<Rightarrow> Fault
                           | Some n \<Rightarrow> Ok () (s\<lparr>hw_reads := n\<rparr>))
                     else Ok () s)
                    (\<lambda>_ s.
                      let s = emit (Gpio_toggle (dir_pin (steppers s d))) s;
                          (curtime, s) = timer_read_time s;
                          min_next_time = curtime + step_pulse_ticks (steppers s d);
                          s = (if timer_is_before (t_wake s t) min_next_time
                               then set_wake t min_next_time s else s)
                      in Ok SF_RESCHEDULE s)
             else Ok SF_RESCHEDULE
                    (if need_dir_change then emit (Gpio_toggle (dir_pin (steppers s d))) s else s)))"

definition stepper_load_next :: "nat \<Rightarrow> 'z motion_scheme \<Rightarrow> (sched_ret, 'z motion_scheme) outcome" where
  "stepper_load_next d s =
     (let t = stepper_timer d in
      if move_queue_empty (st_mq (steppers s d))
      then Ok SF_DONE (upd_stepper d (\<lambda>st. st\<lparr>st_count := 0\<rparr>) s)
      else case move_queue_pop (st_mq (steppers s d)) s of
             None \<Rightarrow> Fault
           | Some (mn, mq') \<Rightarrow>
               let m = smoves s mn;
                   mv_interval = sm_interval m;
                   mv_count = sm_count m;
                   mv_add = sm_add m;
                   need_dir_change = has (sm_flags m) MF_DIR;
                   s = upd_stepper d (\<lambda>st. st\<lparr>st_mq := mq'\<rparr>) s;
                   s = move_free mn s;
                   s = upd_stepper d (\<lambda>st. st\<lparr>
                         position := (if need_dir_change then - position st else position st) + ucast mv_count,
                         st_add := mv_add, interval := mv_interval + scast mv_add\<rparr>) s;
                   opt = has (st_flags (steppers s d)) SF_OPTIMIZED_PATH;
                   toggle_dir = (\<lambda>s. if need_dir_change
                                     then emit (Gpio_toggle (dir_pin (steppers s d))) s else s)
               in if have_edge_optimization s \<and> opt
                  then let s = set_wake t (t_wake s t + mv_interval) s;
                           s = upd_stepper d (\<lambda>st. st\<lparr>st_count := ucast mv_count\<rparr>) s
                       in Ok SF_RESCHEDULE (toggle_dir s)
                  else if have_avr_optimization s \<and> opt
                  then let s = set_wake t (t_wake s t + mv_interval) s;
                           s = upd_stepper d (\<lambda>st. st\<lparr>st_count := ucast mv_count,
                                 st_flags := (if mv_add \<noteq> 0 then st_flags st OR SF_HAVE_ADD
                                              else st_flags st AND NOT SF_HAVE_ADD)\<rparr>) s
                       in Ok SF_RESCHEDULE (toggle_dir s)
                  else load_next_full d mv_interval mv_count need_dir_change s)"

section \<open>Step events\<close>

definition stepper_event_edge :: "nat \<Rightarrow> 'z motion_scheme \<Rightarrow> (sched_ret, 'z motion_scheme) outcome" where
  "stepper_event_edge d s =
     (let t = stepper_timer d;
          s = emit (Gpio_toggle (step_pin (steppers s d))) s;
          count = st_count (steppers s d) - 1
      in if count \<noteq> 0
         then let s = upd_stepper d (\<lambda>st. st\<lparr>st_count := count\<rparr>) s;
                  s = set_wake t (t_wake s t + interval (steppers s d)) s;
                  s = upd_stepper d (\<lambda>st. st\<lparr>interval := interval st + scast (st_add st)\<rparr>) s
              in Ok SF_RESCHEDULE s
         else stepper_load_next d s)"

text \<open>The AVR code decrements the low half of the counter.\<close>

definition stepper_event_avr :: "nat \<Rightarrow> 'z motion_scheme \<Rightarrow> (sched_ret, 'z motion_scheme) outcome" where
  "stepper_event_avr d s =
     (let t = stepper_timer d;
          s = emit (Gpio_toggle (step_pin (steppers s d))) s;
          count = (ucast (st_count (steppers s d)) :: u16) - 1
      in if count \<noteq> 0
         then let s = upd_stepper d (\<lambda>st. st\<lparr>st_count := (st_count st AND 0xffff0000) OR ucast count\<rparr>) s;
                  s = set_wake t (t_wake s t + interval (steppers s d)) s;
                  s = emit (Gpio_toggle (step_pin (steppers s d))) s;
                  s = (if has (st_flags (steppers s d)) SF_HAVE_ADD
                       then upd_stepper d (\<lambda>st. st\<lparr>interval := interval st + scast (st_add st)\<rparr>) s else s)
              in Ok SF_RESCHEDULE s
         else andthen (stepper_load_next d s)
                (\<lambda>ret s. Ok ret (emit (Gpio_toggle (step_pin (steppers s d))) s)))"

definition stepper_event_full :: "nat \<Rightarrow> 'z motion_scheme \<Rightarrow> (sched_ret, 'z motion_scheme) outcome" where
  "stepper_event_full d s =
     (let t = stepper_timer d;
          s = emit (Gpio_toggle (step_pin (steppers s d))) s;
          (curtime, s) = timer_read_time s;
          min_next_time = curtime + step_pulse_ticks (steppers s d);
          count = st_count (steppers s d) - 1;
          reschedule_min = (\<lambda>s. Ok SF_RESCHEDULE
            (set_wake t min_next_time (upd_stepper d (\<lambda>st. st\<lparr>st_count := count\<rparr>) s)))
      in if count AND 1 \<noteq> 0 \<and> \<not> has (st_flags (steppers s d)) SF_SINGLE_SCHED then reschedule_min s
         else if count \<noteq> 0
         then let s = upd_stepper d (\<lambda>st. st\<lparr>next_step_time := next_step_time st + interval st\<rparr>) s;
                  s = upd_stepper d (\<lambda>st. st\<lparr>interval := interval st + scast (st_add st)\<rparr>) s
              in if timer_is_before (next_step_time (steppers s d)) min_next_time then reschedule_min s
                 else let s = upd_stepper d (\<lambda>st. st\<lparr>st_count := count\<rparr>) s
                      in Ok SF_RESCHEDULE (set_wake t (next_step_time (steppers s d)) s)
         else stepper_load_next d (set_wake t min_next_time s))"

definition stepper_event :: "nat \<Rightarrow> 'z motion_scheme \<Rightarrow> (sched_ret, 'z motion_scheme) outcome" where
  "stepper_event d s =
     (if have_edge_optimization s then stepper_event_edge d s
      else if have_avr_optimization s then stepper_event_avr d s
      else stepper_event_full d s)"

text \<open>What a stepper's timer calls: a NULL \<^verbatim>\<open>func\<close> means the inlined \<^verbatim>\<open>stepper_event\<close>.\<close>

definition stepper_call :: "'z motion_ext basecmd_ext timer_call" where
  "stepper_call f t s =
     (case t of
        Obj_timer d _ \<Rightarrow>
          (case f of None \<Rightarrow> stepper_event d s | Some Stepper_event_full \<Rightarrow> stepper_event_full d s | _ \<Rightarrow> Fault)
      | _ \<Rightarrow> Fault)"

section \<open>Commands\<close>

definition EDGE_STEP_TICKS :: "'z board_scheme \<Rightarrow> u32" where
  "EDGE_STEP_TICKS s = div_round_up (clock_freq s) 8000000"

abbreviation (input) AVR_STEP_TICKS :: u32 where "AVR_STEP_TICKS \<equiv> 40"

definition config_stepper_init :: "nat \<Rightarrow> u32 list \<Rightarrow> 'z motion_scheme \<Rightarrow> 'z motion_scheme" where
  "config_stepper_init d args s =
     (let s = upd_stepper d (\<lambda>_. zero_stepper) (zero_timer (stepper_timer d) s);
          invert_step = sint (ucast (args ! 3) :: u8);
          s = upd_stepper d (\<lambda>st. st\<lparr>st_flags :=
                (if invert_step > 0 then SF_INVERT_STEP
                 else if invert_step < 0 then SF_SINGLE_SCHED else st_flags st)\<rparr>) s;
          s = emit (Gpio_setup (args ! 1) (has (st_flags (steppers s d)) SF_INVERT_STEP)) s;
          s = emit (Gpio_setup (args ! 2) False) s
      in upd_stepper d (\<lambda>st. st\<lparr>step_pin := args ! 1, dir_pin := args ! 2,
           position := - POSITION_BIAS, step_pulse_ticks := args ! 4\<rparr>) s)"

text \<open>The choice of the event handler.\<close>

definition config_stepper_path :: "nat \<Rightarrow> u32 list \<Rightarrow> 'z motion_scheme \<Rightarrow> 'z motion_scheme" where
  "config_stepper_path d args s =
     (let invert_step = sint (ucast (args ! 3) :: u8);
          full = set_func (stepper_timer d) (Some Stepper_event_full) s
      in if have_edge_optimization s
         then if invert_step < 0 \<and> step_pulse_ticks (steppers s d) \<le> EDGE_STEP_TICKS s
              then upd_stepper d (\<lambda>st. st\<lparr>st_flags := st_flags st OR SF_OPTIMIZED_PATH\<rparr>) s
              else full
         else if have_avr_optimization s
         then if invert_step \<ge> 0 \<and> step_pulse_ticks (steppers s d) \<le> AVR_STEP_TICKS
              then upd_stepper d (\<lambda>st. st\<lparr>st_flags := st_flags st OR (SF_SINGLE_SCHED OR SF_OPTIMIZED_PATH)\<rparr>) s
              else full
         else if \<not> inline_stepper_hack s then full else s)"

definition command_config_stepper :: "u32 list \<Rightarrow> 'z motion_scheme \<Rightarrow> (unit, 'z motion_scheme) outcome" where
  "command_config_stepper args s =
     andthen (oid_alloc (args ! 0) Stepper_oid (sizeof_stepper s) s)
       (\<lambda>d s.
         let s = config_stepper_init d args s in
         andthen (move_queue_setup (sizeof_stepper_move s) s)
           (\<lambda>mh s. Ok () (config_stepper_path d args (upd_stepper d (\<lambda>st. st\<lparr>st_mq := mh\<rparr>) s))))"

definition stepper_oid_lookup :: "u32 \<Rightarrow> 'z motion_scheme \<Rightarrow> (nat, 'z motion_scheme) outcome" where
  "stepper_oid_lookup arg s = oid_lookup arg Stepper_oid s"

definition queue_step_push :: "nat \<Rightarrow> nat \<Rightarrow> 'z motion_scheme \<Rightarrow> (unit, 'z motion_scheme) outcome" where
  "queue_step_push d m s =
     (case move_queue_push m (st_mq (steppers s d)) s of
        None \<Rightarrow> Fault
      | Some (_, mh, s) \<Rightarrow> Ok () (upd_stepper d (\<lambda>st. st\<lparr>st_mq := mh\<rparr>) s))"

text \<open>The part of \<^verbatim>\<open>queue_step\<close> that runs with interrupts disabled.\<close>

definition queue_step_insert :: "nat \<Rightarrow> nat \<Rightarrow> 'z motion_scheme \<Rightarrow> (unit, 'z motion_scheme) outcome" where
  "queue_step_insert d m s =
     (let flags = st_flags (steppers s d);
          change = (has flags SF_LAST_DIR \<noteq> has flags SF_NEXT_DIR);
          flags = (if change then flags XOR SF_LAST_DIR else flags);
          s = (if change
               then s\<lparr>smoves := (smoves s)(m := (smoves s m)\<lparr>sm_flags := sm_flags (smoves s m) OR MF_DIR\<rparr>)\<rparr>
               else s)
      in if st_count (steppers s d) \<noteq> 0
         then queue_step_push d m (upd_stepper d (\<lambda>st. st\<lparr>st_flags := flags\<rparr>) s)
         else if has flags SF_NEED_RESET then Ok () (move_free m s)
         else andthen (queue_step_push d m (upd_stepper d (\<lambda>st. st\<lparr>st_flags := flags\<rparr>) s))
                (\<lambda>_ s. andthen (stepper_load_next d s)
                  (\<lambda>_ s. sched_add_timer (stepper_timer d) s)))"

definition command_queue_step :: "u32 list \<Rightarrow> 'z motion_scheme \<Rightarrow> (unit, 'z motion_scheme) outcome" where
  "command_queue_step args s =
     andthen (stepper_oid_lookup (args ! 0) s)
       (\<lambda>d s. andthen (move_alloc s)
         (\<lambda>m s.
           let s = s\<lparr>smoves := (smoves s)(m := (smoves s m)\<lparr>sm_interval := args ! 1, sm_count := ucast (args ! 2)\<rparr>)\<rparr> in
           if sm_count (smoves s m) = 0 then sched_shutdown ''Invalid count parameter'' s
           else
             let s = s\<lparr>smoves := (smoves s)(m := (smoves s m)\<lparr>sm_add := ucast (args ! 3), sm_flags := 0\<rparr>)\<rparr>
             in andthen (queue_step_insert d m (irq_disable s)) (\<lambda>_ s. Ok () (irq_enable s))))"

definition command_set_next_step_dir :: "u32 list \<Rightarrow> 'z motion_scheme \<Rightarrow> (unit, 'z motion_scheme) outcome" where
  "command_set_next_step_dir args s =
     andthen (stepper_oid_lookup (args ! 0) s)
       (\<lambda>d s.
         let nextdir = (if args ! 1 \<noteq> 0 then SF_NEXT_DIR else 0);
             s = irq_disable s;
             s = upd_stepper d (\<lambda>st. st\<lparr>st_flags := (st_flags st AND NOT SF_NEXT_DIR) OR nextdir\<rparr>) s
         in Ok () (irq_enable s))"

definition command_reset_step_clock :: "u32 list \<Rightarrow> 'z motion_scheme \<Rightarrow> (unit, 'z motion_scheme) outcome" where
  "command_reset_step_clock args s =
     andthen (stepper_oid_lookup (args ! 0) s)
       (\<lambda>d s.
         let waketime = args ! 1; s = irq_disable s in
         if st_count (steppers s d) \<noteq> 0
         then sched_shutdown ''Can't reset time when stepper active'' s
         else let s = set_wake (stepper_timer d) waketime s;
                  s = upd_stepper d (\<lambda>st. st\<lparr>next_step_time := waketime,
                        st_flags := st_flags st AND NOT SF_NEED_RESET\<rparr>) s
              in Ok () (irq_enable s))"

definition stepper_get_position :: "stepper \<Rightarrow> u32" where
  "stepper_get_position st =
     (let pos = position st;
          pos = (if has (st_flags st) SF_SINGLE_SCHED then pos - st_count st else pos - st_count st div 2)
      in if pos AND 0x80000000 \<noteq> 0 then - pos else pos)"

definition command_stepper_get_position :: "u32 list \<Rightarrow> 'z motion_scheme \<Rightarrow> (unit, 'z motion_scheme) outcome"
where
  "command_stepper_get_position args s =
     (let oid = ucast (ucast (args ! 0) :: u8) :: u32 in
      andthen (stepper_oid_lookup oid s)
        (\<lambda>d s.
          let s = irq_disable s;
              pos = stepper_get_position (steppers s d);
              s = irq_enable s
          in Ok () (emit (Sendf ''stepper_position oid=%c pos=%i'' [oid, pos - POSITION_BIAS] []) s)))"

text \<open>The loop of \<^verbatim>\<open>stepper_stop\<close> that frees the queued moves.\<close>

partial_function (option) stop_free_loop ::
  "move_queue_head \<Rightarrow> 'z basecmd_scheme \<Rightarrow> (move_queue_head \<times> 'z basecmd_scheme) option"
where
  "stop_free_loop mh s =
     (if move_queue_empty mh then Some (mh, s)
      else case move_queue_pop mh s of
             None \<Rightarrow> None
           | Some (mn, mh') \<Rightarrow> stop_free_loop mh' (move_free mn s))"

text \<open>The part of \<^verbatim>\<open>stepper_stop\<close> between taking the timer off the list and freeing the moves.\<close>

definition stepper_stop_reset :: "nat \<Rightarrow> 'z motion_scheme \<Rightarrow> 'z motion_scheme" where
  "stepper_stop_reset d s =
     (let s = set_wake (stepper_timer d) 0 s;
          s = upd_stepper d (\<lambda>st. st\<lparr>next_step_time := 0\<rparr>) s;
          s = upd_stepper d (\<lambda>st. st\<lparr>position := - stepper_get_position st\<rparr>) s;
          s = upd_stepper d (\<lambda>st. st\<lparr>st_count := 0, st_flags :=
                (st_flags st AND (SF_INVERT_STEP OR SF_SINGLE_SCHED OR SF_OPTIMIZED_PATH)) OR SF_NEED_RESET\<rparr>) s;
          s = emit (Gpio_write (dir_pin (steppers s d)) False) s;
          flags = st_flags (steppers s d)
      in if \<not> has flags SF_SINGLE_SCHED \<or> (have_avr_optimization s \<and> has flags SF_OPTIMIZED_PATH)
         then emit (Gpio_write (step_pin (steppers s d)) (has flags SF_INVERT_STEP)) s else s)"

definition stepper_stop :: "nat \<Rightarrow> 'z motion_scheme \<Rightarrow> (unit, 'z motion_scheme) outcome" where
  "stepper_stop d s =
     andthen (sched_del_timer (stepper_timer d) s)
       (\<lambda>_ s.
         let s = stepper_stop_reset d s in
         case stop_free_loop (st_mq (steppers s d)) s of
           None \<Rightarrow> Fault
         | Some (mh, s) \<Rightarrow> Ok () (upd_stepper d (\<lambda>st. st\<lparr>st_mq := mh\<rparr>) s))"

fun stepper_shutdown_list :: "(u8 \<times> nat) list \<Rightarrow> 'z motion_scheme \<Rightarrow> (unit, 'z motion_scheme) outcome" where
  "stepper_shutdown_list [] s = Ok () s"
| "stepper_shutdown_list ((i, d) # ds) s =
     (let s = upd_stepper d (\<lambda>st. st\<lparr>st_mq := move_queue_clear (st_mq st)\<rparr>) s
      in andthen (stepper_stop d s) (\<lambda>_ s. stepper_shutdown_list ds s))"

definition stepper_shutdown :: "'z motion_scheme \<Rightarrow> (unit, 'z motion_scheme) outcome" where
  "stepper_shutdown s = stepper_shutdown_list (foreach_oid Stepper_oid s) s"

end
