(* ===== verification/Stepper_Props.thy ===== *)
theory Stepper_Props
  imports Stepper
begin

text \<open>
  Properties of \<^verbatim>\<open>src/src/stepper.c\<close>: the times of the steps of a move, the position reported for
  a stepper in the middle of a move, and what stopping a stepper leaves behind.
\<close>

section \<open>Position\<close>

definition remaining :: "stepper \<Rightarrow> u32" where
  "remaining st = (if has (st_flags st) SF_SINGLE_SCHED then st_count st else st_count st div 2)"

definition raw_position :: "stepper \<Rightarrow> u32" where
  "raw_position st = position st - remaining st"

text \<open>The value \<^verbatim>\<open>stepper_get_position\<close> makes of the raw position, whose top bit is the direction.\<close>

definition pos_mag :: "u32 \<Rightarrow> u32" where
  "pos_mag x = (if x AND 0x80000000 \<noteq> 0 then - x else x)"

lemma get_position_mag: "stepper_get_position st = pos_mag (raw_position st)"
  by (simp add: stepper_get_position_def raw_position_def remaining_def pos_mag_def Let_def)

lemma top_bit: "x AND 0x80000000 \<noteq> 0 \<longleftrightarrow> 2 ^ 31 \<le> unat (x :: u32)"
proof -
  have "x AND 0x80000000 \<noteq> 0 \<longleftrightarrow> bit x 31"
  proof
    assume "bit x 31"
    then have "bit (x AND 0x80000000) 31" by (simp add: bit_simps)
    then show "x AND 0x80000000 \<noteq> 0" by auto
  next
    assume a: "x AND 0x80000000 \<noteq> 0"
    show "bit x 31"
    proof (rule ccontr)
      assume b: "\<not> bit x 31"
      have "x AND 0x80000000 = 0"
        by (rule word32_eqI, unfold all_less_32 all_less_16) (use b in \<open>simp add: bit_simps\<close>)
      with a show False by simp
    qed
  qed
  also have "\<dots> \<longleftrightarrow> sint x < 0" using bit_last_iff [of x] by simp
  finally show ?thesis by (simp add: sint_neg_iff)
qed

lemma unat_neg_u32: "unat (- x :: u32) = (if unat x = 0 then 0 else 2 ^ 32 - unat x)"
  using unat_diff_u32 [of 0 x] by simp

lemma pos_mag_unat: "unat (pos_mag x) = (if 2 ^ 31 \<le> unat x then 2 ^ 32 - unat x else unat x)"
  unfolding pos_mag_def top_bit unat_neg_u32 [of x] by (auto simp: unat_neg_u32)

lemma pos_mag_neg: "pos_mag (- x) = pos_mag x"
proof -
  have "unat (pos_mag (- x)) = unat (pos_mag x)"
    unfolding pos_mag_unat unat_neg_u32 using unat_u32_less [of x] by auto
  then show ?thesis by (metis word_eq_iff_unsigned)
qed

lemma half_double: "(ucast (n :: u16) * 2 :: u32) div 2 = ucast n"
proof -
  have "unat (ucast n * 2 :: u32) = unat n * 2"
    using unat_mult_u32 [of "ucast n" 2] unat_u16_less [of n] by (simp add: unat_ucast_u16_u32)
  then have "unat ((ucast n * 2 :: u32) div 2) = unat (ucast n :: u32)"
    by (simp add: unat_div unat_ucast_u16_u32)
  then show ?thesis by (metis word_eq_iff_unsigned)
qed

lemma upd_stepper_same [simp]: "steppers (upd_stepper d f s) d = f (steppers s d)"
  by (simp add: upd_stepper_def)

lemma steppers_frame [simp]:
  "steppers (set_wake t w s) = steppers s" "steppers (emit e s) = steppers s"
  "steppers (move_free m s) = steppers s" "steppers (irq_disable s) = steppers s"
  "steppers (irq_enable s) = steppers s"
  by (simp_all add: set_wake_def emit_def move_free_def irq_disable_def irq_enable_def)

lemma has_add_flag:
  "has (f OR SF_HAVE_ADD) SF_SINGLE_SCHED = has f SF_SINGLE_SCHED"
  "has (f AND - 65) SF_SINGLE_SCHED = has f SF_SINGLE_SCHED"  \<comment> \<open>\<^term>\<open>NOT SF_HAVE_ADD\<close> as the simplifier leaves it\<close>
proof -
  have "(f OR 64) AND 16 = f AND 16" "(f AND NOT 64) AND 16 = f AND (16 :: u8)"
    by (rule word8_eqI, unfold all_less_8, simp add: bit_simps)+
  then show "has (f OR SF_HAVE_ADD) SF_SINGLE_SCHED = has f SF_SINGLE_SCHED"
    "has (f AND - 65) SF_SINGLE_SCHED = has f SF_SINGLE_SCHED" by (simp_all add: has_def)
qed

lemma load_next_full_position:
  assumes "load_next_full d iv n nd s = Ok r s'"
  shows "raw_position (steppers s' d) = position (steppers s d) - ucast n \<and>
     has (st_flags (steppers s' d)) SF_SINGLE_SCHED = has (st_flags (steppers s d)) SF_SINGLE_SCHED"
  using assms
  by (auto simp: load_next_full_def Let_def andthen_Ok_iff sched_shutdown_def timer_read_time_def
      raw_position_def remaining_def half_double split: if_splits option.splits)

text \<open>A stepper on an optimised path has one timer event per step (set up by \<^verbatim>\<open>config_stepper\<close>).\<close>

definition path_ok :: "stepper \<Rightarrow> bool" where
  "path_ok st \<longleftrightarrow> (has (st_flags st) SF_OPTIMIZED_PATH \<longrightarrow> has (st_flags st) SF_SINGLE_SCHED)"

lemma stepper_load_next_position:
  assumes ok: "stepper_load_next d s = Ok r s'" and opt: "path_ok (steppers s d)"
  shows "pos_mag (raw_position (steppers s' d)) = pos_mag (position (steppers s d)) \<and>
     has (st_flags (steppers s' d)) SF_SINGLE_SCHED = has (st_flags (steppers s d)) SF_SINGLE_SCHED"
proof (cases "move_queue_empty (st_mq (steppers s d))")
  case True
  then show ?thesis using ok
    by (auto simp: stepper_load_next_def Let_def raw_position_def remaining_def)
next
  case False
  then obtain mn mq' where p: "move_queue_pop (st_mq (steppers s d)) s = Some (mn, mq')"
    using ok by (cases "move_queue_pop (st_mq (steppers s d)) s") (auto simp: stepper_load_next_def Let_def)
  show ?thesis using ok opt
    unfolding stepper_load_next_def Let_def
    by (auto simp: False p raw_position_def remaining_def path_ok_def has_add_flag pos_mag_neg
        dest!: load_next_full_position split: if_splits)
qed

section \<open>Step events and the position\<close>

text \<open>How many step pulses the next event completes: with two events per step, every second one.\<close>

definition event_steps :: "stepper \<Rightarrow> u32" where
  "event_steps st = (if has (st_flags st) SF_SINGLE_SCHED \<or> even (unat (st_count st)) then 1 else 0)"

lemma unat_pred: "c \<noteq> 0 \<Longrightarrow> unat (c - 1 :: u32) = unat c - 1"
  using unat_minus_one [of c] by simp

lemma half_pred:
  assumes "c \<noteq> (0 :: u32)"
  shows "(c - 1) div 2 = c div 2 - (if even (unat c) then 1 else 0)"
proof -
  have p: "0 < unat c" using assms unat_gt_0 [of c] by simp
  have e: "unat (c div 2 - 1) = unat c div 2 - 1" if "even (unat c)"
  proof -
    have "unat (c div 2) = unat c div 2" by (simp add: unat_div)
    moreover have "0 < unat c div 2" using that p by auto
    ultimately show ?thesis using unat_pred [of "c div 2"] by (metis unat_0 less_irrefl)
  qed
  have "unat ((c - 1) div 2) = (unat c - 1) div 2" by (simp add: unat_div unat_pred [OF assms])
  also have "\<dots> = unat (c div 2 - (if even (unat c) then 1 else 0))"
    using p e by (auto simp: unat_div elim!: evenE oddE)
  finally show ?thesis by (metis word_eq_iff_unsigned)
qed

lemma raw_position_dec:
  assumes "st_count st \<noteq> 0" "position st' = position st" "st_count st' = st_count st - 1"
    "has (st_flags st') SF_SINGLE_SCHED = has (st_flags st) SF_SINGLE_SCHED"
  shows "raw_position st' = raw_position st + event_steps st"
  using half_pred [OF assms(1)] assms(2-4) by (simp add: raw_position_def remaining_def event_steps_def)

lemma last_event:
  assumes "st_count st = 1"
  shows "position st = raw_position st + event_steps st"
  using assms by (simp add: raw_position_def remaining_def event_steps_def)

text \<open>The AVR code decrements the low half of the counter only.\<close>

lemma low_half_pred:
  assumes "unat c < 65536" "c \<noteq> 0"
  shows "(c AND 0xffff0000) OR ucast (ucast c - 1 :: u16) = (c :: u32) - 1"
    "(ucast c - 1 :: u16) \<noteq> 0 \<longleftrightarrow> c - 1 \<noteq> 0"
proof -
  have u: "unat (ucast c :: u16) = unat c" using assms(1) by (simp add: unsigned_ucast_eq take_bit_nat_eq_self)
  then have c: "c = ucast (ucast c :: u16)" by (metis unat_ucast_u16_u32 word_eq_iff_unsigned)
  have "c AND 0xffff0000 = (ucast (ucast c :: u16) :: u32) AND 0xffff0000" using c by simp
  also have "\<dots> = 0" by (rule word32_eqI, unfold all_less_32 all_less_16) (simp add: bit_simps bitblast)
  finally have h: "c AND 0xffff0000 = 0" .
  have n: "(ucast c :: u16) \<noteq> 0" using c assms(2) by (metis ucast_0)
  have "unat (ucast (ucast c - 1 :: u16) :: u32) = unat (c - 1)"
    using unat_minus_one [OF n] unat_pred [OF assms(2)] by (simp add: unat_ucast_u16_u32 u)
  then have e: "ucast (ucast c - 1 :: u16) = c - 1" by (metis word_eq_iff_unsigned)
  with h show "(c AND 0xffff0000) OR ucast (ucast c - 1 :: u16) = c - 1" by simp
  show "(ucast c - 1 :: u16) \<noteq> 0 \<longleftrightarrow> c - 1 \<noteq> 0"
    using unat_minus_one [OF n] unat_pred [OF assms(2)] u
    by (metis unat_eq_zero)
qed

lemma timer_read_time_steppers [simp]: "steppers (snd (timer_read_time s)) = steppers s"
  by (simp add: timer_read_time_def)

lemma stepper_event_edge_position:
  assumes ok: "stepper_event_edge d s = Ok r s'" and c: "st_count (steppers s d) \<noteq> 0"
    and p: "path_ok (steppers s d)" "has (st_flags (steppers s d)) SF_SINGLE_SCHED"
  shows "pos_mag (raw_position (steppers s' d)) = pos_mag (raw_position (steppers s d) + event_steps (steppers s d))"
proof (cases "st_count (steppers s d) = 1")
  case True
  then have "stepper_load_next d (emit (Gpio_toggle (step_pin (steppers s d))) s) = Ok r s'"
    using ok by (simp add: stepper_event_edge_def Let_def)
  from stepper_load_next_position [OF this] p(1) last_event [OF True] show ?thesis by simp
next
  case False
  have "raw_position (steppers s' d) = raw_position (steppers s d) + event_steps (steppers s d)"
    by (rule raw_position_dec [OF c]; use ok False in \<open>auto simp: stepper_event_edge_def Let_def\<close>)
  then show ?thesis by simp
qed

lemma stepper_event_avr_position:
  assumes ok: "stepper_event_avr d s = Ok r s'" and c: "st_count (steppers s d) \<noteq> 0"
    and l: "unat (st_count (steppers s d)) < 65536"
    and p: "path_ok (steppers s d)" "has (st_flags (steppers s d)) SF_SINGLE_SCHED"
  shows "pos_mag (raw_position (steppers s' d)) = pos_mag (raw_position (steppers s d) + event_steps (steppers s d))"
proof (cases "st_count (steppers s d) = 1")
  case True
  with ok obtain s1 where s1: "stepper_load_next d (emit (Gpio_toggle (step_pin (steppers s d))) s) = Ok r s1"
    "s' = emit (Gpio_toggle (step_pin (steppers s1 d))) s1"
    by (auto simp: stepper_event_avr_def Let_def andthen_Ok_iff)
  from stepper_load_next_position [OF s1(1)] p(1) last_event [OF True] s1(2) show ?thesis by simp
next
  case False
  have "raw_position (steppers s' d) = raw_position (steppers s d) + event_steps (steppers s d)"
    by (rule raw_position_dec [OF c]; 
        use ok False low_half_pred [OF l c] in \<open>auto simp: stepper_event_avr_def Let_def split: if_splits\<close>)
  then show ?thesis by simp
qed

lemma stepper_event_full_position:
  assumes ok: "stepper_event_full d s = Ok r s'" and c: "st_count (steppers s d) \<noteq> 0"
    and p: "path_ok (steppers s d)"
  shows "pos_mag (raw_position (steppers s' d)) = pos_mag (raw_position (steppers s d) + event_steps (steppers s d))"
proof (cases "st_count (steppers s d) = 1")
  case True
  obtain s1 where s1: "stepper_load_next d s1 = Ok r s'" "steppers s1 = steppers s"
    using ok True by (auto simp: stepper_event_full_def Let_def timer_read_time_def)
  from stepper_load_next_position [OF s1(1)] s1(2) p last_event [OF True] show ?thesis by simp
next
  case False
  have "raw_position (steppers s' d) = raw_position (steppers s d) + event_steps (steppers s d)"
    by (rule raw_position_dec [OF c];
        use ok False in \<open>auto simp: stepper_event_full_def Let_def timer_read_time_def split: if_splits\<close>)
  then show ?thesis by simp
qed

text \<open>
  The direction of the moves being executed is the top bit of the position counter, so the
  reported position counts up or down.
\<close>

definition reversed :: "stepper \<Rightarrow> bool" where
  "reversed st \<longleftrightarrow> 2 ^ 31 \<le> unat (raw_position st)"

lemma pos_mag_step:
  assumes "unat (pos_mag x) < 2 ^ 31 - 1"
  shows "pos_mag (x + 1) = (if 2 ^ 31 \<le> unat x then pos_mag x - 1 else pos_mag x + 1)"
proof (cases "2 ^ 31 \<le> unat x")
  case True
  show ?thesis
  proof (cases "unat x = 2 ^ 32 - 1")
    case m: True
    have n: "unat (- 1 :: u32) = 2 ^ 32 - 1" using unat_neg_u32 [of 1] by simp
    with m have "x = - 1" by (metis word_eq_iff_unsigned)
    with n show ?thesis by (simp add: pos_mag_def)
  next
    case False
    then have "unat (x + 1) = unat x + 1" using unat_u32_less [of x] unat_add_u32 [of x 1] by simp
    then show ?thesis using True unfolding pos_mag_def top_bit by simp
  qed
next
  case False
  then have u: "unat (x + 1) = unat x + 1" using unat_add_u32 [of x 1] by simp
  moreover have "unat x < 2 ^ 31 - 1" using assms False unfolding pos_mag_def top_bit by simp
  ultimately show ?thesis using False unfolding pos_mag_def top_bit by simp
qed

section \<open>Well-formed steppers\<close>

text \<open>
  What \<^verbatim>\<open>config_stepper\<close> sets up and no operation undoes: a stepper on an optimised path has one
  event per step, a 16-bit count and the inlined handler of a board that has one; any other stepper
  runs \<^verbatim>\<open>stepper_event_full\<close>.
\<close>

definition stepper_wf :: "'z motion_scheme \<Rightarrow> nat \<Rightarrow> bool" where
  "stepper_wf s d \<longleftrightarrow>
     (let st = steppers s d; f = t_func s (Obj_timer d 0);
          opt = (have_edge_optimization s \<or> have_avr_optimization s) in
      if has (st_flags st) SF_OPTIMIZED_PATH
      then has (st_flags st) SF_SINGLE_SCHED \<and> unat (st_count st) < 65536 \<and> f = None \<and> opt
      else f = Some Stepper_event_full \<or> (f = None \<and> \<not> opt))"

lemma stepper_wf_path_ok: "stepper_wf s d \<Longrightarrow> path_ok (steppers s d)"
  by (simp add: stepper_wf_def path_ok_def Let_def split: if_splits)

lemma stepper_event_position:
  assumes ok: "timer_func_call stepper_call (Obj_timer d 0) s = Ok r s'"
    and c: "st_count (steppers s d) \<noteq> 0" and wf: "stepper_wf s d"
  shows "pos_mag (raw_position (steppers s' d)) = pos_mag (raw_position (steppers s d) + event_steps (steppers s d))"
proof (cases "has (st_flags (steppers s d)) SF_OPTIMIZED_PATH")
  case True
  with wf have w: "has (st_flags (steppers s d)) SF_SINGLE_SCHED" "unat (st_count (steppers s d)) < 65536"
    "t_func s (Obj_timer d 0) = None" "have_edge_optimization s \<or> have_avr_optimization s"
    by (auto simp: stepper_wf_def Let_def)
  then have "stepper_event_edge d s = Ok r s' \<or> stepper_event_avr d s = Ok r s'" using ok
    by (auto simp: timer_func_call_def stepper_call_def stepper_event_def split: if_splits)
  then show ?thesis
    using stepper_event_edge_position [OF _ c stepper_wf_path_ok [OF wf] w(1)]
      stepper_event_avr_position [OF _ c w(2) stepper_wf_path_ok [OF wf] w(1)] by blast
next
  case False
  with wf ok have "stepper_event_full d s = Ok r s'"
    by (auto simp: timer_func_call_def stepper_call_def stepper_event_def stepper_wf_def Let_def split: if_splits)
  from stepper_event_full_position [OF this c stepper_wf_path_ok [OF wf]] show ?thesis .
qed


text \<open>A board with the edge optimisation and one active stepper, used by the witnesses.\<close>

definition demo_stepper :: stepper where
  "demo_stepper = zero_stepper\<lparr>interval := 600, st_add := 100, st_count := 3, step_pin := 5, dir_pin := 6,
     position := 0x40000003, st_flags := SF_SINGLE_SCHED OR SF_OPTIMIZED_PATH\<rparr>"

definition demo_motion :: motion where
  "demo_motion = basecmd.extend (demo_basecmd\<lparr>inline_stepper_hack := True, want_both_edge := True\<rparr>)
     \<lparr>sizeof_stepper = 60, sizeof_stepper_move = 16, steppers = (\<lambda>d. demo_stepper),
      smoves = (\<lambda>m. \<lparr>sm_interval = 500, sm_add = 100, sm_count = 3, sm_flags = 0\<rparr>)\<rparr>"

lemmas demo_motion_simps = demo_motion_def basecmd.defs demo_basecmd_simps demo_stepper_def zero_stepper_def

lemma demo_motion_fields [simp]:
  "steppers demo_motion d = demo_stepper" "t_func demo_motion (Obj_timer d k) = None"
  "t_wake demo_motion (Obj_timer d k) = 2000" "inline_stepper_hack demo_motion" "want_both_edge demo_motion"
  "out_log demo_motion = []"
  by (simp_all add: demo_motion_simps)

lemma demo_motion_wf: "stepper_wf demo_motion d"
  by (simp add: stepper_wf_def demo_stepper_def have_edge_optimization_def has_def)


section \<open>Step times\<close>

text \<open>
  The time of step \<open>k\<close> (from 0) of a move with interval \<open>iv\<close> and increment \<open>add\<close> that follows a
  step at \<open>w\<close>: the formula of the host's step compression.
\<close>

definition step_clock :: "u32 \<Rightarrow> u32 \<Rightarrow> u16 \<Rightarrow> nat \<Rightarrow> u32" where
  "step_clock w iv add k = w + of_nat (Suc k) * iv + scast add * of_nat (k * Suc k div 2)"

lemma step_clock_0: "step_clock w iv add 0 = w + iv"
  by (simp add: step_clock_def)

lemma step_clock_Suc: "step_clock w iv add (Suc k) = step_clock w iv add k + (iv + of_nat (Suc k) * scast add)"
proof -
  have "Suc k * Suc (Suc k) div 2 = k * Suc k div 2 + Suc k"
    using div_mult_self1 [of 2 "k * Suc k" "Suc k"] by (simp add: algebra_simps)
  then show ?thesis unfolding step_clock_def by (simp add: algebra_simps)
qed

text \<open>\<open>n\<close> calls of the timer function, each asking to be called again.\<close>

fun step_events :: "nat \<Rightarrow> nat \<Rightarrow> 'z motion_scheme \<Rightarrow> 'z motion_scheme option" where
  "step_events d 0 s = Some s"
| "step_events d (Suc n) s =
     (case step_events d n s of
        None \<Rightarrow> None
      | Some s \<Rightarrow> (case timer_func_call stepper_call (Obj_timer d 0) s of
                    Ok SF_RESCHEDULE s \<Rightarrow> Some s | _ \<Rightarrow> None))"

text \<open>The stepper after \<open>k\<close> steps of the loaded move, with the next one due at its time.\<close>

definition in_move :: "nat \<Rightarrow> u32 \<Rightarrow> u32 \<Rightarrow> u16 \<Rightarrow> nat \<Rightarrow> nat \<Rightarrow> 'z motion_scheme \<Rightarrow> bool" where
  "in_move d w iv add n k s \<longleftrightarrow>
     (let st = steppers s d in
      stepper_wf s d \<and> has (st_flags st) SF_OPTIMIZED_PATH \<and> k < n \<and>
      unat (st_count st) = n - k \<and> n < 65536 \<and> st_add st = add \<and>
      (have_avr_optimization s \<longrightarrow> has (st_flags st) SF_HAVE_ADD = (add \<noteq> 0)) \<and>
      interval st = iv + of_nat (Suc k) * scast add \<and> t_wake s (Obj_timer d 0) = step_clock w iv add k)"

text \<open>The pin changes of one step event.\<close>

definition step_pulse :: "nat \<Rightarrow> 'z motion_scheme \<Rightarrow> out_event list" where
  "step_pulse d s = replicate (if have_edge_optimization s then 1 else 2) (Gpio_toggle (step_pin (steppers s d)))"

lemma board_frame [simp]:
  "have_edge_optimization (set_wake t w s) = have_edge_optimization s"
  "have_edge_optimization (emit e s) = have_edge_optimization s"
  "have_edge_optimization (move_free m s) = have_edge_optimization s"
  "have_edge_optimization (upd_stepper d f s) = have_edge_optimization s"
  "have_avr_optimization (set_wake t w s) = have_avr_optimization s"
  "have_avr_optimization (emit e s) = have_avr_optimization s"
  "have_avr_optimization (move_free m s) = have_avr_optimization s"
  "have_avr_optimization (upd_stepper d f s) = have_avr_optimization s"
  by (simp_all add: have_edge_optimization_def have_avr_optimization_def set_wake_def emit_def
      move_free_def upd_stepper_def)

lemma timer_frame [simp]:
  "t_func (upd_stepper d f s) = t_func s" "t_wake (upd_stepper d f s) = t_wake s"
  "out_log (upd_stepper d f s) = out_log s"
  by (simp_all add: upd_stepper_def)

lemma avr_not_edge: "have_avr_optimization s \<Longrightarrow> \<not> have_edge_optimization s"
  by (simp add: have_avr_optimization_def have_edge_optimization_def)

lemma in_move_event:
  assumes m: "in_move d w iv add n k s" and k: "Suc k < n"
  shows "\<exists>s'. timer_func_call stepper_call (Obj_timer d 0) s = Ok SF_RESCHEDULE s' \<and>
     in_move d w iv add n (Suc k) s' \<and> out_log s' = out_log s @ step_pulse d s \<and> step_pulse d s' = step_pulse d s"
proof -
  let ?st = "steppers s d"
  have st: "stepper_wf s d" "has (st_flags ?st) SF_OPTIMIZED_PATH" "unat (st_count ?st) = n - k" "n < 65536"
    "st_add ?st = add" "interval ?st = iv + of_nat (Suc k) * scast add"
    "t_wake s (Obj_timer d 0) = step_clock w iv add k"
    "have_avr_optimization s \<Longrightarrow> has (st_flags ?st) SF_HAVE_ADD = (add \<noteq> 0)"
    using m by (auto simp: in_move_def Let_def)
  then have wf: "has (st_flags ?st) SF_SINGLE_SCHED" "t_func s (Obj_timer d 0) = None"
    "have_edge_optimization s \<or> have_avr_optimization s"
    by (auto simp: stepper_wf_def Let_def)
  have c1: "unat (st_count ?st) < 65536" "st_count ?st \<noteq> 0" "st_count ?st \<noteq> 1"
    using st(3,4) k by auto
  have c2: "unat (st_count ?st - 1) = n - Suc k" using st(3) k unat_pred [OF c1(2)] by simp
  have i: "iv + of_nat (Suc k) * scast add + scast add = iv + of_nat (Suc (Suc k)) * scast add"
    by (simp add: algebra_simps)
  have inl: "inline_stepper_hack s" using wf(3)
    by (auto simp: have_edge_optimization_def have_avr_optimization_def)
  show ?thesis
  proof (cases "have_edge_optimization s")
    case True
    then show ?thesis using wf st c1 c2 k i inl step_clock_Suc [of w iv add k] avr_not_edge [of s]
      by (auto simp: timer_func_call_def stepper_call_def stepper_event_def stepper_event_edge_def Let_def
          in_move_def stepper_wf_def step_pulse_def)
  next
    case False
    then show ?thesis using wf st c1 c2 k i inl step_clock_Suc [of w iv add k] low_half_pred [OF c1(1,2)]
      by (auto simp: timer_func_call_def stepper_call_def stepper_event_def stepper_event_avr_def Let_def
          in_move_def stepper_wf_def step_pulse_def numeral_2_eq_2)
  qed
qed

lemma has_opt_add_flag:
  "has (f OR SF_HAVE_ADD) SF_OPTIMIZED_PATH = has f SF_OPTIMIZED_PATH"
  "has (f AND - 65) SF_OPTIMIZED_PATH = has f SF_OPTIMIZED_PATH"
  "has (f OR SF_HAVE_ADD) SF_HAVE_ADD" "\<not> has (f AND - 65) SF_HAVE_ADD"
proof -
  have "(f OR 64) AND 32 = f AND 32" "(f AND NOT 64) AND 32 = f AND (32 :: u8)"
    "(f OR 64) AND 64 = (64 :: u8)" "(f AND NOT 64) AND 64 = (0 :: u8)"
    by (rule word8_eqI, unfold all_less_8, simp add: bit_simps)+
  then show "has (f OR SF_HAVE_ADD) SF_OPTIMIZED_PATH = has f SF_OPTIMIZED_PATH"
    "has (f AND - 65) SF_OPTIMIZED_PATH = has f SF_OPTIMIZED_PATH"
    "has (f OR SF_HAVE_ADD) SF_HAVE_ADD" "\<not> has (f AND - 65) SF_HAVE_ADD" by (simp_all add: has_def)
qed

lemma load_in_move:
  assumes wf: "stepper_wf s d" "has (st_flags (steppers s d)) SF_OPTIMIZED_PATH"
    and q: "mq s (st_mq (steppers s d)) (m # ms)" and c: "sm_count (smoves s m) \<noteq> 0"
  shows "\<exists>s'. stepper_load_next d s = Ok SF_RESCHEDULE s' \<and>
     in_move d (t_wake s (Obj_timer d 0)) (sm_interval (smoves s m)) (sm_add (smoves s m))
       (unat (sm_count (smoves s m))) 0 s' \<and> step_pulse d s' = step_pulse d s"
proof -
  obtain mh where p: "move_queue_pop (st_mq (steppers s d)) s = Some (m, mh)"
    "\<not> move_queue_empty (st_mq (steppers s d))"
    using move_queue_pop_mq [OF q] q by (auto simp: mq_def move_queue_empty_def)
  have o: "have_edge_optimization s \<or> have_avr_optimization s" using wf by (auto simp: stepper_wf_def Let_def)
  have n: "0 < unat (sm_count (smoves s m))" using c unat_gt_0 by blast
  show ?thesis
  proof (cases "have_edge_optimization s")
    case True
    then show ?thesis using wf p n unat_u16_less [of "sm_count (smoves s m)"] avr_not_edge [of s]
      by (auto simp: stepper_load_next_def Let_def in_move_def stepper_wf_def step_clock_0
          unat_ucast_u16_u32 step_pulse_def)
  next
    case False
    with o have "have_avr_optimization s" by simp
    then show ?thesis using False wf p n unat_u16_less [of "sm_count (smoves s m)"]
      by (auto simp: stepper_load_next_def Let_def in_move_def stepper_wf_def step_clock_0
          unat_ucast_u16_u32 step_pulse_def has_opt_add_flag has_add_flag)
  qed
qed

lemma in_move_events:
  assumes "in_move d w iv add n 0 s" "k < n"
  shows "\<exists>s'. step_events d k s = Some s' \<and> in_move d w iv add n k s' \<and>
     out_log s' = out_log s @ concat (replicate k (step_pulse d s)) \<and> step_pulse d s' = step_pulse d s"
  using assms(2)
proof (induction k)
  case 0
  then show ?case using assms(1) by simp
next
  case (Suc k)
  then obtain s1 where s1: "step_events d k s = Some s1" "in_move d w iv add n k s1"
    "out_log s1 = out_log s @ concat (replicate k (step_pulse d s))" "step_pulse d s1 = step_pulse d s" by auto
  from in_move_event [OF s1(2) Suc.prems] obtain s2 where
    s2: "timer_func_call stepper_call (Obj_timer d 0) s1 = Ok SF_RESCHEDULE s2" "in_move d w iv add n (Suc k) s2"
    "out_log s2 = out_log s1 @ step_pulse d s1" "step_pulse d s2 = step_pulse d s1" by blast
  have "concat (replicate (Suc k) (step_pulse d s)) = concat (replicate k (step_pulse d s)) @ step_pulse d s"
    using replicate_append_same [of k "step_pulse d s"] by (metis concat.simps concat_append append_Nil2 replicate_Suc)
  with s1 s2 show ?case by simp
qed



section \<open>Stopping a stepper\<close>

lemma sched_inv_frame [simp]:
  "sched_inv (upd_stepper d f s) ts = sched_inv s ts" "sched_inv (move_free m s) ts = sched_inv s ts"
  "sched_inv (s\<lparr>m_next := nxt\<rparr>) ts = sched_inv s ts" "sched_inv (s\<lparr>move_free_list := h\<rparr>) ts = sched_inv s ts"
  by (simp_all add: sched_inv_def running_def upd_stepper_def move_free_def)

lemma motion_of_sched_frame:
  assumes "sched_frame s s'"
  shows "steppers s' = steppers s" "smoves s' = smoves s" "m_next s' = m_next s"
    "move_free_list s' = move_free_list s" "oids s' = oids s" "oid_count s' = oid_count s"
    "have_edge_optimization s' = have_edge_optimization s" "have_avr_optimization s' = have_avr_optimization s"
    "t_func s' = t_func s" "motion.more s' = motion.more s"
  using assms
  by (cases s, cases s', simp add: sched_frame_def have_edge_optimization_def have_avr_optimization_def)+

lemma stop_free_loop_spec:
  assumes "mq s mh ms" "free_nodes s fl" "distinct (ms @ fl)"
  shows "\<exists>mh' nxt. stop_free_loop mh s = Some (mh', s\<lparr>m_next := nxt, move_free_list :=
       (if ms = [] then move_free_list s else Some (last ms))\<rparr>) \<and> move_queue_empty mh' \<and>
     free_nodes (s\<lparr>m_next := nxt, move_free_list := (if ms = [] then move_free_list s else Some (last ms))\<rparr>) (rev ms @ fl) \<and>
     (\<forall>u. u \<notin> set ms \<longrightarrow> nxt u = m_next s u)"
  using assms
proof (induction ms arbitrary: mh s fl)
  case Nil
  then show ?case
    by (subst stop_free_loop.simps)
      (auto simp: move_queue_empty_def intro!: exI [of _ mh] exI [of _ "m_next s"])
next
  case (Cons m ms)
  obtain mh1 where p: "move_queue_pop mh s = Some (m, mh1)" "mq s mh1 ms"
    using move_queue_pop_mq [OF Cons.prems(1)] by blast
  have e: "\<not> move_queue_empty mh" using Cons.prems(1) by (auto simp: mq_def move_queue_empty_def)
  have mq1: "mq (move_free m s) mh1 ms"
    using p(2) Cons.prems(3) by (simp add: mq_def move_free_def)
  have f1: "free_nodes (move_free m s) (m # fl)"
    using Cons.prems(2,3) by (intro move_free_free_nodes) auto
  from Cons.IH [OF mq1 f1] Cons.prems(3) obtain mh' nxt where
    i: "stop_free_loop mh1 (move_free m s) = Some (mh', (move_free m s)\<lparr>m_next := nxt, move_free_list :=
       (if ms = [] then move_free_list (move_free m s) else Some (last ms))\<rparr>)" "move_queue_empty mh'"
    "free_nodes ((move_free m s)\<lparr>m_next := nxt, move_free_list :=
       (if ms = [] then move_free_list (move_free m s) else Some (last ms))\<rparr>) (rev ms @ m # fl)"
    "\<forall>u. u \<notin> set ms \<longrightarrow> nxt u = m_next (move_free m s) u" by auto
  have "(move_free m s)\<lparr>m_next := nxt, move_free_list :=
       (if ms = [] then move_free_list (move_free m s) else Some (last ms))\<rparr> =
     s\<lparr>m_next := nxt, move_free_list := Some (last (m # ms))\<rparr>"
    by (simp add: move_free_def)
  moreover have "\<forall>u. u \<notin> set (m # ms) \<longrightarrow> nxt u = m_next s u" using i(4) by (simp add: move_free_def)
  ultimately show ?case using i(1-3) p(1) e by (subst stop_free_loop.simps) auto
qed

lemma stop_flags:
  "has (f AND 52 OR 8) SF_NEED_RESET" "has (f AND 52 OR 8) SF_SINGLE_SCHED = has f SF_SINGLE_SCHED"
  "has (f AND 52 OR 8) SF_OPTIMIZED_PATH = has f SF_OPTIMIZED_PATH"
proof -
  have "(f AND 52 OR 8) AND 8 = (8 :: u8)" "(f AND 52 OR 8) AND 16 = f AND (16 :: u8)"
    "(f AND 52 OR 8) AND 32 = f AND (32 :: u8)"
    by (rule word8_eqI, unfold all_less_8, simp add: bit_simps)+
  then show "has (f AND 52 OR 8) SF_NEED_RESET" "has (f AND 52 OR 8) SF_SINGLE_SCHED = has f SF_SINGLE_SCHED"
    "has (f AND 52 OR 8) SF_OPTIMIZED_PATH = has f SF_OPTIMIZED_PATH" by (simp_all add: has_def)
qed

lemma pos_mag_idem: "pos_mag (- pos_mag x) = pos_mag x"
  by (metis pos_mag_def pos_mag_neg)

text \<open>The stepper as \<^verbatim>\<open>stepper_stop\<close> leaves it, its queue aside.\<close>

definition stopped :: "stepper \<Rightarrow> stepper" where
  "stopped st = st\<lparr>next_step_time := 0, position := - stepper_get_position st, st_count := 0,
     st_flags := st_flags st AND 52 OR 8\<rparr>"

lemma stopped_position: "stepper_get_position (stopped st) = stepper_get_position st"
proof -
  have "raw_position (stopped st) = - stepper_get_position st"
    by (simp add: raw_position_def remaining_def stopped_def)
  then show ?thesis by (simp only: get_position_mag pos_mag_idem)
qed

lemma upd_stepper_steppers: "steppers (upd_stepper d f s) = (steppers s)(d := f (steppers s d))"
  by (simp add: upd_stepper_def)

lemma pool_frame [simp]:
  "m_next (set_wake t w s) = m_next s" "m_next (emit e s) = m_next s" "m_next (upd_stepper d f s) = m_next s"
  "move_free_list (set_wake t w s) = move_free_list s" "move_free_list (emit e s) = move_free_list s"
  "move_free_list (upd_stepper d f s) = move_free_list s"
  by (simp_all add: set_wake_def emit_def upd_stepper_def)

lemma stepper_stop_reset_frame:
  "steppers (stepper_stop_reset d s) = (steppers s)(d := stopped (steppers s d))"
  "m_next (stepper_stop_reset d s) = m_next s" "move_free_list (stepper_stop_reset d s) = move_free_list s"
  "sched_inv (stepper_stop_reset d s) ts = sched_inv (set_wake (Obj_timer d 0) 0 s) ts"
  by (auto simp: stepper_stop_reset_def Let_def upd_stepper_steppers stopped_def stepper_get_position_def)

lemma stepper_stop_more:
  "motion.more (stepper_stop_reset d s) = motion.more s" "irq_on (stepper_stop_reset d s) = irq_on s"
  "task_wake (stepper_stop_reset d s) = task_wake s"
  by (simp_all add: stepper_stop_reset_def Let_def upd_stepper_def emit_def set_wake_def)

lemma stepper_stop_cases:
  assumes inv: "sched_inv s ts" and q: "mq s (st_mq (steppers s d)) ms" "free_nodes s fl" "distinct (ms @ fl)"
  shows "\<exists>s' ts' mh. stepper_stop d s = Ok () s' \<and> sched_inv s' ts' \<and>
     pending ts' = remove1 (Obj_timer d 0) (pending ts) \<and> free_nodes s' (rev ms @ fl) \<and> move_queue_empty mh \<and>
     steppers s' = (steppers s)(d := stopped (steppers s d)\<lparr>st_mq := mh\<rparr>) \<and>
     (\<forall>u. u \<notin> set ms \<longrightarrow> m_next s' u = m_next s u) \<and> motion.more s' = motion.more s \<and>
     irq_on s' = irq_on s \<and> task_wake s' = task_wake s"
proof -
  let ?t = "Obj_timer d 0"
  have u: "user_timer ?t" by (simp add: user_timer_def)
  from sched_del_timer_cases [OF inv u] obtain s1 ts1 where
    s1: "sched_del_timer ?t s = Ok () s1" "sched_inv s1 ts1" "pending ts1 = remove1 ?t (pending ts)"
    "irq_on s1 = irq_on s" by blast
  then have fr: "sched_frame s s1" by (intro sched_del_timer_frame [of ?t]) simp
  note f = motion_of_sched_frame [OF fr]
  have "distinct (pending ts)" using tq.queue_distinct [of s "pending ts"] inv by (auto simp: sched_queue_def)
  then have "?t \<notin> set ts1" using pending_user [OF u, of ts1] s1(3) by simp
  then have i2: "sched_inv (stepper_stop_reset d s1) ts1"
    using sched_inv_set_wake [OF s1(2) u] by (simp add: stepper_stop_reset_frame)
  let ?s2 = "stepper_stop_reset d s1"
  have "mq ?s2 (st_mq (steppers s d)) ms" "free_nodes ?s2 fl"
    using q by (simp_all add: mq_def free_nodes_def stepper_stop_reset_frame f)
  from stop_free_loop_spec [OF this q(3)] obtain mh nxt h where
    l: "stop_free_loop (st_mq (steppers s d)) ?s2 = Some (mh, ?s2\<lparr>m_next := nxt, move_free_list := h\<rparr>)"
    "move_queue_empty mh" "free_nodes (?s2\<lparr>m_next := nxt, move_free_list := h\<rparr>) (rev ms @ fl)"
    "\<forall>u. u \<notin> set ms \<longrightarrow> nxt u = m_next ?s2 u" by blast
  have mqs: "st_mq (steppers ?s2 d) = st_mq (steppers s d)"
    by (simp add: stepper_stop_reset_frame f stopped_def)
  let ?s3 = "upd_stepper d (\<lambda>st. st\<lparr>st_mq := mh\<rparr>) (?s2\<lparr>m_next := nxt, move_free_list := h\<rparr>)"
  have "stepper_stop d s = Ok () ?s3"
    using s1(1) l(1) mqs by (simp add: stepper_stop_def Let_def)
  moreover have "sched_inv ?s3 ts1" using i2 by simp
  moreover have "free_nodes ?s3 (rev ms @ fl)" using l(3) by (simp add: free_nodes_def)
  moreover have "steppers ?s3 = (steppers s)(d := stopped (steppers s d)\<lparr>st_mq := mh\<rparr>)"
    by (simp add: upd_stepper_steppers stepper_stop_reset_frame f)
  moreover have "\<forall>u. u \<notin> set ms \<longrightarrow> m_next ?s3 u = m_next s u"
    using l(4) by (simp add: stepper_stop_reset_frame f)
  moreover have "motion.more ?s3 = motion.more s" "irq_on ?s3 = irq_on s" "task_wake ?s3 = task_wake s"
    using f(10) s1(4) fr by (simp_all add: stepper_stop_more upd_stepper_def sched_frame_def)
  ultimately show ?thesis using s1(3) l(2) by blast
qed

text \<open>
  C20: Stopping a stepper (on a homing trigger or a shutdown) always ends: its timer is no longer
  pending and all other timers still are, every move it had queued is back in the free pool and
  no other move is, it reports the position of the steps really made, refuses to be started
  until its clock is reset, and no other stepper changes. Hypotheses: the timer list is
  well-formed, and the stepper's queue and the free list are chains of different moves.
\<close>

theorem stepper_stop_safe:
  assumes "sched_inv s ts" "mq s (st_mq (steppers s d)) ms" "free_nodes s fl" "distinct (ms @ fl)"
  shows "\<exists>s' ts'. stepper_stop d s = Ok () s' \<and> sched_inv s' ts' \<and>
     pending ts' = remove1 (Obj_timer d 0) (pending ts) \<and> free_nodes s' (rev ms @ fl) \<and>
     move_queue_empty (st_mq (steppers s' d)) \<and> st_count (steppers s' d) = 0 \<and>
     stepper_get_position (steppers s' d) = stepper_get_position (steppers s d) \<and>
     has (st_flags (steppers s' d)) SF_NEED_RESET \<and> (\<forall>e. e \<noteq> d \<longrightarrow> steppers s' e = steppers s e)"
proof -
  from stepper_stop_cases [OF assms] obtain s' ts' mh where r: "stepper_stop d s = Ok () s'" "sched_inv s' ts'"
     "pending ts' = remove1 (Obj_timer d 0) (pending ts)" "free_nodes s' (rev ms @ fl)" "move_queue_empty mh"
     and st: "steppers s' = (steppers s)(d := stopped (steppers s d)\<lparr>st_mq := mh\<rparr>)" by blast
  have "stepper_get_position (steppers s' d) = stepper_get_position (stopped (steppers s d))"
    by (simp add: st stepper_get_position_def Let_def)
  then have "stepper_get_position (steppers s' d) = stepper_get_position (steppers s d)"
    by (simp only: stopped_position)
  moreover have "st_count (steppers s' d) = 0" "has (st_flags (steppers s' d)) SF_NEED_RESET"
    by (simp_all add: st stopped_def stop_flags)
  ultimately show ?thesis using r by (auto simp: st)
qed

lemma sched_inv_demo_motion: "sched_inv demo_motion [Periodic_timer, Sentinel_timer]"
  using sched_boot_inv [of demo_sched]
  by (simp add: sched_inv_def running_def demo_motion_simps)

theorem stepper_stop_safe_witness:
  "\<exists>s'. stepper_stop 7 demo_motion = Ok () s' \<and> stepper_get_position (steppers s' 7) = 0x40000000 \<and>
     has (st_flags (steppers s' 7)) SF_NEED_RESET"
proof -
  have "mq demo_motion (st_mq (steppers demo_motion 7)) []" "free_nodes demo_motion []"
    by (simp_all add: free_nodes_def demo_motion_simps)
  from stepper_stop_safe [OF sched_inv_demo_motion this] show ?thesis
    by (auto simp: demo_stepper_def stepper_get_position_def has_def)
qed

section \<open>Moves for a stopped stepper\<close>

text \<open>
  C25: A stopped stepper stays stopped: until \<^verbatim>\<open>reset_step_clock\<close>, a \<^verbatim>\<open>queue_step\<close> command with a
  non-zero count only takes a move from the pool and gives it back; no stepper, timer, flag or
  pin changes. Hypotheses: the object id is a stepper's, the stepper is inactive and needs a reset,
  and the pool is not empty.
\<close>

theorem stopped_stepper_ignores_moves:
  assumes "stepper_oid_lookup (args ! 0) s = Ok d s" "st_count (steppers s d) = 0"
    and "has (st_flags (steppers s d)) SF_NEED_RESET" and "free_nodes s (m # fl)"
    and "ucast (args ! 2) \<noteq> (0 :: u16)"
  shows "\<exists>s'. command_queue_step args s = Ok () s' \<and> free_nodes s' (m # fl) \<and> steppers s' = steppers s \<and>
     t_next s' = t_next s \<and> t_wake s' = t_wake s \<and> timer_list s' = timer_list s \<and> out_log s' = out_log s"
proof -
  have x: "has (f XOR 1) 8 = has f 8" for f
  proof -
    have "(f XOR 1) AND 8 = f AND (8 :: u8)" by (rule word8_eqI, unfold all_less_8, simp add: bit_simps)
    then show ?thesis by (simp add: has_def)
  qed
  have fl: "move_free_list s = Some m" "chain (m_next s) (m_next s m) fl" "distinct (m # fl)"
    using assms(4) by (auto simp: free_nodes_def)
  have "chain ((m_next s)(m := v)) p fl = chain (m_next s) p fl" for v p using fl(3) by simp
  with fl assms(1-3,5) x show ?thesis
    by (auto simp: command_queue_step_def queue_step_insert_def move_alloc_def Let_def move_free_def irq_disable_def irq_enable_def
        free_nodes_def)
qed

theorem stopped_stepper_ignores_moves_witness:
  "\<exists>s'. command_queue_step [0, 500, 3, 0]
       (upd_stepper 7 stopped (demo_motion\<lparr>oids := Some [\<lparr>oid_type_of = Some Stepper_oid, oid_data = Some 7\<rparr>],
          move_free_list := Some 96\<rparr>)) = Ok () s' \<and> steppers s' 7 = stopped demo_stepper"
proof -
  let ?s = "upd_stepper 7 stopped (demo_motion\<lparr>oids := Some [\<lparr>oid_type_of = Some Stepper_oid, oid_data = Some 7\<rparr>],
          move_free_list := Some 96\<rparr>) :: motion"
  have "stepper_oid_lookup ([0, 500, 3, 0] ! 0) ?s = Ok 7 ?s"
    by (simp add: stepper_oid_lookup_def oid_lookup_def upd_stepper_def demo_motion_simps)
  moreover have "steppers ?s 7 = stopped demo_stepper" by (simp add: upd_stepper_def)
  moreover have "free_nodes ?s [96]" by (simp add: free_nodes_def upd_stepper_def demo_motion_simps)
  ultimately show ?thesis
    using stopped_stepper_ignores_moves [of "[0, 500, 3, 0]" ?s 7 96 "[]"] by (auto simp: stopped_def stop_flags)
qed

section \<open>Waiting for the clock\<close>

text \<open>
  The busy loop that delays a direction change ends as soon as the clock is no longer before
  the time waited for, and its result counts exactly the clock reads up to that one.
  Hypothesis: some later read of the clock is not before that time, which holds for a running clock.
\<close>

theorem busy_wait_terminates:
  assumes "\<not> timer_is_before (tm (n + k)) target"
  shows "\<exists>j\<le>k. busy_wait tm n target = Some (Suc (n + j)) \<and> \<not> timer_is_before (tm (n + j)) target \<and>
     (\<forall>i<j. timer_is_before (tm (n + i)) target)"
  using assms
proof (induction k arbitrary: n)
  case 0
  then show ?case by (subst busy_wait.simps) simp
next
  case (Suc k)
  show ?case
  proof (cases "timer_is_before (tm n) target")
    case True
    from Suc.IH [of "Suc n"] Suc.prems obtain j where j: "j \<le> k" "busy_wait tm (Suc n) target = Some (Suc (Suc n + j))"
      "\<not> timer_is_before (tm (Suc n + j)) target" "\<forall>i<j. timer_is_before (tm (Suc n + i)) target" by auto
    have "timer_is_before (tm (n + i)) target" if "i < Suc j" for i
      using that j(4) True by (cases i) auto
    with j True show ?thesis by (intro exI [of _ "Suc j"], subst busy_wait.simps) auto
  next
    case False
    then show ?thesis by (intro exI [of _ 0], subst busy_wait.simps) simp
  qed
qed

theorem busy_wait_terminates_witness: "busy_wait (\<lambda>n. of_nat (1000 + 10 * n)) 0 1025 = Some 4"
proof -
  have b: "timer_is_before 1000 1025" "timer_is_before 1010 1025" "timer_is_before 1020 1025"
    "\<not> timer_is_before 1030 1025"
    by (simp_all add: timer_is_before_iff)
  from busy_wait_terminates [of "\<lambda>n. of_nat (1000 + 10 * n)" 0 3 1025] b
  obtain j where j: "j \<le> 3" "busy_wait (\<lambda>n. of_nat (1000 + 10 * n)) 0 1025 = Some (Suc j)"
    "\<not> timer_is_before (of_nat (1000 + 10 * j)) 1025" by auto
  then have "j = 3" using b by (auto simp: numeral_3_eq_3 le_Suc_eq)
  with j(2) show ?thesis by simp
qed

end
