(* ===== verification/Stepper_Inv.thy ===== *)
theory Stepper_Inv
  imports Stepper_Props
begin

text \<open>
  The invariant of the stepper component: every stepper that an object id refers to is
  well-formed in every state the commands, timer events and stops can reach.
\<close>

section \<open>The steppers and the steps of the component\<close>

definition stepper_objs :: "'z motion_scheme \<Rightarrow> nat set" where
  "stepper_objs s =
     (case oids s of
        None \<Rightarrow> {}
      | Some tab \<Rightarrow> {d. \<exists>e\<in>set tab. oid_type_of e = Some Stepper_oid \<and> oid_data e = Some d})"

text \<open>
  The timer of a stepper is on the timer list only while the stepper is active: \<^verbatim>\<open>queue_step\<close> adds
  it after loading a move, and the event that finds no further move returns \<^verbatim>\<open>SF_DONE\<close>.
\<close>

inductive stepper_step :: "'z motion_scheme \<Rightarrow> 'z motion_scheme \<Rightarrow> bool" where
  config: "result_state (command_config_stepper args s) = Some s' \<Longrightarrow> stepper_step s s'"
| queue_step: "result_state (command_queue_step args s) = Some s' \<Longrightarrow> stepper_step s s'"
| set_next_step_dir: "result_state (command_set_next_step_dir args s) = Some s' \<Longrightarrow> stepper_step s s'"
| reset_step_clock: "result_state (command_reset_step_clock args s) = Some s' \<Longrightarrow> stepper_step s s'"
| get_position: "result_state (command_stepper_get_position args s) = Some s' \<Longrightarrow> stepper_step s s'"
| event: "result_state (timer_func_call stepper_call (Obj_timer d 0) s) = Some s' \<Longrightarrow>
    d \<in> stepper_objs s \<Longrightarrow> st_count (steppers s d) \<noteq> 0 \<Longrightarrow> stepper_step s s'"
| stop: "result_state (stepper_stop d s) = Some s' \<Longrightarrow> stepper_step s s'"

text \<open>
  The states reachable from one in which no stepper is configured; \<^verbatim>\<open>allocate_oids\<close> clears the
  table of object ids.
\<close>

definition free_oids_clear :: "'z basecmd_scheme \<Rightarrow> bool" where
  "free_oids_clear s \<longleftrightarrow>
     (case oids s of None \<Rightarrow> True | Some tab \<Rightarrow> list_all (\<lambda>e. oid_type_of e = None \<longrightarrow> oid_data e = None) tab)"

inductive stepper_reach :: "'z motion_scheme \<Rightarrow> bool" where
  boot: "stepper_objs s = {} \<Longrightarrow> free_oids_clear s \<Longrightarrow> sizeof_stepper_move s \<le> 255 \<Longrightarrow> stepper_reach s"
| step: "stepper_reach s \<Longrightarrow> stepper_step s s' \<Longrightarrow> stepper_reach s'"

inductive_cases stepper_step_cases: "stepper_step s s'"

section \<open>Frames\<close>

text \<open>What an operation on the stepper at \<open>d\<close> leaves alone.\<close>

definition motion_frame :: "nat \<Rightarrow> 'z motion_scheme \<Rightarrow> 'z motion_scheme \<Rightarrow> bool" where
  "motion_frame d s s' \<longleftrightarrow>
     (\<forall>e. e \<noteq> d \<longrightarrow> steppers s' e = steppers s e) \<and> t_func s' = t_func s \<and> oids s' = oids s \<and>
     have_edge_optimization s' = have_edge_optimization s \<and>
     have_avr_optimization s' = have_avr_optimization s \<and> sizeof_stepper_move s' = sizeof_stepper_move s"

lemma motion_frame_refl [simp]: "motion_frame d s s"
  by (simp add: motion_frame_def)

lemma motion_frame_trans: "motion_frame d s s1 \<Longrightarrow> motion_frame d s1 s2 \<Longrightarrow> motion_frame d s s2"
  by (simp add: motion_frame_def)

lemma motion_frame_sched:
  assumes "sched_frame s s'"
  shows "motion_frame d s s' \<and> steppers s' = steppers s"
proof -
  have "sizeof_stepper_move s' = sizeof_stepper_move s"
    using assms by (cases s, cases s', simp add: sched_frame_def)
  then show ?thesis using motion_of_sched_frame [OF assms] by (simp add: motion_frame_def)
qed

text \<open>The flags of the path taken, which only \<^verbatim>\<open>config_stepper\<close> sets.\<close>

definition same_path :: "stepper \<Rightarrow> stepper \<Rightarrow> bool" where
  "same_path st st' \<longleftrightarrow>
     has (st_flags st') SF_OPTIMIZED_PATH = has (st_flags st) SF_OPTIMIZED_PATH \<and>
     has (st_flags st') SF_SINGLE_SCHED = has (st_flags st) SF_SINGLE_SCHED \<and>
     (has (st_flags st) SF_OPTIMIZED_PATH \<longrightarrow> unat (st_count st) < 65536 \<longrightarrow> unat (st_count st') < 65536)"

lemma same_path_refl [simp]: "same_path st st"
  by (simp add: same_path_def)

lemma same_path_trans: "same_path a b \<Longrightarrow> same_path b c \<Longrightarrow> same_path a c"
  by (auto simp: same_path_def)

definition step_frame :: "nat \<Rightarrow> 'z motion_scheme \<Rightarrow> 'z motion_scheme \<Rightarrow> bool" where
  "step_frame d s s' \<longleftrightarrow> motion_frame d s s' \<and> same_path (steppers s d) (steppers s' d)"

lemma step_frame_refl [simp]: "step_frame d s s"
  by (simp add: step_frame_def)

lemma step_frame_trans: "step_frame d s s1 \<Longrightarrow> step_frame d s1 s2 \<Longrightarrow> step_frame d s s2"
  unfolding step_frame_def using motion_frame_trans same_path_trans by blast

lemma step_frame_sched: "sched_frame s s' \<Longrightarrow> step_frame d s s'"
  using motion_frame_sched [of s s' d] by (simp add: step_frame_def)

lemma step_frame_wf:
  assumes f: "step_frame d s s'" and wf: "stepper_wf s e"
  shows "stepper_wf s' e"
proof (cases "e = d")
  case True
  then show ?thesis using f wf
    by (simp add: stepper_wf_def step_frame_def motion_frame_def same_path_def Let_def split: if_splits)
next
  case False
  then show ?thesis using f wf by (simp add: stepper_wf_def step_frame_def motion_frame_def Let_def)
qed

lemma step_frame_objs: "step_frame d s s' \<Longrightarrow> stepper_objs s' = stepper_objs s"
  by (simp add: step_frame_def motion_frame_def stepper_objs_def)

section \<open>Every operation keeps the steppers well-formed\<close>

lemma frame_simps [simp]:
  "oids (set_wake t w s) = oids s" "oids (emit e s) = oids s" "oids (move_free m s) = oids s"
  "oids (upd_stepper d f s) = oids s"
  "sizeof_stepper_move (set_wake t w s) = sizeof_stepper_move s"
  "sizeof_stepper_move (emit e s) = sizeof_stepper_move s"
  "sizeof_stepper_move (move_free m s) = sizeof_stepper_move s"
  "sizeof_stepper_move (upd_stepper d f s) = sizeof_stepper_move s"
  by (simp_all add: set_wake_def emit_def move_free_def upd_stepper_def)

lemma board_upd_frame [simp]:
  "have_edge_optimization (s\<lparr>hw_reads := x0\<rparr>) = have_edge_optimization s"
  "have_avr_optimization (s\<lparr>hw_reads := x0\<rparr>) = have_avr_optimization s"
  "have_edge_optimization (s\<lparr>irq_on := x1\<rparr>) = have_edge_optimization s"
  "have_avr_optimization (s\<lparr>irq_on := x1\<rparr>) = have_avr_optimization s"
  "have_edge_optimization (s\<lparr>m_next := x2\<rparr>) = have_edge_optimization s"
  "have_avr_optimization (s\<lparr>m_next := x2\<rparr>) = have_avr_optimization s"
  "have_edge_optimization (s\<lparr>move_free_list := x3\<rparr>) = have_edge_optimization s"
  "have_avr_optimization (s\<lparr>move_free_list := x3\<rparr>) = have_avr_optimization s"
  "have_edge_optimization (s\<lparr>smoves := x4\<rparr>) = have_edge_optimization s"
  "have_avr_optimization (s\<lparr>smoves := x4\<rparr>) = have_avr_optimization s"
  "have_edge_optimization (s\<lparr>oids := x5\<rparr>) = have_edge_optimization s"
  "have_avr_optimization (s\<lparr>oids := x5\<rparr>) = have_avr_optimization s"
  "have_edge_optimization (s\<lparr>alloc_end := x6\<rparr>) = have_edge_optimization s"
  "have_avr_optimization (s\<lparr>alloc_end := x6\<rparr>) = have_avr_optimization s"
  "have_edge_optimization (s\<lparr>move_item_size := x7\<rparr>) = have_edge_optimization s"
  "have_avr_optimization (s\<lparr>move_item_size := x7\<rparr>) = have_avr_optimization s"
  "have_edge_optimization (s\<lparr>t_func := x8\<rparr>) = have_edge_optimization s"
  "have_avr_optimization (s\<lparr>t_func := x8\<rparr>) = have_avr_optimization s"
  "have_edge_optimization (s\<lparr>t_next := x9\<rparr>) = have_edge_optimization s"
  "have_avr_optimization (s\<lparr>t_next := x9\<rparr>) = have_avr_optimization s"
  "have_edge_optimization (s\<lparr>t_wake := x10\<rparr>) = have_edge_optimization s"
  "have_avr_optimization (s\<lparr>t_wake := x10\<rparr>) = have_avr_optimization s"
  for s :: "'z motion_scheme"
  by (simp_all add: have_edge_optimization_def have_avr_optimization_def)

lemmas step_frame_unfold = step_frame_def motion_frame_def same_path_def upd_stepper_steppers
  timer_read_time_def sched_shutdown_def irq_disable_def irq_enable_def

lemma load_next_full_frame:
  assumes "result_state (load_next_full d iv n nd s) = Some s'" "\<not> has (st_flags (steppers s d)) SF_OPTIMIZED_PATH"
  shows "step_frame d s s'"
  using assms
  by (auto simp: load_next_full_def Let_def result_state_andthen step_frame_unfold split: if_splits option.splits)

lemma stepper_load_next_frame:
  assumes r: "result_state (stepper_load_next d s) = Some s'" and wf: "stepper_wf s d"
  shows "step_frame d s s'"
proof (cases "move_queue_empty (st_mq (steppers s d))")
  case True
  then show ?thesis using r by (auto simp: stepper_load_next_def Let_def step_frame_unfold)
next
  case False
  then obtain mn mq' where p: "move_queue_pop (st_mq (steppers s d)) s = Some (mn, mq')"
    using r by (cases "move_queue_pop (st_mq (steppers s d)) s") (auto simp: stepper_load_next_def Let_def)
  let ?s1 = "upd_stepper d (\<lambda>st. st\<lparr>
      position := (if has (sm_flags (smoves s mn)) MF_DIR then - position st else position st) + ucast (sm_count (smoves s mn)),
      st_add := sm_add (smoves s mn), interval := sm_interval (smoves s mn) + scast (sm_add (smoves s mn))\<rparr>)
      (move_free mn (upd_stepper d (\<lambda>st. st\<lparr>st_mq := mq'\<rparr>) s))"
  have s1: "step_frame d s ?s1" by (simp add: step_frame_unfold)
  show ?thesis
  proof (cases "has (st_flags (steppers s d)) SF_OPTIMIZED_PATH")
    case True
    then show ?thesis using r wf False p unat_u16_less [of "sm_count (smoves s mn)"]
      by (auto simp: stepper_load_next_def Let_def step_frame_unfold stepper_wf_def unat_ucast_u16_u32
          has_opt_add_flag has_add_flag split: if_splits)
  next
    case no: False
    then have "result_state (load_next_full d (sm_interval (smoves s mn)) (sm_count (smoves s mn))
        (has (sm_flags (smoves s mn)) MF_DIR) ?s1) = Some s'"
      using r False p by (simp add: stepper_load_next_def Let_def)
    from load_next_full_frame [OF this] no s1 show ?thesis by (auto intro: step_frame_trans)
  qed
qed

lemma stepper_event_edge_frame:
  assumes r: "result_state (stepper_event_edge d s) = Some s'" and wf: "stepper_wf s d"
    and c: "unat (st_count (steppers s d)) < 65536" "st_count (steppers s d) \<noteq> 0"
  shows "step_frame d s s'"
proof (cases "st_count (steppers s d) = 1")
  case True
  have f: "step_frame d s (emit (Gpio_toggle (step_pin (steppers s d))) s)" by (simp add: step_frame_unfold)
  from r True have "result_state (stepper_load_next d (emit (Gpio_toggle (step_pin (steppers s d))) s)) = Some s'"
    by (simp add: stepper_event_edge_def Let_def)
  from stepper_load_next_frame [OF this step_frame_wf [OF f wf]] f show ?thesis by (rule step_frame_trans [rotated])
next
  case False
  then show ?thesis using r c unat_pred [OF c(2)]
    by (auto simp: stepper_event_edge_def Let_def step_frame_unfold)
qed

lemma stepper_event_avr_frame:
  assumes r: "result_state (stepper_event_avr d s) = Some s'" and wf: "stepper_wf s d"
    and c: "unat (st_count (steppers s d)) < 65536" "st_count (steppers s d) \<noteq> 0"
  shows "step_frame d s s'"
proof (cases "st_count (steppers s d) = 1")
  case True
  let ?s1 = "emit (Gpio_toggle (step_pin (steppers s d))) s"
  have f: "step_frame d s ?s1" by (simp add: step_frame_unfold)
  from r True obtain s2 where s2: "result_state (stepper_load_next d ?s1) = Some s2"
    "s' = s2 \<or> s' = emit (Gpio_toggle (step_pin (steppers s2 d))) s2"
    by (auto simp: stepper_event_avr_def Let_def result_state_andthen)
  from stepper_load_next_frame [OF s2(1) step_frame_wf [OF f wf]] f have "step_frame d s s2"
    by (rule step_frame_trans [rotated])
  moreover have "step_frame d s2 s'" using s2(2) by (auto simp: step_frame_unfold)
  ultimately show ?thesis by (rule step_frame_trans)
next
  case False
  then show ?thesis using r c unat_pred [OF c(2)] low_half_pred [OF c]
    by (auto simp: stepper_event_avr_def Let_def step_frame_unfold split: if_splits)
qed

lemma stepper_event_full_frame:
  assumes r: "result_state (stepper_event_full d s) = Some s'" and wf: "stepper_wf s d"
    and c: "\<not> has (st_flags (steppers s d)) SF_OPTIMIZED_PATH"
  shows "step_frame d s s'"
proof (cases "st_count (steppers s d) = 1")
  case True
  obtain s1 where s1: "result_state (stepper_load_next d s1) = Some s'" "step_frame d s s1"
    using r True by (fastforce simp: stepper_event_full_def Let_def step_frame_unfold)
  from stepper_load_next_frame [OF s1(1) step_frame_wf [OF s1(2) wf]] s1(2) show ?thesis
    by (rule step_frame_trans [rotated])
next
  case False
  then show ?thesis using r c
    by (auto simp: stepper_event_full_def Let_def step_frame_unfold split: if_splits)
qed

lemma stepper_event_frame:
  assumes r: "result_state (timer_func_call stepper_call (Obj_timer d 0) s) = Some s'" and wf: "stepper_wf s d"
    and c: "st_count (steppers s d) \<noteq> 0"
  shows "step_frame d s s'"
proof (cases "has (st_flags (steppers s d)) SF_OPTIMIZED_PATH")
  case True
  with wf have w: "unat (st_count (steppers s d)) < 65536"
    "t_func s (Obj_timer d 0) = None" "have_edge_optimization s \<or> have_avr_optimization s"
    by (auto simp: stepper_wf_def Let_def)
  then have "result_state (stepper_event_edge d s) = Some s' \<or> result_state (stepper_event_avr d s) = Some s'"
    using r by (auto simp: timer_func_call_def stepper_call_def stepper_event_def split: if_splits)
  then show ?thesis
    using stepper_event_edge_frame [OF _ wf w(1) c] stepper_event_avr_frame [OF _ wf w(1) c] by blast
next
  case False
  with wf r have "result_state (stepper_event_full d s) = Some s'"
    by (auto simp: timer_func_call_def stepper_call_def stepper_event_def stepper_wf_def Let_def split: if_splits)
  from stepper_event_full_frame [OF this wf False] show ?thesis .
qed

lemma stop_free_loop_frame:
  assumes l: "stop_free_loop mh (s :: 'z motion_scheme) = Some r"
  shows "motion_frame d s (snd r) \<and> steppers (snd r) = steppers s"
proof (rule stop_free_loop.raw_induct [OF _ l])
  fix f mh and s :: "'z motion_scheme" and r
  assume IH: "\<And>mh s r. f mh s = Some r \<Longrightarrow> motion_frame d s (snd r) \<and> steppers (snd r) = steppers s"
    and b: "(if move_queue_empty mh then Some (mh, s)
        else case move_queue_pop mh s of None \<Rightarrow> None | Some (mn, mh') \<Rightarrow> f mh' (move_free mn s)) = Some r"
  have m: "motion_frame d s (move_free mn s)" for mn by (simp add: motion_frame_def)
  show "motion_frame d s (snd r) \<and> steppers (snd r) = steppers s"
  proof (cases "move_queue_empty mh")
    case True
    then show ?thesis using b by auto
  next
    case False
    then obtain mn mh' where "f mh' (move_free mn s) = Some r"
      using b by (auto split: option.splits)
    from IH [OF this] motion_frame_trans [OF m] show ?thesis by auto
  qed
qed

lemma stepper_stop_frame:
  assumes r: "result_state (stepper_stop d s) = Some s'"
  shows "step_frame d s s'"
proof -
  consider "result_state (sched_del_timer (Obj_timer d 0) s) = Some s'"
    | s1 mh s2 where "sched_del_timer (Obj_timer d 0) s = Ok () s1"
        "stop_free_loop (st_mq (steppers (stepper_stop_reset d s1) d)) (stepper_stop_reset d s1) = Some (mh, s2)"
        "s' = upd_stepper d (\<lambda>st. st\<lparr>st_mq := mh\<rparr>) s2"
    using r by (auto simp: stepper_stop_def Let_def result_state_andthen split: option.splits prod.splits)
  then show ?thesis
  proof cases
    case 1
    then show ?thesis by (intro step_frame_sched sched_del_timer_frame)
  next
    case 2
    have f1: "step_frame d s s1"
      by (intro step_frame_sched sched_del_timer_frame [of "Obj_timer d 0"]) (simp add: 2(1))
    have f2: "step_frame d s1 (stepper_stop_reset d s1)"
      by (auto simp: stepper_stop_reset_def Let_def step_frame_unfold stop_flags)
    have f3: "step_frame d (stepper_stop_reset d s1) s2"
      using stop_free_loop_frame [OF 2(2), of d] by (simp add: step_frame_def)
    have f4: "step_frame d s2 s'" using 2(3) by (simp add: step_frame_unfold)
    show ?thesis using f1 f2 f3 f4 by (blast intro: step_frame_trans)
  qed
qed

lemma stepper_oid_lookup_frame: "result_state (stepper_oid_lookup a s) = Some s' \<Longrightarrow> step_frame d s s'"
  by (auto simp: stepper_oid_lookup_def oid_lookup_def Let_def step_frame_unfold split: if_splits option.splits)

lemma stepper_oid_lookup_Ok: "stepper_oid_lookup a s = Ok d s' \<Longrightarrow> s' = s \<and> d \<in> stepper_objs s"
  by (auto simp: stepper_oid_lookup_def oid_lookup_def Let_def sched_shutdown_def stepper_objs_def
      split: if_splits option.splits intro!: bexI [OF _ nth_mem])

lemma next_dir_flags:
  "has (f AND - 3 OR b) SF_OPTIMIZED_PATH = has f SF_OPTIMIZED_PATH \<and> has (f AND - 3 OR b) SF_SINGLE_SCHED = has f SF_SINGLE_SCHED"
  if "b = 2 \<or> b = 0"
proof -
  have "(f AND NOT 2 OR b) AND 32 = f AND (32 :: u8)" "(f AND NOT 2 OR b) AND 16 = f AND (16 :: u8)"
    by (rule word8_eqI, unfold all_less_8, use that in \<open>auto simp: bit_simps\<close>)+
  then show ?thesis by (simp add: has_def)
qed

lemma reset_flags:
  "has (f AND - 9) SF_OPTIMIZED_PATH = has f SF_OPTIMIZED_PATH" "has (f AND - 9) SF_SINGLE_SCHED = has f SF_SINGLE_SCHED"
proof -
  have "(f AND NOT 8) AND 32 = f AND (32 :: u8)" "(f AND NOT 8) AND 16 = f AND (16 :: u8)"
    by (rule word8_eqI, unfold all_less_8, simp add: bit_simps)+
  then show "has (f AND - 9) SF_OPTIMIZED_PATH = has f SF_OPTIMIZED_PATH"
    "has (f AND - 9) SF_SINGLE_SCHED = has f SF_SINGLE_SCHED" by (simp_all add: has_def)
qed

lemma lookup_then_frame:
  assumes "result_state (andthen (stepper_oid_lookup a s) k) = Some s'"
    and "\<And>d. d \<in> stepper_objs s \<Longrightarrow> result_state (k d s) = Some s' \<Longrightarrow> step_frame d s s'"
  shows "\<exists>d. step_frame d s s'"
  using assms stepper_oid_lookup_frame [of a s s']
  by (auto simp: result_state_andthen dest: stepper_oid_lookup_Ok)

lemma set_next_step_dir_frame: "result_state (command_set_next_step_dir args s) = Some s' \<Longrightarrow> \<exists>d. step_frame d s s'"
  unfolding command_set_next_step_dir_def
  by (erule lookup_then_frame) (auto simp: Let_def step_frame_unfold next_dir_flags)

lemma reset_step_clock_frame: "result_state (command_reset_step_clock args s) = Some s' \<Longrightarrow> \<exists>d. step_frame d s s'"
  unfolding command_reset_step_clock_def
  by (erule lookup_then_frame) (auto simp: Let_def step_frame_unfold reset_flags split: if_splits)

lemma get_position_frame: "result_state (command_stepper_get_position args s) = Some s' \<Longrightarrow> \<exists>d. step_frame d s s'"
  unfolding command_stepper_get_position_def Let_def
  by (erule lookup_then_frame) (auto simp: Let_def step_frame_unfold)

lemma xor_dir_flags:
  "has (f XOR 1) SF_OPTIMIZED_PATH = has f SF_OPTIMIZED_PATH" "has (f XOR 1) SF_SINGLE_SCHED = has f SF_SINGLE_SCHED"
proof -
  have "(f XOR 1) AND 32 = f AND (32 :: u8)" "(f XOR 1) AND 16 = f AND (16 :: u8)"
    by (rule word8_eqI, unfold all_less_8, simp add: bit_simps)+
  then show "has (f XOR 1) SF_OPTIMIZED_PATH = has f SF_OPTIMIZED_PATH"
    "has (f XOR 1) SF_SINGLE_SCHED = has f SF_SINGLE_SCHED" by (simp_all add: has_def)
qed

lemma queue_step_push_frame: "result_state (queue_step_push d m s) = Some s' \<Longrightarrow> step_frame d s s'"
  by (auto simp: queue_step_push_def move_queue_push_def Let_def step_frame_unfold split: option.splits if_splits)

text \<open>Loading the first move of an idle stepper and starting its timer.\<close>

lemma queue_start_frame:
  assumes r: "result_state (andthen (queue_step_push d m s) (\<lambda>_ s. andthen (stepper_load_next d s)
      (\<lambda>_ s. sched_add_timer (Obj_timer d 0) s))) = Some s'" and wf: "stepper_wf s d"
  shows "step_frame d s s'"
proof -
  consider "result_state (queue_step_push d m s) = Some s'"
    | s1 where "queue_step_push d m s = Ok () s1" "result_state (stepper_load_next d s1) = Some s'"
    | s1 a s2 where "queue_step_push d m s = Ok () s1" "stepper_load_next d s1 = Ok a s2"
        "result_state (sched_add_timer (Obj_timer d 0) s2) = Some s'"
    using r by (auto simp: result_state_andthen)
  then show ?thesis
  proof cases
    case 1
    then show ?thesis by (rule queue_step_push_frame)
  next
    case 2
    have f: "step_frame d s s1" by (rule queue_step_push_frame [of d m]) (simp add: 2(1))
    from stepper_load_next_frame [OF 2(2) step_frame_wf [OF f wf]] f show ?thesis by (rule step_frame_trans [rotated])
  next
    case 3
    have f: "step_frame d s s1" by (rule queue_step_push_frame [of d m]) (simp add: 3(1))
    have f2: "step_frame d s1 s2"
      by (rule stepper_load_next_frame [OF _ step_frame_wf [OF f wf]]) (simp add: 3(2))
    have "step_frame d s2 s'" using 3(3) by (intro step_frame_sched sched_add_timer_frame)
    with f f2 show ?thesis by (blast intro: step_frame_trans)
  qed
qed

lemma queue_step_insert_frame:
  assumes r: "result_state (queue_step_insert d m s) = Some s'" and wf: "stepper_wf s d"
  shows "step_frame d s s'"
proof -
  define change where "change = (has (st_flags (steppers s d)) SF_LAST_DIR \<noteq> has (st_flags (steppers s d)) SF_NEXT_DIR)"
  define flags where "flags = (if change then st_flags (steppers s d) XOR SF_LAST_DIR else st_flags (steppers s d))"
  define s1 where "s1 = (if change
     then s\<lparr>smoves := (smoves s)(m := (smoves s m)\<lparr>sm_flags := sm_flags (smoves s m) OR MF_DIR\<rparr>)\<rparr> else s)"
  let ?s2 = "upd_stepper d (\<lambda>st. st\<lparr>st_flags := flags\<rparr>) s1"
  have f1: "step_frame d s s1" by (simp add: s1_def step_frame_unfold)
  have f2: "step_frame d s ?s2"
    by (auto simp: s1_def flags_def step_frame_unfold xor_dir_flags)
  have fm: "step_frame d s1 (move_free m s1)" by (simp add: step_frame_unfold)
  have "result_state (if st_count (steppers s1 d) \<noteq> 0 then queue_step_push d m ?s2
      else if has flags SF_NEED_RESET then Ok () (move_free m s1)
      else andthen (queue_step_push d m ?s2) (\<lambda>_ s. andthen (stepper_load_next d s)
             (\<lambda>_ s. sched_add_timer (Obj_timer d 0) s))) = Some s'"
    using r unfolding queue_step_insert_def Let_def s1_def flags_def change_def .
  then consider "result_state (queue_step_push d m ?s2) = Some s'" | "s' = move_free m s1"
    | "result_state (andthen (queue_step_push d m ?s2) (\<lambda>_ s. andthen (stepper_load_next d s)
             (\<lambda>_ s. sched_add_timer (Obj_timer d 0) s))) = Some s'"
    by (auto split: if_splits)
  then show ?thesis
  proof cases
    case 1
    from queue_step_push_frame [OF this] f2 show ?thesis by (rule step_frame_trans [rotated])
  next
    case 2
    then show ?thesis using f1 fm by (blast intro: step_frame_trans)
  next
    case 3
    from queue_start_frame [OF this step_frame_wf [OF f2 wf]] f2 show ?thesis by (rule step_frame_trans [rotated])
  qed
qed

lemma queue_step_frame:
  assumes r: "result_state (command_queue_step args s) = Some s'" and wf: "\<forall>d\<in>stepper_objs s. stepper_wf s d"
  shows "\<exists>d. step_frame d s s'"
  using r unfolding command_queue_step_def
proof (rule lookup_then_frame)
  fix d
  assume d: "d \<in> stepper_objs s"
    and r: "result_state (andthen (move_alloc s) (\<lambda>m s.
       let s = s\<lparr>smoves := (smoves s)(m := (smoves s m)\<lparr>sm_interval := args ! 1, sm_count := ucast (args ! 2)\<rparr>)\<rparr> in
       if sm_count (smoves s m) = 0 then sched_shutdown ''Invalid count parameter'' s
       else let s = s\<lparr>smoves := (smoves s)(m := (smoves s m)\<lparr>sm_add := ucast (args ! 3), sm_flags := 0\<rparr>)\<rparr>
            in andthen (queue_step_insert d m (irq_disable s)) (\<lambda>_ s. Ok () (irq_enable s)))) = Some s'"
  have ma: "step_frame d s t" if "result_state (move_alloc s) = Some t" for t
    using that by (auto simp: move_alloc_def Let_def step_frame_unfold split: option.splits)
  from r consider "result_state (move_alloc s) = Some s'" | m s1 where "move_alloc s = Ok m s1"
    "result_state (
       let s = s1\<lparr>smoves := (smoves s1)(m := (smoves s1 m)\<lparr>sm_interval := args ! 1, sm_count := ucast (args ! 2)\<rparr>)\<rparr> in
       if sm_count (smoves s m) = 0 then sched_shutdown ''Invalid count parameter'' s
       else let s = s\<lparr>smoves := (smoves s)(m := (smoves s m)\<lparr>sm_add := ucast (args ! 3), sm_flags := 0\<rparr>)\<rparr>
            in andthen (queue_step_insert d m (irq_disable s)) (\<lambda>_ s. Ok () (irq_enable s))) = Some s'"
    unfolding result_state_andthen by auto
  then show "step_frame d s s'"
  proof cases
    case 1
    then show ?thesis by (rule ma)
  next
    case 2
    have f1: "step_frame d s s1" by (rule ma) (simp add: 2(1))
    let ?a = "s1\<lparr>smoves := (smoves s1)(m := (smoves s1 m)\<lparr>sm_interval := args ! 1, sm_count := ucast (args ! 2)\<rparr>)\<rparr>"
    let ?b = "irq_disable (?a\<lparr>smoves := (smoves ?a)(m := (smoves ?a m)\<lparr>sm_add := ucast (args ! 3), sm_flags := 0\<rparr>)\<rparr>)"
    have fr: "step_frame d s1 ?a" "step_frame d s1 ?b" by (simp_all add: step_frame_unfold)
    have "s' = irq_disable ?a \<or> result_state (andthen (queue_step_insert d m ?b) (\<lambda>_ s. Ok () (irq_enable s))) = Some s'"
      using 2(2) unfolding Let_def sched_shutdown_def by (cases "sm_count (smoves ?a m) = 0") simp_all
    with fr obtain s2 where f2: "step_frame d s1 s2"
      and r2: "s' = irq_disable s2 \<or> result_state (andthen (queue_step_insert d m s2) (\<lambda>_ s. Ok () (irq_enable s))) = Some s'"
      by blast
    have f: "step_frame d s s2" using f1 f2 by (rule step_frame_trans)
    show ?thesis
    proof (cases "s' = irq_disable s2")
      case True
      then show ?thesis using step_frame_trans [OF f, of s'] by (simp add: step_frame_unfold)
    next
      case False
      then obtain s3 where "result_state (queue_step_insert d m s2) = Some s3" "s' = s3 \<or> s' = irq_enable s3"
        using r2 by (auto simp: result_state_andthen)
      moreover from this have "step_frame d s2 s3"
        using queue_step_insert_frame [OF _ step_frame_wf [OF f]] wf d by blast
      moreover have "step_frame d s3 (irq_enable s3)" by (simp add: step_frame_unfold)
      ultimately show ?thesis using f by (blast intro: step_frame_trans)
    qed
  qed
qed

text \<open>The invariant.\<close>

definition steppers_ok :: "'z motion_scheme \<Rightarrow> bool" where
  "steppers_ok s \<longleftrightarrow> (\<forall>d\<in>stepper_objs s. stepper_wf s d) \<and> free_oids_clear s \<and> sizeof_stepper_move s \<le> 255"

lemma step_frame_ok:
  assumes "step_frame d s s'" "steppers_ok s"
  shows "steppers_ok s'"
proof -
  have "free_oids_clear s' = free_oids_clear s" "sizeof_stepper_move s' = sizeof_stepper_move s"
    using assms(1) by (simp_all add: step_frame_def motion_frame_def free_oids_clear_def)
  then show ?thesis using assms step_frame_wf [OF assms(1)] step_frame_objs [OF assms(1)]
    by (simp add: steppers_ok_def)
qed

text \<open>Other steppers keep their state and handler.\<close>

definition others_same :: "nat \<Rightarrow> 'z motion_scheme \<Rightarrow> 'z motion_scheme \<Rightarrow> bool" where
  "others_same d s s' \<longleftrightarrow>
     (\<forall>e. e \<noteq> d \<longrightarrow> steppers s' e = steppers s e \<and> t_func s' (Obj_timer e 0) = t_func s (Obj_timer e 0)) \<and>
     have_edge_optimization s' = have_edge_optimization s \<and>
     have_avr_optimization s' = have_avr_optimization s \<and> sizeof_stepper_move s' = sizeof_stepper_move s"

lemma oid_alloc_stepper:
  assumes r: "oid_alloc a Stepper_oid sz s = Ok d s1" and ok: "steppers_ok s"
  shows "others_same d s s1 \<and> stepper_objs s1 \<subseteq> insert d (stepper_objs s) \<and> free_oids_clear s1 \<and> \<not> is_finalized s1"
proof -
  obtain tab where t: "oids s = Some tab" "oids s1 = Some (tab[unat (ucast a :: u8) := \<lparr>oid_type_of = Some Stepper_oid, oid_data = Some d\<rparr>])"
    "others_same d s s1" "\<not> is_finalized s1"
    using r by (auto simp: oid_alloc_def Let_def andthen_Ok_iff alloc_chunk_def sched_shutdown_def is_finalized_def
        others_same_def split: if_splits option.splits)
  have "stepper_objs s1 \<subseteq> insert d (stepper_objs s)" "free_oids_clear s1"
    using t ok set_update_subset_insert [of tab "unat (ucast a :: u8)"]
    by (fastforce simp: stepper_objs_def free_oids_clear_def steppers_ok_def list_all_iff)+
  with t show ?thesis by blast
qed

lemma oid_alloc_stepper_fail:
  assumes r: "oid_alloc a Stepper_oid sz s = Shutdown m s1" and ok: "steppers_ok s"
  shows "steppers_ok s1"
proof -
  from r consider "s1 = irq_disable s" | tab where "oids s = Some tab" "unat (ucast a :: u8) < length tab"
    "oid_type_of (tab ! unat (ucast a :: u8)) = None"
    "s1 = irq_disable (s\<lparr>oids := Some (tab[unat (ucast a :: u8) := (tab ! unat (ucast a :: u8))\<lparr>oid_type_of := Some Stepper_oid\<rparr>])\<rparr>)"
    by (auto simp: oid_alloc_def Let_def alloc_chunk_def sched_shutdown_def split: if_splits option.splits)
  then show ?thesis
  proof cases
    case 1
    then show ?thesis by (intro step_frame_ok [OF _ ok, of 0]) (simp add: step_frame_unfold)
  next
    case 2
    let ?i = "unat (ucast a :: u8)"
    have n: "oid_data (tab ! ?i) = None" using 2 ok by (simp add: steppers_ok_def free_oids_clear_def list_all_length)
    have "stepper_objs s1 \<subseteq> stepper_objs s" "free_oids_clear s1"
      using 2 n ok set_update_subset_insert [of tab ?i]
      by (fastforce simp: stepper_objs_def free_oids_clear_def steppers_ok_def list_all_iff irq_disable_def)+
    moreover have "stepper_wf s1 d = stepper_wf s d" "sizeof_stepper_move s1 = sizeof_stepper_move s" for d
      using 2(4) by (simp_all add: stepper_wf_def irq_disable_def)
    ultimately show ?thesis using ok by (auto simp: steppers_ok_def)
  qed
qed

lemma finalized_frame [simp]:
  "is_finalized (upd_stepper d f s) = is_finalized s" "is_finalized (emit e s) = is_finalized s"
  "is_finalized (zero_timer u s) = is_finalized s"
  by (simp_all add: is_finalized_def upd_stepper_def emit_def zero_timer_def)

lemma config_frame [simp]:
  "steppers (zero_timer u s) = steppers s" "t_func (zero_timer u s) = (t_func s)(u := None)"
  "oids (zero_timer u s) = oids s" "sizeof_stepper_move (zero_timer u s) = sizeof_stepper_move s"
  "have_edge_optimization (zero_timer u s) = have_edge_optimization s"
  "have_avr_optimization (zero_timer u s) = have_avr_optimization s"
  "steppers (set_func u g s) = steppers s"
  "oids (set_func u g s) = oids s" "sizeof_stepper_move (set_func u g s) = sizeof_stepper_move s"
  "have_edge_optimization (set_func u g s) = have_edge_optimization s"
  "have_avr_optimization (set_func u g s) = have_avr_optimization s"
  by (simp_all add: zero_timer_def set_func_def)

lemma flag_values:
  "has 0 32 = False" "has 4 32 = False" "has 16 32 = False" "has 16 16 = True" "has 48 32 = True" "has 48 16 = True"
  "has 52 32 = True" "has 52 16 = True"
  by (simp_all add: has_def)

lemma move_queue_setup_motion:
  assumes "sizeof_stepper_move s \<le> 255" "\<not> is_finalized s"
  shows "\<exists>mh s'. move_queue_setup (sizeof_stepper_move s) s = Ok mh s' \<and> steppers s' = steppers s \<and> t_func s' = t_func s \<and>
     oids s' = oids s \<and> sizeof_stepper_move s' = sizeof_stepper_move s \<and>
     have_edge_optimization s' = have_edge_optimization s \<and> have_avr_optimization s' = have_avr_optimization s \<and>
     inline_stepper_hack s' = inline_stepper_hack s"
  using assms by (simp add: move_queue_setup_def Let_def)

lemma config_stepper_init_frame:
  "others_same d s (config_stepper_init d args s)" "oids (config_stepper_init d args s) = oids s"
  "is_finalized (config_stepper_init d args s) = is_finalized s"
  "t_func (config_stepper_init d args s) (Obj_timer d 0) = None"
  "st_count (steppers (config_stepper_init d args s) d) = 0"
  "st_flags (steppers (config_stepper_init d args s) d) =
     (if sint (ucast (args ! 3) :: u8) > 0 then 4 else if sint (ucast (args ! 3) :: u8) < 0 then 16 else 0)"
  by (auto simp: config_stepper_init_def Let_def others_same_def upd_stepper_steppers zero_stepper_def)

lemma config_stepper_path_frame:
  "others_same d s (config_stepper_path d args s)" "oids (config_stepper_path d args s) = oids s"
  by (auto simp: config_stepper_path_def Let_def others_same_def upd_stepper_steppers)

lemma config_stepper_path_wf:
  assumes "t_func s (Obj_timer d 0) = None" "st_count (steppers s d) = 0"
    "st_flags (steppers s d) =
       (if sint (ucast (args ! 3) :: u8) > 0 then 4 else if sint (ucast (args ! 3) :: u8) < 0 then 16 else 0)"
  shows "stepper_wf (config_stepper_path d args s) d"
  using assms by (auto simp: config_stepper_path_def Let_def stepper_wf_def flag_values)

lemma others_same_trans: "others_same d s s1 \<Longrightarrow> others_same d s1 s2 \<Longrightarrow> others_same d s s2"
  by (simp add: others_same_def)

lemma config_stepper_rest:
  assumes r: "result_state (command_config_stepper args s) = Some s'"
    and a: "oid_alloc (args ! 0) Stepper_oid (sizeof_stepper s) s = Ok d s1"
    and n: "\<not> is_finalized s1" "sizeof_stepper_move s1 \<le> 255"
  shows "others_same d s1 s' \<and> stepper_wf s' d \<and> oids s' = oids s1"
proof -
  let ?s2 = "config_stepper_init d args s1"
  note i = config_stepper_init_frame [where d = d and s = s1 and args = args]
  have "sizeof_stepper_move ?s2 \<le> 255" "\<not> is_finalized ?s2" using i n by (auto simp: others_same_def)
  from move_queue_setup_motion [OF this] obtain mh s3 where s3: "move_queue_setup (sizeof_stepper_move ?s2) ?s2 = Ok mh s3"
    "steppers s3 = steppers ?s2" "t_func s3 = t_func ?s2" "oids s3 = oids ?s2" "others_same d ?s2 s3"
    by (auto simp: others_same_def)
  let ?s4 = "upd_stepper d (\<lambda>st. st\<lparr>st_mq := mh\<rparr>) s3"
  have s': "s' = config_stepper_path d args ?s4"
    using r a s3(1) by (simp add: command_config_stepper_def Let_def)
  have "others_same d s3 ?s4" by (simp add: others_same_def upd_stepper_steppers)
  then have "others_same d s1 s'" unfolding s'
    using others_same_trans [OF i(1)] others_same_trans [OF s3(5)] config_stepper_path_frame(1) others_same_trans by blast
  moreover have "stepper_wf s' d" unfolding s'
    by (rule config_stepper_path_wf) (simp_all add: s3 i)
  moreover have "oids s' = oids s1" unfolding s' by (simp add: config_stepper_path_frame s3 i)
  ultimately show ?thesis by blast
qed

lemma config_stepper_ok:
  assumes r: "result_state (command_config_stepper args s) = Some s'" and ok: "steppers_ok s"
  shows "steppers_ok s'"
proof (cases "oid_alloc (args ! 0) Stepper_oid (sizeof_stepper s) s")
  case (Ok d s1)
  note o = oid_alloc_stepper [OF Ok ok]
  have n: "sizeof_stepper_move s1 \<le> 255" using o ok by (auto simp: others_same_def steppers_ok_def)
  note c = config_stepper_rest [OF r Ok _ n]
  have w: "stepper_wf s' e" if "e \<noteq> d" "stepper_wf s e" for e
    using that o c by (simp add: others_same_def stepper_wf_def)
  have "stepper_objs s' = stepper_objs s1" "free_oids_clear s' = free_oids_clear s1"
    using o c by (simp_all add: stepper_objs_def free_oids_clear_def)
  moreover have "stepper_wf s' e" if "e \<in> stepper_objs s1" for e
    using that o c w ok by (cases "e = d") (auto simp: steppers_ok_def)
  moreover have "sizeof_stepper_move s' \<le> 255" using o c n by (simp add: others_same_def)
  ultimately show ?thesis using o by (simp add: steppers_ok_def)
next
  case (Shutdown m s1)
  then show ?thesis using r oid_alloc_stepper_fail [OF Shutdown ok] by (simp add: command_config_stepper_def)
next
  case Fault
  then show ?thesis using r by (simp add: command_config_stepper_def)
qed

lemma stepper_step_ok:
  assumes "stepper_step s s'" "steppers_ok s"
  shows "steppers_ok s'"
  using assms
proof cases
  case (config args)
  then show ?thesis using config_stepper_ok assms(2) by blast
next
  case (queue_step args)
  then show ?thesis using queue_step_frame step_frame_ok assms(2) by (metis steppers_ok_def)
next
  case (set_next_step_dir args)
  then show ?thesis using set_next_step_dir_frame step_frame_ok assms(2) by blast
next
  case (reset_step_clock args)
  then show ?thesis using reset_step_clock_frame step_frame_ok assms(2) by blast
next
  case (get_position args)
  then show ?thesis using get_position_frame step_frame_ok assms(2) by blast
next
  case (event d)
  then show ?thesis using stepper_event_frame step_frame_ok assms(2) by (metis steppers_ok_def)
next
  case (stop d)
  then show ?thesis using stepper_stop_frame step_frame_ok assms(2) by blast
qed

text \<open>
  C24: In every state that commands, timer events and stops can reach from a configuration
  without steppers, also across shutdowns, each configured stepper is well-formed: it takes the
  optimised path only with one event per step, a 16-bit count, the inlined handler and a board
  that has one, and otherwise runs the fully scheduled handler.
  Hypothesis: the state is reachable.
\<close>

theorem stepper_invariant:
  assumes "stepper_reach s" "d \<in> stepper_objs s"
  shows "stepper_wf s d"
proof -
  have "steppers_ok s" using assms(1)
  proof (induction rule: stepper_reach.induct)
    case (boot s)
    then show ?case by (simp add: steppers_ok_def)
  next
    case (step s s')
    then show ?case using stepper_step_ok by blast
  qed
  with assms(2) show ?thesis by (simp add: steppers_ok_def)
qed

theorem stepper_invariant_witness:
  "\<exists>s' d. command_config_stepper [0, 5, 6, 255, 1]
       (demo_motion\<lparr>dynmem_end := 1000\<rparr>) = Ok () s' \<and> d \<in> stepper_objs s' \<and> stepper_wf s' d \<and>
     has (st_flags (steppers s' d)) SF_OPTIMIZED_PATH"
proof -
  let ?s = "demo_motion\<lparr>dynmem_end := 1000\<rparr>"
  have b: "stepper_reach ?s"
    by (rule stepper_reach.boot) (simp_all add: stepper_objs_def free_oids_clear_def demo_motion_simps)
  have "\<exists>s'. command_config_stepper [0, 5, 6, 255, 1] ?s = Ok () s' \<and> 4 \<in> stepper_objs s' \<and>
     has (st_flags (steppers s' 4)) SF_OPTIMIZED_PATH"
    by (simp add: command_config_stepper_def oid_alloc_def alloc_chunk_def is_finalized_def Let_def
        config_stepper_init_def config_stepper_path_def move_queue_setup_def stepper_objs_def
        upd_stepper_def zero_timer_def emit_def have_edge_optimization_def EDGE_STEP_TICKS_def div_round_up_def
        demo_motion_simps flag_values)
  then obtain s' where s': "command_config_stepper [0, 5, 6, 255, 1] ?s = Ok () s'" "4 \<in> stepper_objs s'"
    "has (st_flags (steppers s' 4)) SF_OPTIMIZED_PATH" by blast
  have "stepper_reach s'"
    by (rule stepper_reach.step [OF b stepper_step.config [of "[0, 5, 6, 255, 1]"]]) (simp add: s'(1))
  from stepper_invariant [OF this s'(2)] s' show ?thesis by blast
qed

end
