(* ===== verification/Trsync.thy ===== *)
theory Trsync
  imports Stepper
begin

text \<open>
  The trigger synchronisation of the firmware (\<^verbatim>\<open>src/src/trsync.c\<close>) and the stepper command that
  registers with it. The signals of a trsync object form a list through the \<^verbatim>\<open>stop_signal\<close> fields
  of the steppers: the address of a stepper stands for the address of its signal. The two timers of
  an object are its timers 0 (report) and 1 (expire).
\<close>

record trsync =
  report_ticks :: u32
  ts_signals :: "nat option"
  ts_flags :: u8
  ts_trigger_reason :: u8
  ts_expire_reason :: u8

record tsync = motion +
  sizeof_trsync :: nat
  trsyncs :: "nat \<Rightarrow> trsync"

abbreviation (input) TSF_CAN_TRIGGER :: u8 where "TSF_CAN_TRIGGER \<equiv> 1"
abbreviation (input) TSF_REPORT :: u8 where "TSF_REPORT \<equiv> 4"
abbreviation (input) report_time :: "nat \<Rightarrow> tmr" where "report_time d \<equiv> Obj_timer d 0"
abbreviation (input) expire_time :: "nat \<Rightarrow> tmr" where "expire_time d \<equiv> Obj_timer d 1"

definition upd_trsync :: "nat \<Rightarrow> (trsync \<Rightarrow> trsync) \<Rightarrow> 'z tsync_scheme \<Rightarrow> 'z tsync_scheme" where
  "upd_trsync d f s = s\<lparr>trsyncs := (trsyncs s)(d := f (trsyncs s d))\<rparr>"

definition zero_trsync :: trsync where
  "zero_trsync = \<lparr>report_ticks = 0, ts_signals = None, ts_flags = 0, ts_trigger_reason = 0, ts_expire_reason = 0\<rparr>"

section \<open>Triggering\<close>

text \<open>
  The loop over the signals: each is unlinked before its function, \<^verbatim>\<open>stepper_stop\<close>, is called.
  A signal without a function is a call of NULL; \<open>None\<close> is a loop that never ends.
\<close>

partial_function (option) do_trigger_loop ::
  "nat \<Rightarrow> 'z tsync_scheme \<Rightarrow> (unit, 'z tsync_scheme) outcome option"
where
  "do_trigger_loop ts s =
     (case ts_signals (trsyncs s ts) of
        None \<Rightarrow> Some (Ok () s)
      | Some tss \<Rightarrow>
          let func = stop_func (steppers s tss);
              s = upd_trsync ts (\<lambda>t. t\<lparr>ts_signals := stop_next (steppers s tss)\<rparr>) s;
              s = upd_stepper tss (\<lambda>st. st\<lparr>stop_next := None, stop_func := False\<rparr>) s
          in if \<not> func then Some Fault
             else (case stepper_stop tss s of
                     Ok _ s \<Rightarrow> do_trigger_loop ts s
                   | Shutdown m s \<Rightarrow> Some (Shutdown m s)
                   | Fault \<Rightarrow> Some Fault))"

definition trsync_do_trigger :: "nat \<Rightarrow> u8 \<Rightarrow> 'z tsync_scheme \<Rightarrow> (unit, 'z tsync_scheme) outcome" where
  "trsync_do_trigger ts reason s =
     (let flag = irq_on s;
          s = irq_disable s;
          flags = ts_flags (trsyncs s ts)
      in if \<not> has flags TSF_CAN_TRIGGER then Ok () (s\<lparr>irq_on := flag\<rparr>)
         else let s = upd_trsync ts (\<lambda>t. t\<lparr>ts_trigger_reason := reason,
                        ts_flags := (flags AND NOT TSF_CAN_TRIGGER) OR TSF_REPORT\<rparr>) s
              in case do_trigger_loop ts s of
                   None \<Rightarrow> Fault
                 | Some r \<Rightarrow> andthen r (\<lambda>_ s.
                     let s = sched_wake_task Trsync_wake s in Ok () (s\<lparr>irq_on := flag\<rparr>)))"

definition trsync_expire_event :: "nat \<Rightarrow> 'z tsync_scheme \<Rightarrow> (sched_ret, 'z tsync_scheme) outcome" where
  "trsync_expire_event ts s =
     andthen (trsync_do_trigger ts (ts_expire_reason (trsyncs s ts)) s) (\<lambda>_ s. Ok SF_DONE s)"

definition trsync_report_event :: "nat \<Rightarrow> 'z tsync_scheme \<Rightarrow> (sched_ret, 'z tsync_scheme) outcome" where
  "trsync_report_event ts s =
     (let s = upd_trsync ts (\<lambda>t. t\<lparr>ts_flags := ts_flags t OR TSF_REPORT\<rparr>) s;
          s = sched_wake_task Trsync_wake s;
          s = set_wake (report_time ts) (t_wake s (report_time ts) + report_ticks (trsyncs s ts)) s
      in Ok SF_RESCHEDULE s)"

section \<open>Commands\<close>

definition command_config_trsync :: "u32 list \<Rightarrow> 'z tsync_scheme \<Rightarrow> (unit, 'z tsync_scheme) outcome" where
  "command_config_trsync args s =
     andthen (oid_alloc (args ! 0) Trsync_oid (sizeof_trsync s) s)
       (\<lambda>ts s.
         let s = zero_timer (report_time ts) (zero_timer (expire_time ts) s);
             s = upd_trsync ts (\<lambda>_. zero_trsync) s;
             s = set_func (report_time ts) (Some Trsync_report_event) s;
             s = set_func (expire_time ts) (Some Trsync_expire_event) s
         in Ok () s)"

definition trsync_oid_lookup :: "u32 \<Rightarrow> 'z tsync_scheme \<Rightarrow> (nat, 'z tsync_scheme) outcome" where
  "trsync_oid_lookup arg s = oid_lookup arg Trsync_oid s"

text \<open>The function of a signal is never NULL here: the only caller passes \<^verbatim>\<open>stepper_stop\<close>.\<close>

definition trsync_add_signal :: "nat \<Rightarrow> nat \<Rightarrow> 'z tsync_scheme \<Rightarrow> (unit, 'z tsync_scheme) outcome" where
  "trsync_add_signal ts tss s =
     (let flag = irq_on s; s = irq_disable s in
      if stop_func (steppers s tss) then sched_shutdown ''Can't add signal that is already active'' s
      else let s = upd_stepper tss (\<lambda>st. st\<lparr>stop_func := True, stop_next := ts_signals (trsyncs s ts)\<rparr>) s;
               s = upd_trsync ts (\<lambda>t. t\<lparr>ts_signals := Some tss\<rparr>) s
           in Ok () (s\<lparr>irq_on := flag\<rparr>))"

definition command_stepper_stop_on_trigger :: "u32 list \<Rightarrow> 'z tsync_scheme \<Rightarrow> (unit, 'z tsync_scheme) outcome"
where
  "command_stepper_stop_on_trigger args s =
     andthen (stepper_oid_lookup (args ! 0) s)
       (\<lambda>st s. andthen (trsync_oid_lookup (args ! 1) s)
         (\<lambda>ts s. trsync_add_signal ts st s))"

partial_function (option) clear_signals :: "nat option \<Rightarrow> 'z motion_scheme \<Rightarrow> 'z motion_scheme option" where
  "clear_signals p s =
     (case p of
        None \<Rightarrow> Some s
      | Some tss \<Rightarrow>
          clear_signals (stop_next (steppers s tss))
            (upd_stepper tss (\<lambda>st. st\<lparr>stop_func := False, stop_next := None\<rparr>) s))"

definition trsync_clear :: "nat \<Rightarrow> 'z tsync_scheme \<Rightarrow> (unit, 'z tsync_scheme) outcome" where
  "trsync_clear ts s =
     andthen (sched_del_timer (report_time ts) s)
       (\<lambda>_ s. andthen (sched_del_timer (expire_time ts) s)
         (\<lambda>_ s.
           case clear_signals (ts_signals (trsyncs s ts)) s of
             None \<Rightarrow> Fault
           | Some s \<Rightarrow> Ok () (upd_trsync ts (\<lambda>t. t\<lparr>ts_signals := None, ts_flags := 0,
                                 ts_trigger_reason := 0, ts_expire_reason := 0\<rparr>) s)))"

definition command_trsync_start :: "u32 list \<Rightarrow> 'z tsync_scheme \<Rightarrow> (unit, 'z tsync_scheme) outcome" where
  "command_trsync_start args s =
     andthen (trsync_oid_lookup (args ! 0) s)
       (\<lambda>ts s. andthen (trsync_clear ts (irq_disable s))
         (\<lambda>_ s.
           let s = upd_trsync ts (\<lambda>t. t\<lparr>ts_flags := TSF_CAN_TRIGGER\<rparr>) s;
               s = set_wake (report_time ts) (args ! 1) s;
               s = upd_trsync ts (\<lambda>t. t\<lparr>report_ticks := args ! 2\<rparr>) s
           in andthen
                (if report_ticks (trsyncs s ts) \<noteq> 0 then sched_add_timer (report_time ts) s else Ok () s)
                (\<lambda>_ s.
                  let s = upd_trsync ts (\<lambda>t. t\<lparr>ts_expire_reason := ucast (args ! 3)\<rparr>) s
                  in Ok () (irq_enable s))))"

definition command_trsync_set_timeout :: "u32 list \<Rightarrow> 'z tsync_scheme \<Rightarrow> (unit, 'z tsync_scheme) outcome" where
  "command_trsync_set_timeout args s =
     andthen (trsync_oid_lookup (args ! 0) s)
       (\<lambda>ts s.
         let s = irq_disable s in
         andthen
           (if has (ts_flags (trsyncs s ts)) TSF_CAN_TRIGGER
            then andthen (sched_del_timer (expire_time ts) s)
                   (\<lambda>_ s. sched_add_timer (expire_time ts) (set_wake (expire_time ts) (args ! 1) s))
            else Ok () s)
           (\<lambda>_ s. Ok () (irq_enable s)))"

definition trsync_report :: "u8 \<Rightarrow> u8 \<Rightarrow> u8 \<Rightarrow> u32 \<Rightarrow> 'z board_scheme \<Rightarrow> 'z board_scheme" where
  "trsync_report oid flags reason clock s =
     emit (Sendf ''trsync_state oid=%c can_trigger=%c trigger_reason=%c clock=%u''
       [ucast oid, bool_u32 (has flags TSF_CAN_TRIGGER), ucast reason, clock] []) s"

definition command_trsync_trigger :: "u32 list \<Rightarrow> 'z tsync_scheme \<Rightarrow> (unit, 'z tsync_scheme) outcome" where
  "command_trsync_trigger args s =
     (let oid = ucast (args ! 0) :: u8 in
      andthen (trsync_oid_lookup (ucast oid) s)
        (\<lambda>ts s. andthen (trsync_do_trigger ts (ucast (args ! 1)) (irq_disable s))
          (\<lambda>_ s. andthen (sched_del_timer (report_time ts) s)
            (\<lambda>_ s. andthen (sched_del_timer (expire_time ts) s)
              (\<lambda>_ s.
                let s = upd_trsync ts (\<lambda>t. t\<lparr>ts_flags := 0\<rparr>) s;
                    trigger_reason = ts_trigger_reason (trsyncs s ts);
                    s = irq_enable s
                in Ok () (trsync_report oid 0 trigger_reason 0 s))))))"

section \<open>Reports and shutdown\<close>

fun trsync_task_list :: "(u8 \<times> nat) list \<Rightarrow> 'z tsync_scheme \<Rightarrow> 'z tsync_scheme" where
  "trsync_task_list [] s = s"
| "trsync_task_list ((oid, ts) # tss) s =
     (if \<not> has (ts_flags (trsyncs s ts)) TSF_REPORT then trsync_task_list tss s
      else let (time, s) = timer_read_time s;
               s = irq_disable s;
               trigger_reason = ts_trigger_reason (trsyncs s ts);
               flags = ts_flags (trsyncs s ts);
               s = upd_trsync ts (\<lambda>t. t\<lparr>ts_flags := flags AND NOT TSF_REPORT\<rparr>) s;
               s = irq_enable s;
               s = trsync_report oid flags trigger_reason time s
           in trsync_task_list tss s)"

definition trsync_task :: "'z tsync_scheme \<Rightarrow> 'z tsync_scheme" where
  "trsync_task s =
     (let (woken, s) = sched_check_wake Trsync_wake s
      in if \<not> woken then s else trsync_task_list (foreach_oid Trsync_oid s) s)"

fun trsync_shutdown_list :: "(u8 \<times> nat) list \<Rightarrow> 'z tsync_scheme \<Rightarrow> (unit, 'z tsync_scheme) outcome" where
  "trsync_shutdown_list [] s = Ok () s"
| "trsync_shutdown_list ((oid, ts) # tss) s =
     andthen (trsync_clear ts s) (\<lambda>_ s. trsync_shutdown_list tss s)"

definition trsync_shutdown :: "'z tsync_scheme \<Rightarrow> (unit, 'z tsync_scheme) outcome" where
  "trsync_shutdown s = trsync_shutdown_list (foreach_oid Trsync_oid s) s"

end
