(* ===== verification/Endstop.thy ===== *)
theory Endstop
  imports Trsync
begin

text \<open>
  The end stops of the firmware (\<^verbatim>\<open>src/src/endstop.c\<close>): a timer samples an input pin and triggers a
  trsync object after enough matching samples in a row.
\<close>

record endstop =
  es_pin :: u32
  rest_time :: u32
  sample_time :: u32
  nextwake :: u32
  es_ts :: "nat option"
  es_flags :: u8
  sample_count :: u8
  trigger_count :: u8
  es_trigger_reason :: u8

record homing = tsync +
  sizeof_endstop :: nat
  endstops :: "nat \<Rightarrow> endstop"

abbreviation (input) ESF_PIN_HIGH :: u8 where "ESF_PIN_HIGH \<equiv> 1"
abbreviation (input) ESF_HOMING :: u8 where "ESF_HOMING \<equiv> 2"
abbreviation (input) endstop_timer :: "nat \<Rightarrow> tmr" where "endstop_timer d \<equiv> Obj_timer d 0"

definition upd_endstop :: "nat \<Rightarrow> (endstop \<Rightarrow> endstop) \<Rightarrow> 'z homing_scheme \<Rightarrow> 'z homing_scheme" where
  "upd_endstop d f s = s\<lparr>endstops := (endstops s)(d := f (endstops s d))\<rparr>"

definition zero_endstop :: endstop where
  "zero_endstop = \<lparr>es_pin = 0, rest_time = 0, sample_time = 0, nextwake = 0, es_ts = None, es_flags = 0,
     sample_count = 0, trigger_count = 0, es_trigger_reason = 0\<rparr>"

text \<open>The test of both handlers: the pin does not have the value waited for.\<close>

definition no_match :: "bool \<Rightarrow> u8 \<Rightarrow> bool" where
  "no_match val flags \<longleftrightarrow> has (if val then NOT flags else flags) ESF_PIN_HIGH"

definition endstop_oversample_event :: "nat \<Rightarrow> 'z homing_scheme \<Rightarrow> (sched_ret, 'z homing_scheme) outcome" where
  "endstop_oversample_event d s =
     (let (val, s) = gpio_in_read (es_pin (endstops s d)) s in
      if no_match val (es_flags (endstops s d))
      then let s = set_func (endstop_timer d) (Some Endstop_event) s;
               s = set_wake (endstop_timer d) (nextwake (endstops s d)) s;
               s = upd_endstop d (\<lambda>e. e\<lparr>trigger_count := sample_count e\<rparr>) s
           in Ok SF_RESCHEDULE s
      else let count = trigger_count (endstops s d) - 1 in
           if count = 0
           then (case es_ts (endstops s d) of
                   None \<Rightarrow> Fault
                 | Some ts \<Rightarrow> andthen (trsync_do_trigger ts (es_trigger_reason (endstops s d)) s) (\<lambda>_ s. Ok SF_DONE s))
           else let s = upd_endstop d (\<lambda>e. e\<lparr>trigger_count := count\<rparr>) s;
                    s = set_wake (endstop_timer d) (t_wake s (endstop_timer d) + sample_time (endstops s d)) s
                in Ok SF_RESCHEDULE s)"

definition endstop_event :: "nat \<Rightarrow> 'z homing_scheme \<Rightarrow> (sched_ret, 'z homing_scheme) outcome" where
  "endstop_event d s =
     (let (val, s) = gpio_in_read (es_pin (endstops s d)) s;
          next = t_wake s (endstop_timer d) + rest_time (endstops s d)
      in if no_match val (es_flags (endstops s d))
         then Ok SF_RESCHEDULE (set_wake (endstop_timer d) next s)
         else let s = upd_endstop d (\<lambda>e. e\<lparr>nextwake := next\<rparr>) s;
                  s = set_func (endstop_timer d) (Some Endstop_oversample_event) s
              in endstop_oversample_event d s)"

definition command_config_endstop :: "u32 list \<Rightarrow> 'z homing_scheme \<Rightarrow> (unit, 'z homing_scheme) outcome" where
  "command_config_endstop args s =
     andthen (oid_alloc (args ! 0) Endstop_oid (sizeof_endstop s) s)
       (\<lambda>d s.
         let s = upd_endstop d (\<lambda>_. zero_endstop) (zero_timer (endstop_timer d) s);
             s = emit (Gpio_in_setup (args ! 1) (args ! 2)) s
         in Ok () (upd_endstop d (\<lambda>e. e\<lparr>es_pin := args ! 1\<rparr>) s))"

definition command_endstop_home :: "u32 list \<Rightarrow> 'z homing_scheme \<Rightarrow> (unit, 'z homing_scheme) outcome" where
  "command_endstop_home args s =
     andthen (oid_lookup (args ! 0) Endstop_oid s)
       (\<lambda>d s. andthen (sched_del_timer (endstop_timer d) s)
         (\<lambda>_ s.
           let s = set_wake (endstop_timer d) (args ! 1) s;
               s = upd_endstop d (\<lambda>e. e\<lparr>sample_time := args ! 2, sample_count := ucast (args ! 3)\<rparr>) s
           in if sample_count (endstops s d) = 0
              then Ok () (upd_endstop d (\<lambda>e. e\<lparr>es_ts := None, es_flags := 0\<rparr>) s)
              else
                let s = upd_endstop d (\<lambda>e. e\<lparr>rest_time := args ! 4\<rparr>) s;
                    s = set_func (endstop_timer d) (Some Endstop_event) s;
                    s = upd_endstop d (\<lambda>e. e\<lparr>trigger_count := sample_count e,
                          es_flags := ESF_HOMING OR (if args ! 5 \<noteq> 0 then ESF_PIN_HIGH else 0)\<rparr>) s
                in andthen (trsync_oid_lookup (args ! 6) s)
                     (\<lambda>ts s.
                       let s = upd_endstop d (\<lambda>e. e\<lparr>es_ts := Some ts, es_trigger_reason := ucast (args ! 7)\<rparr>) s
                       in sched_add_timer (endstop_timer d) s)))"

definition command_endstop_query_state :: "u32 list \<Rightarrow> 'z homing_scheme \<Rightarrow> (unit, 'z homing_scheme) outcome"
where
  "command_endstop_query_state args s =
     (let oid = ucast (args ! 0) :: u8 in
      andthen (oid_lookup (ucast oid) Endstop_oid s)
        (\<lambda>d s.
          let s = irq_disable s;
              eflags = es_flags (endstops s d);
              next = nextwake (endstops s d);
              s = irq_enable s;
              (val, s) = gpio_in_read (es_pin (endstops s d)) s
          in Ok () (emit (Sendf ''endstop_state oid=%c homing=%c next_clock=%u pin_value=%c''
               [ucast oid, bool_u32 (has eflags ESF_HOMING), next, bool_u32 val] []) s)))"

end
