(* ===== verification/Trsync_Props.thy ===== *)
theory Trsync_Props
  imports Trsync Stepper_Inv
begin

text \<open>
  Properties of \<^verbatim>\<open>src/src/trsync.c\<close>: a trigger stops every registered stepper, exactly once, and
  tells the host.
\<close>

section \<open>The signals of an object\<close>

definition sig_list :: "'z motion_scheme \<Rightarrow> nat option \<Rightarrow> nat list \<Rightarrow> bool" where
  "sig_list s p xs \<longleftrightarrow>
     chain (\<lambda>d. stop_next (steppers s d)) p xs \<and> distinct xs \<and> (\<forall>d\<in>set xs. stop_func (steppers s d))"

text \<open>Each registered stepper has its own queue of moves, apart from the free ones.\<close>

definition queues_ok :: "'z motion_scheme \<Rightarrow> nat list \<Rightarrow> (nat \<Rightarrow> nat list) \<Rightarrow> nat list \<Rightarrow> bool" where
  "queues_ok s xs qs fl \<longleftrightarrow>
     (\<forall>d\<in>set xs. mq s (st_mq (steppers s d)) (qs d)) \<and> free_nodes s fl \<and> distinct (concat (map qs xs) @ fl)"

text \<open>A stepper that has been stopped and is no longer registered.\<close>

definition stopped_by :: "stepper \<Rightarrow> stepper \<Rightarrow> bool" where
  "stopped_by st st' \<longleftrightarrow>
     st_count st' = 0 \<and> has (st_flags st') SF_NEED_RESET \<and> move_queue_empty (st_mq st') \<and>
     stepper_get_position st' = stepper_get_position st \<and> \<not> stop_func st' \<and> stop_next st' = None"

lemma mq_of_m_next:
  assumes "mq s mh xs" "\<And>u. u \<in> set xs \<Longrightarrow> m_next s' u = m_next s u"
  shows "mq s' mh xs"
  using mq_frame [OF assms(1), of "m_next s'"] assms(2) by (simp add: mq_def)

lemma chain_steppers:
  assumes "chain (\<lambda>d. stop_next (f d)) p xs" "\<And>d. d \<in> set xs \<Longrightarrow> stop_next (g d) = stop_next (f d)"
  shows "chain (\<lambda>d. stop_next (g d)) p xs"
  using assms by (induction xs arbitrary: p) auto

lemma trsyncs_of_more: "motion.more s' = motion.more s \<Longrightarrow> trsyncs s' = trsyncs s"
  by (cases s, cases s', simp)

lemma upd_trsync_frame [simp]:
  "steppers (upd_trsync ts f s) = steppers s" "m_next (upd_trsync ts f s) = m_next s"
  "move_free_list (upd_trsync ts f s) = move_free_list s" "trsyncs (upd_trsync ts f s) = (trsyncs s)(ts := f (trsyncs s ts))"
  "sched_inv (upd_trsync ts f s) q = sched_inv s q" "irq_on (upd_trsync ts f s) = irq_on s"
  "task_wake (upd_trsync ts f s) = task_wake s"
  by (simp_all add: upd_trsync_def sched_inv_def running_def)

lemma upd_stepper_more [simp]:
  "trsyncs (upd_stepper d f s) = trsyncs s" "irq_on (upd_stepper d f s) = irq_on s"
  "task_wake (upd_stepper d f s) = task_wake s"
  by (simp_all add: upd_stepper_def)

section \<open>Dispatching the signals\<close>

lemma do_trigger_loop_spec:
  assumes "sched_inv s q" "sig_list s (ts_signals (trsyncs s ts)) xs" "queues_ok s xs qs fl"
  shows "\<exists>s' q' fl'. do_trigger_loop ts s = Some (Ok () s') \<and> sched_inv s' q' \<and>
     pending q' = fold (\<lambda>d. remove1 (Obj_timer d 0)) xs (pending q) \<and> free_nodes s' fl' \<and>
     set fl' = set (concat (map qs xs) @ fl) \<and>
     (\<forall>d\<in>set xs. stopped_by (steppers s d) (steppers s' d)) \<and>
     (\<forall>d. d \<notin> set xs \<longrightarrow> steppers s' d = steppers s d) \<and>
     trsyncs s' = (trsyncs s)(ts := (trsyncs s ts)\<lparr>ts_signals := None\<rparr>) \<and>
     irq_on s' = irq_on s \<and> task_wake s' = task_wake s"
  using assms
proof (induction xs arbitrary: s q fl)
  case Nil
  then have n: "ts_signals (trsyncs s ts) = None" by (simp add: sig_list_def)
  then have "(trsyncs s)(ts := (trsyncs s ts)\<lparr>ts_signals := None\<rparr>) = trsyncs s"
    by (intro ext) (cases "trsyncs s ts", simp)
  with n Nil show ?case
    by (subst do_trigger_loop.simps) (auto simp: queues_ok_def)
next
  case (Cons d xs)
  let ?st = "steppers s d"
  have sig: "ts_signals (trsyncs s ts) = Some d" "stop_func ?st" "d \<notin> set xs"
    "chain (\<lambda>d. stop_next (steppers s d)) (stop_next ?st) xs" "distinct xs" "\<forall>e\<in>set xs. stop_func (steppers s e)"
    using Cons.prems(2) by (auto simp: sig_list_def)
  have qd: "mq s (st_mq ?st) (qs d)" "free_nodes s fl" "distinct (concat (map qs xs) @ fl)" "distinct (qs d @ fl)"
    "set (qs d) \<inter> set (concat (map qs xs)) = {}" "\<forall>e\<in>set xs. mq s (st_mq (steppers s e)) (qs e)"
    using Cons.prems(3) by (auto simp: queues_ok_def)
  define s1 where "s1 = upd_stepper d (\<lambda>st. st\<lparr>stop_next := None, stop_func := False\<rparr>)
      (upd_trsync ts (\<lambda>t. t\<lparr>ts_signals := stop_next ?st\<rparr>) s)"
  have s1: "sched_inv s1 q" "mq s1 (st_mq (steppers s1 d)) (qs d)" "free_nodes s1 fl" "m_next s1 = m_next s"
    "trsyncs s1 = (trsyncs s)(ts := (trsyncs s ts)\<lparr>ts_signals := stop_next ?st\<rparr>)"
    "steppers s1 = (steppers s)(d := ?st\<lparr>stop_next := None, stop_func := False\<rparr>)"
    "irq_on s1 = irq_on s" "task_wake s1 = task_wake s"
    using Cons.prems(1) qd by (simp_all add: s1_def mq_def free_nodes_def upd_stepper_steppers)
  from stepper_stop_cases [OF s1(1-3) qd(4)] obtain s2 q2 mh where
    s2: "stepper_stop d s1 = Ok () s2" "sched_inv s2 q2" "pending q2 = remove1 (Obj_timer d 0) (pending q)"
    "free_nodes s2 (rev (qs d) @ fl)" "move_queue_empty mh"
    "steppers s2 = (steppers s1)(d := stopped (steppers s1 d)\<lparr>st_mq := mh\<rparr>)"
    "\<forall>u. u \<notin> set (qs d) \<longrightarrow> m_next s2 u = m_next s1 u" "motion.more s2 = motion.more s1"
    "irq_on s2 = irq_on s1" "task_wake s2 = task_wake s1" by blast
  have t2: "trsyncs s2 = trsyncs s1" using s2(8) by (rule trsyncs_of_more)
  have same: "steppers s2 e = steppers s e" if "e \<in> set xs" for e
    using that sig(3) by (auto simp: s1(6) s2(6))
  have sig2: "sig_list s2 (ts_signals (trsyncs s2 ts)) xs"
    using sig(5,6) chain_steppers [OF sig(4), of "steppers s2"] same by (simp add: sig_list_def t2 s1(5))
  have q2: "queues_ok s2 xs qs (rev (qs d) @ fl)"
  proof -
    have "mq s2 (st_mq (steppers s2 e)) (qs e)" if "e \<in> set xs" for e
    proof (rule mq_of_m_next)
      show "mq s (st_mq (steppers s2 e)) (qs e)" using that qd(6) same by simp
      show "m_next s2 u = m_next s u" if "u \<in> set (qs e)" for u
        using that \<open>e \<in> set xs\<close> qd(5) s2(7) s1(4) by fastforce
    qed
    then show ?thesis using s2(4) qd by (auto simp: queues_ok_def)
  qed
  from Cons.IH [OF s2(2) sig2 q2] obtain s' q' fl' where
    i: "do_trigger_loop ts s2 = Some (Ok () s')" "sched_inv s' q'"
    "pending q' = fold (\<lambda>d. remove1 (Obj_timer d 0)) xs (pending q2)" "free_nodes s' fl'"
    "set fl' = set (concat (map qs xs) @ rev (qs d) @ fl)" "\<forall>e\<in>set xs. stopped_by (steppers s2 e) (steppers s' e)"
    "\<forall>e. e \<notin> set xs \<longrightarrow> steppers s' e = steppers s2 e"
    "trsyncs s' = (trsyncs s2)(ts := (trsyncs s2 ts)\<lparr>ts_signals := None\<rparr>)" "irq_on s' = irq_on s2"
    "task_wake s' = task_wake s2" by blast
  have "do_trigger_loop ts s = Some (Ok () s')"
    using sig(1,2) s2(1) i(1) by (subst do_trigger_loop.simps) (simp add: Let_def s1_def)
  moreover have "stopped_by ?st (steppers s' d)"
  proof -
    have "steppers s' d = stopped (?st\<lparr>stop_next := None, stop_func := False\<rparr>)\<lparr>st_mq := mh\<rparr>"
      using i(7) sig(3) by (simp add: s2(6) s1(6))
    moreover have "stepper_get_position (stopped (?st\<lparr>stop_next := None, stop_func := False\<rparr>)\<lparr>st_mq := mh\<rparr>) =
        stepper_get_position (stopped ?st)"
      by (simp add: stepper_get_position_def stopped_def Let_def)
    ultimately show ?thesis using s2(5) by (simp add: stopped_by_def stopped_position) (simp add: stopped_def stop_flags)
  qed
  moreover have "stopped_by (steppers s e) (steppers s' e)" if "e \<in> set xs" for e
    using that i(6) same by simp
  moreover have "steppers s' e = steppers s e" if "e \<notin> set (d # xs)" for e
    using that i(7) by (simp add: s2(6) s1(6))
  moreover have "trsyncs s' = (trsyncs s)(ts := (trsyncs s ts)\<lparr>ts_signals := None\<rparr>)"
    by (simp add: i(8) t2 s1(5))
  moreover have "pending q' = fold (\<lambda>d. remove1 (Obj_timer d 0)) (d # xs) (pending q)" by (simp add: i(3) s2(3))
  moreover have "set fl' = set (concat (map qs (d # xs)) @ fl)" using i(5) by auto
  ultimately show ?case using i(2,4,9,10) s2(9,10) s1(7,8) by (intro exI) auto
qed

lemma set_fold_remove1:
  "distinct p \<Longrightarrow> distinct (fold (\<lambda>d. remove1 (f d)) xs p) \<and> set (fold (\<lambda>d. remove1 (f d)) xs p) = set p - f ` set xs"
  by (induction xs arbitrary: p) auto

lemma trigger_flags:
  "\<not> has ((f AND NOT 1) OR 4) TSF_CAN_TRIGGER" "has ((f AND NOT 1) OR 4) TSF_REPORT"
proof -
  have "((f AND NOT 1) OR 4) AND 1 = (0 :: u8)" "((f AND NOT 1) OR 4) AND 4 = (4 :: u8)"
    by (rule word8_eqI, unfold all_less_8, simp add: bit_simps)+
  then show "\<not> has ((f AND NOT 1) OR 4) TSF_CAN_TRIGGER" "has ((f AND NOT 1) OR 4) TSF_REPORT"
    by (simp_all add: has_def)
qed

lemma trigger_inactive:
  assumes "\<not> has (ts_flags (trsyncs s ts)) TSF_CAN_TRIGGER"
  shows "trsync_do_trigger ts reason s = Ok () s"
proof -
  have "(irq_disable s)\<lparr>irq_on := irq_on s\<rparr> = s" by (cases s) (simp add: irq_disable_def)
  with assms show ?thesis by (simp add: trsync_do_trigger_def Let_def irq_disable_def)
qed

lemma sched_inv_irq [simp]: "sched_inv (s\<lparr>irq_on := b\<rparr>) q = sched_inv s q"
  "sched_inv (sched_wake_task w s) q = sched_inv s q"
  by (simp_all add: sched_inv_def running_def sched_wake_task_def sched_wake_tasks_def)

text \<open>
  C14: When an object that can trigger is triggered, the whole list of registered steppers is
  dispatched and the call returns: every registered stepper is inactive, off the timer list, without
  queued moves, keeps its position and needs a clock reset; no other stepper changes; the object
  records the reason, the report to the host is requested, and the list is empty. A second trigger,
  with whatever reason, changes nothing. Hypotheses: the timer list is well-formed, the signals
  form a list of different registered steppers, and their queues and the free list share no move.
\<close>

theorem trsync_trigger_stops_all:
  assumes "sched_inv s q" "sig_list s (ts_signals (trsyncs s ts)) xs" "queues_ok s xs qs fl"
    and "has (ts_flags (trsyncs s ts)) TSF_CAN_TRIGGER"
  shows "\<exists>s' q'. trsync_do_trigger ts reason s = Ok () s' \<and> sched_inv s' q' \<and>
     (\<forall>d\<in>set xs. stopped_by (steppers s d) (steppers s' d) \<and> Obj_timer d 0 \<notin> set (pending q')) \<and>
     (\<forall>d. d \<notin> set xs \<longrightarrow> steppers s' d = steppers s d) \<and>
     ts_trigger_reason (trsyncs s' ts) = reason \<and> has (ts_flags (trsyncs s' ts)) TSF_REPORT \<and>
     ts_signals (trsyncs s' ts) = None \<and> task_wake s' Trsync_wake \<and> irq_on s' = irq_on s \<and>
     (\<forall>r. trsync_do_trigger ts r s' = Ok () s')"
proof -
  let ?f = "(ts_flags (trsyncs s ts) AND NOT 1) OR 4"
  let ?s1 = "upd_trsync ts (\<lambda>t. t\<lparr>ts_trigger_reason := reason, ts_flags := ?f\<rparr>) (irq_disable s)"
  have s1: "sched_inv ?s1 q" "sig_list ?s1 (ts_signals (trsyncs ?s1 ts)) xs" "queues_ok ?s1 xs qs fl"
    using assms by (simp_all add: irq_disable_def sig_list_def queues_ok_def mq_def free_nodes_def)
  from do_trigger_loop_spec [OF s1] obtain s2 q2 where
    s2: "do_trigger_loop ts ?s1 = Some (Ok () s2)" "sched_inv s2 q2"
    "pending q2 = fold (\<lambda>d. remove1 (Obj_timer d 0)) xs (pending q)"
    "\<forall>d\<in>set xs. stopped_by (steppers ?s1 d) (steppers s2 d)" "\<forall>d. d \<notin> set xs \<longrightarrow> steppers s2 d = steppers ?s1 d"
    "trsyncs s2 = (trsyncs ?s1)(ts := (trsyncs ?s1 ts)\<lparr>ts_signals := None\<rparr>)" by blast
  let ?s3 = "(sched_wake_task Trsync_wake s2)\<lparr>irq_on := irq_on s\<rparr>"
  have r: "trsync_do_trigger ts reason s = Ok () ?s3"
    using assms(4) s2(1) by (simp add: trsync_do_trigger_def Let_def irq_disable_def)
  have tr: "trsyncs ?s3 ts = (trsyncs s ts)\<lparr>ts_trigger_reason := reason, ts_flags := ?f, ts_signals := None\<rparr>"
    "steppers ?s3 = steppers s2" "task_wake ?s3 Trsync_wake" "irq_on ?s3 = irq_on s"
    by (simp_all add: sched_wake_task_def sched_wake_tasks_def s2(6) irq_disable_def)
  have "distinct (pending q)" using tq.queue_distinct [of s "pending q"] assms(1) by (auto simp: sched_queue_def)
  then have "Obj_timer d 0 \<notin> set (pending q2)" if "d \<in> set xs" for d
    using that set_fold_remove1 [of "pending q" "\<lambda>d. Obj_timer d 0" xs] by (simp add: s2(3))
  moreover have fl: "ts_flags (trsyncs ?s3 ts) = ?f" unfolding tr(1) by simp
  moreover have "trsync_do_trigger ts r ?s3 = Ok () ?s3" for r
    by (rule trigger_inactive) (unfold fl, rule trigger_flags)
  moreover have "steppers ?s1 = steppers s" by (simp add: irq_disable_def)
  ultimately show ?thesis using r s2(2,4,5) tr trigger_flags(2) [of "ts_flags (trsyncs s ts)"]
    by (intro exI [of _ ?s3] exI [of _ q2]) simp
qed

text \<open>A state with one registered stepper, used by the witnesses.\<close>

definition demo_tsync :: tsync where
  "demo_tsync = motion.extend (upd_stepper 7 (\<lambda>st. st\<lparr>stop_func := True\<rparr>) demo_motion)
     \<lparr>sizeof_trsync = 40, trsyncs = (\<lambda>d. zero_trsync\<lparr>ts_flags := TSF_CAN_TRIGGER, ts_signals := Some 7\<rparr>)\<rparr>"

lemmas demo_tsync_simps = demo_tsync_def motion.defs upd_stepper_def zero_trsync_def demo_motion_simps

lemma demo_tsync_ok:
  "sched_inv demo_tsync [Periodic_timer, Sentinel_timer]" "sig_list demo_tsync (ts_signals (trsyncs demo_tsync ts)) [7]"
  "queues_ok demo_tsync [7] (\<lambda>d. []) []" "has (ts_flags (trsyncs demo_tsync ts)) TSF_CAN_TRIGGER"
  using sched_inv_demo_motion
  by (simp_all add: demo_tsync_simps sig_list_def queues_ok_def free_nodes_def has_def sched_inv_def running_def)

theorem trsync_trigger_stops_all_witness:
  "\<exists>s'. trsync_do_trigger 9 2 demo_tsync = Ok () s' \<and> st_count (steppers s' 7) = 0 \<and>
     ts_trigger_reason (trsyncs s' 9) = 2 \<and> trsync_do_trigger 9 3 s' = Ok () s'"
  using trsync_trigger_stops_all [where ts = 9 and reason = 2, OF demo_tsync_ok] by (auto simp: stopped_by_def)

end
