(* ===== verification/Endstop_Props.thy ===== *)
theory Endstop_Props
  imports Endstop Trsync_Props
begin

text \<open>
  Properties of \<^verbatim>\<open>src/src/endstop.c\<close>: the end stop triggers exactly when the pin has matched in
  enough consecutive reads, and a pin that keeps its value does trigger it.
\<close>

section \<open>Runs of matching reads\<close>

text \<open>The length of the run of matching reads that ends before read \<open>j\<close>.\<close>

fun streak :: "(nat \<Rightarrow> bool) \<Rightarrow> nat \<Rightarrow> nat" where
  "streak m 0 = 0"
| "streak m (Suc j) = (if m j then Suc (streak m j) else 0)"

definition pin_matches :: "'z homing_scheme \<Rightarrow> nat \<Rightarrow> nat \<Rightarrow> nat \<Rightarrow> bool" where
  "pin_matches s d r i \<longleftrightarrow> \<not> no_match (hw_pin s (r + i) (es_pin (endstops s d))) (es_flags (endstops s d))"

text \<open>The timer function of an end stop.\<close>

definition endstop_call :: "nat \<Rightarrow> 'z homing_scheme \<Rightarrow> (sched_ret, 'z homing_scheme) outcome" where
  "endstop_call d s =
     (case t_func s (Obj_timer d 0) of
        Some Endstop_event \<Rightarrow> endstop_event d s
      | Some Endstop_oversample_event \<Rightarrow> endstop_oversample_event d s
      | _ \<Rightarrow> Fault)"

text \<open>What the events of an end stop never change.\<close>

definition es_same :: "nat \<Rightarrow> 'z homing_scheme \<Rightarrow> 'z homing_scheme \<Rightarrow> bool" where
  "es_same d s s' \<longleftrightarrow>
     hw_pin s' = hw_pin s \<and> es_pin (endstops s' d) = es_pin (endstops s d) \<and>
     es_flags (endstops s' d) = es_flags (endstops s d) \<and> sample_count (endstops s' d) = sample_count (endstops s d) \<and>
     es_ts (endstops s' d) = es_ts (endstops s d) \<and> es_trigger_reason (endstops s' d) = es_trigger_reason (endstops s d) \<and>
     trsyncs s' = trsyncs s \<and> steppers s' = steppers s \<and> m_next s' = m_next s \<and> move_free_list s' = move_free_list s"

text \<open>
  The state between two events, \<open>j\<close> reads after read \<open>r\<close>: waiting for a first match, or with
  \<open>trigger_count\<close> more matches needed.
\<close>

definition es_state :: "nat \<Rightarrow> nat \<Rightarrow> nat \<Rightarrow> 'z homing_scheme \<Rightarrow> bool" where
  "es_state d r j s \<longleftrightarrow>
     (let e = endstops s d; n = unat (sample_count e); c = unat (trigger_count e) in
      hw_reads s = r + j \<and> 0 < n \<and> es_ts e \<noteq> None \<and>
      (t_func s (Obj_timer d 0) = Some Endstop_event \<and> streak (pin_matches s d r) j = 0 \<and> c = n \<or>
       t_func s (Obj_timer d 0) = Some Endstop_oversample_event \<and> 0 < c \<and> c \<le> n \<and>
         streak (pin_matches s d r) j = Suc n - c))"

lemma es_same_matches: "es_same d s s' \<Longrightarrow> pin_matches s' d r = pin_matches s d r"
  by (auto simp: es_same_def pin_matches_def)

lemma upd_endstop_frame [simp]:
  "endstops (upd_endstop d f s) = (endstops s)(d := f (endstops s d))" "hw_pin (upd_endstop d f s) = hw_pin s"
  "hw_reads (upd_endstop d f s) = hw_reads s" "t_func (upd_endstop d f s) = t_func s"
  "trsyncs (upd_endstop d f s) = trsyncs s" "steppers (upd_endstop d f s) = steppers s"
  "m_next (upd_endstop d f s) = m_next s" "move_free_list (upd_endstop d f s) = move_free_list s"
  by (simp_all add: upd_endstop_def)

lemma wake_func_frame [simp]:
  "endstops (set_wake t w s) = endstops s" "endstops (set_func t f s) = endstops s"
  "hw_pin (set_wake t w s) = hw_pin s" "hw_pin (set_func t f s) = hw_pin s"
  "hw_reads (set_wake t w s) = hw_reads s" "hw_reads (set_func t f s) = hw_reads s"
  "trsyncs (set_wake t w s) = trsyncs s" "trsyncs (set_func t f s) = trsyncs s"
  "m_next (set_func t f s) = m_next s" "move_free_list (set_func t f s) = move_free_list s"
  by (simp_all add: set_wake_def set_func_def)

lemma unat_pred_u8: "c \<noteq> 0 \<Longrightarrow> unat (c - 1 :: u8) = unat c - 1"
  using unat_minus_one [of c] by simp

text \<open>The outcomes of an event that ends \<open>k\<close> reads later.\<close>

definition es_result :: "nat \<Rightarrow> nat \<Rightarrow> nat \<Rightarrow> 'z homing_scheme \<Rightarrow> (sched_ret, 'z homing_scheme) outcome \<Rightarrow> bool" where
  "es_result d r j s res \<longleftrightarrow>
     (\<exists>s1. es_same d s s1 \<and>
       (res = Ok SF_RESCHEDULE s1 \<and> es_state d r j s1 \<or>
        hw_reads s1 = r + j \<and> streak (pin_matches s d r) j = Suc (unat (sample_count (endstops s d))) \<and>
        (\<exists>ts. es_ts (endstops s d) = Some ts \<and>
           res = andthen (trsync_do_trigger ts (es_trigger_reason (endstops s d)) s1) (\<lambda>_ s. Ok SF_DONE s))))"

lemma oversample_step:
  assumes "hw_reads s = r + j" "0 < unat (sample_count (endstops s d))" "es_ts (endstops s d) \<noteq> None"
    "t_func s (Obj_timer d 0) = Some Endstop_oversample_event"
    "0 < unat (trigger_count (endstops s d))" "unat (trigger_count (endstops s d)) \<le> unat (sample_count (endstops s d))"
    "streak (pin_matches s d r) j = Suc (unat (sample_count (endstops s d))) - unat (trigger_count (endstops s d))"
  shows "es_result d r (Suc j) s (endstop_oversample_event d s)"
proof -
  let ?e = "endstops s d"
  let ?s0 = "s\<lparr>hw_reads := Suc (hw_reads s)\<rparr>"
  have m: "pin_matches s d r j \<longleftrightarrow> \<not> no_match (hw_pin s (hw_reads s) (es_pin ?e)) (es_flags ?e)"
    using assms(1) by (simp add: pin_matches_def)
  show ?thesis
  proof (cases "pin_matches s d r j")
    case False
    let ?s1 = "upd_endstop d (\<lambda>e. e\<lparr>trigger_count := sample_count e\<rparr>)
        (set_wake (Obj_timer d 0) (nextwake ?e) (set_func (Obj_timer d 0) (Some Endstop_event) ?s0))"
    have r: "endstop_oversample_event d s = Ok SF_RESCHEDULE ?s1"
      using False m by (simp add: endstop_oversample_event_def gpio_in_read_def Let_def)
    have same: "es_same d s ?s1" by (simp add: es_same_def)
    moreover have "es_state d r (Suc j) ?s1"
      using assms False unfolding es_state_def es_same_matches [OF same] Let_def by simp
    ultimately show ?thesis using r unfolding es_result_def by blast
  next
    case True
    show ?thesis
    proof (cases "trigger_count ?e = 1")
      case c: True
      then have "endstop_oversample_event d s =
          andthen (trsync_do_trigger (the (es_ts ?e)) (es_trigger_reason ?e) ?s0) (\<lambda>_ s. Ok SF_DONE s)"
        using True m assms(3) by (auto simp: endstop_oversample_event_def gpio_in_read_def Let_def)
      moreover have "es_same d s ?s0" by (simp add: es_same_def)
      moreover have "streak (pin_matches s d r) (Suc j) = Suc (unat (sample_count ?e))"
        using True assms(7) c by simp
      ultimately show ?thesis using assms(1,3) unfolding es_result_def by force
    next
      case c: False
      let ?s1 = "set_wake (Obj_timer d 0) (t_wake s (Obj_timer d 0) + sample_time ?e)
          (upd_endstop d (\<lambda>e. e\<lparr>trigger_count := trigger_count ?e - 1\<rparr>) ?s0)"
      have n0: "trigger_count ?e \<noteq> 0" using assms(5) by auto
      have c1: "1 < unat (trigger_count ?e)"
      proof -
        have "unat (trigger_count ?e) \<noteq> 1" using c by (metis unat_1 word_eq_iff_unsigned)
        with assms(5) show ?thesis by simp
      qed
      have r: "endstop_oversample_event d s = Ok SF_RESCHEDULE ?s1"
        using True m c by (simp add: endstop_oversample_event_def gpio_in_read_def Let_def upd_endstop_def)
      have same: "es_same d s ?s1" by (simp add: es_same_def)
      moreover have "es_state d r (Suc j) ?s1"
        using assms True c1 unat_pred_u8 [OF n0] unfolding es_state_def es_same_matches [OF same] Let_def
        by (simp add: Suc_diff_le)
      ultimately show ?thesis using r unfolding es_result_def by blast
    qed
  qed
qed

lemma es_result_same:
  assumes same: "es_same d s s0" and r: "es_result d r j s0 res"
  shows "es_result d r j s res"
proof -
  have tr: "es_same d s s1" if "es_same d s0 s1" for s1 using same that by (simp add: es_same_def)
  show ?thesis using r same tr unfolding es_result_def es_same_matches [OF same]
    by (auto simp: es_same_def [of d s s0])
qed

lemma endstop_step:
  assumes st: "es_state d r j s"
  shows "\<exists>k\<in>{1, 2}. es_result d r (j + k) s (endstop_call d s) \<and>
     (k = 2 \<longrightarrow> streak (pin_matches s d r) (Suc j) \<le> unat (sample_count (endstops s d)))"
proof (cases "t_func s (Obj_timer d 0) = Some Endstop_oversample_event")
  case True
  then have "es_result d r (Suc j) s (endstop_oversample_event d s)"
    using st by (intro oversample_step) (auto simp: es_state_def Let_def)
  then show ?thesis using True by (simp add: endstop_call_def)
next
  case False
  let ?e = "endstops s d"
  have f: "t_func s (Obj_timer d 0) = Some Endstop_event" "streak (pin_matches s d r) j = 0" "hw_reads s = r + j"
    "unat (trigger_count ?e) = unat (sample_count ?e)" "0 < unat (sample_count ?e)" "es_ts ?e \<noteq> None"
    using st False by (auto simp: es_state_def Let_def)
  have m: "pin_matches s d r j \<longleftrightarrow> \<not> no_match (hw_pin s (hw_reads s) (es_pin ?e)) (es_flags ?e)"
    using f(3) by (simp add: pin_matches_def)
  let ?s0 = "s\<lparr>hw_reads := Suc (hw_reads s)\<rparr>"
  show ?thesis
  proof (cases "pin_matches s d r j")
    case no: False
    let ?s1 = "set_wake (Obj_timer d 0) (t_wake s (Obj_timer d 0) + rest_time ?e) ?s0"
    have r: "endstop_call d s = Ok SF_RESCHEDULE ?s1"
      using no m f(1) by (simp add: endstop_call_def endstop_event_def gpio_in_read_def Let_def)
    have same: "es_same d s ?s1" by (simp add: es_same_def)
    moreover have "es_state d r (Suc j) ?s1"
      using f no unfolding es_state_def es_same_matches [OF same] Let_def by simp
    ultimately show ?thesis using r unfolding es_result_def by (intro bexI [of _ 1]) auto
  next
    case yes: True
    let ?s1 = "set_func (Obj_timer d 0) (Some Endstop_oversample_event)
        (upd_endstop d (\<lambda>e. e\<lparr>nextwake := t_wake s (Obj_timer d 0) + rest_time ?e\<rparr>) ?s0)"
    have r: "endstop_call d s = endstop_oversample_event d ?s1"
      using yes m f(1) by (simp add: endstop_call_def endstop_event_def gpio_in_read_def Let_def)
    have same: "es_same d s ?s1" by (simp add: es_same_def)
    have "es_result d r (Suc (Suc j)) ?s1 (endstop_oversample_event d ?s1)"
      by (rule oversample_step, unfold es_same_matches [OF same]) (use f yes in simp_all)
    from es_result_same [OF same this] r show ?thesis using f(2,5) yes by (intro bexI [of _ 2]) auto
  qed
qed

section \<open>Triggering\<close>

text \<open>Timer events until one is the last.\<close>

fun es_events :: "nat \<Rightarrow> nat \<Rightarrow> 'z homing_scheme \<Rightarrow> 'z homing_scheme option" where
  "es_events d 0 s = Some s"
| "es_events d (Suc n) s =
     (case es_events d n s of
        None \<Rightarrow> None
      | Some s \<Rightarrow> (case endstop_call d s of Ok SF_RESCHEDULE s \<Rightarrow> Some s | _ \<Rightarrow> None))"

text \<open>
  C21: A homing end stop triggers when, and only when, the pin has matched in \<open>sample_count + 1\<close>
  reads in a row: one timer event reads the pin once or twice; either no run of matching reads gets
  that long, and the end stop stays armed with the length of the current run, or the run ends
  exactly at that length with the last read of the event, and the event calls
  \<^verbatim>\<open>trsync_do_trigger\<close> with the object and the reason set by \<^verbatim>\<open>endstop_home\<close>.
  Hypothesis: the end stop is armed.
\<close>

theorem endstop_debounce:
  assumes "es_state d r j s"
  shows "\<exists>k s1. k \<in> {1, 2} \<and> es_same d s s1 \<and> hw_reads s1 = r + (j + k) \<and>
     (k = 2 \<longrightarrow> streak (pin_matches s d r) (Suc j) \<le> unat (sample_count (endstops s d))) \<and>
     (if streak (pin_matches s d r) (j + k) = Suc (unat (sample_count (endstops s d)))
      then \<exists>ts. es_ts (endstops s d) = Some ts \<and>
         endstop_call d s = andthen (trsync_do_trigger ts (es_trigger_reason (endstops s d)) s1) (\<lambda>_ s. Ok SF_DONE s)
      else streak (pin_matches s d r) (j + k) \<le> unat (sample_count (endstops s d)) \<and>
         endstop_call d s = Ok SF_RESCHEDULE s1 \<and> es_state d r (j + k) s1)"
proof -
  from endstop_step [OF assms] obtain k s1 where k: "k \<in> {1, 2}" "es_same d s s1"
    and l: "k = 2 \<longrightarrow> streak (pin_matches s d r) (Suc j) \<le> unat (sample_count (endstops s d))"
    and c: "endstop_call d s = Ok SF_RESCHEDULE s1 \<and> es_state d r (j + k) s1 \<or>
        hw_reads s1 = r + (j + k) \<and> streak (pin_matches s d r) (j + k) = Suc (unat (sample_count (endstops s d))) \<and>
        (\<exists>ts. es_ts (endstops s d) = Some ts \<and>
           endstop_call d s = andthen (trsync_do_trigger ts (es_trigger_reason (endstops s d)) s1) (\<lambda>_ s. Ok SF_DONE s))"
    unfolding es_result_def by blast
  have "streak (pin_matches s d r) (j + k) \<le> unat (sample_count (endstops s d)) \<and> hw_reads s1 = r + (j + k)"
    if "es_state d r (j + k) s1"
    using that k(2) unfolding es_state_def es_same_matches [OF k(2)] by (auto simp: es_same_def Let_def)
  with k l c show ?thesis by (intro exI [of _ k] exI [of _ s1]) (auto split: if_splits)
qed

lemma es_events_front:
  "endstop_call d s = Ok SF_RESCHEDULE s1 \<Longrightarrow> es_events d (Suc k) s = es_events d k s1"
  by (induction k) auto

lemma es_same_trans: "es_same d s s1 \<Longrightarrow> es_same d s1 s2 \<Longrightarrow> es_same d s s2"
  by (simp add: es_same_def)

lemma endstop_held:
  assumes "es_state d r j s" "\<forall>i\<ge>j. pin_matches s d r i" "es_ts (endstops s d) = Some ts"
    and "x = Suc (unat (sample_count (endstops s d))) - streak (pin_matches s d r) j"
  shows "\<exists>k<x. \<exists>s1 s2. es_events d k s = Some s1 \<and> es_same d s s2 \<and>
     endstop_call d s1 = andthen (trsync_do_trigger ts (es_trigger_reason (endstops s d)) s2) (\<lambda>_ s. Ok SF_DONE s)"
  using assms
proof (induction x arbitrary: j s rule: less_induct)
  case (less x)
  let ?n = "unat (sample_count (endstops s d))" and ?m = "pin_matches s d r"
  have le: "streak ?m j \<le> ?n" using less.prems(1) by (auto simp: es_state_def Let_def)
  from endstop_step [OF less.prems(1)] obtain k s1 where k: "k \<in> {1, 2}" "es_same d s s1"
    and c: "endstop_call d s = Ok SF_RESCHEDULE s1 \<and> es_state d r (j + k) s1 \<or>
        (\<exists>ts. es_ts (endstops s d) = Some ts \<and>
           endstop_call d s = andthen (trsync_do_trigger ts (es_trigger_reason (endstops s d)) s1) (\<lambda>_ s. Ok SF_DONE s))"
    unfolding es_result_def by blast
  have st: "streak ?m (j + k) = streak ?m j + k" using k(1) less.prems(2) by auto
  show ?case
  proof (cases "endstop_call d s = Ok SF_RESCHEDULE s1 \<and> es_state d r (j + k) s1")
    case True
    note same = k(2) and pm = es_same_matches [OF k(2)]
    have e: "sample_count (endstops s1 d) = sample_count (endstops s d)" "es_ts (endstops s1 d) = Some ts"
      "es_trigger_reason (endstops s1 d) = es_trigger_reason (endstops s d)"
      using same less.prems(3) by (simp_all add: es_same_def)
    have "Suc ?n - streak (pin_matches s1 d r) (j + k) < x"
      using less.prems(4) le st k(1) unfolding pm by auto
    from less.IH [OF this, of "j + k" s1] True less.prems(2) e pm obtain i t1 t2 where
      i: "i < Suc ?n - streak (pin_matches s1 d r) (j + k)" "es_events d i s1 = Some t1" "es_same d s1 t2"
      "endstop_call d t1 = andthen (trsync_do_trigger ts (es_trigger_reason (endstops s d)) t2) (\<lambda>_ s. Ok SF_DONE s)"
      by auto
    have "Suc i < x" using i(1) st k(1) less.prems(4) unfolding pm by auto
    then show ?thesis using i es_events_front [OF conjunct1 [OF True], of i] es_same_trans [OF same i(3)] by metis
  next
    case False
    then have "endstop_call d s = andthen (trsync_do_trigger ts (es_trigger_reason (endstops s d)) s1) (\<lambda>_ s. Ok SF_DONE s)"
      using c less.prems(3) by auto
    moreover have "0 < x" using less.prems(4) le by simp
    ultimately show ?thesis using k(2) by (intro exI [of _ 0]) auto
  qed
qed

text \<open>
  C22: An end stop whose pin keeps the value waited for triggers: after at most
  \<open>sample_count\<close> further timer events, the next one calls \<^verbatim>\<open>trsync_do_trigger\<close> on the object it was
  armed with, and no event before it ends the sampling.
  Hypotheses: the end stop is armed and every read from now on matches.
\<close>

theorem endstop_triggers_when_held:
  assumes "es_state d r j s" "\<forall>i\<ge>j. pin_matches s d r i" "es_ts (endstops s d) = Some ts"
  shows "\<exists>k\<le>unat (sample_count (endstops s d)). \<exists>s1 s2. es_events d k s = Some s1 \<and> es_same d s s2 \<and>
     endstop_call d s1 = andthen (trsync_do_trigger ts (es_trigger_reason (endstops s d)) s2) (\<lambda>_ s. Ok SF_DONE s)"
proof -
  from endstop_held [OF assms refl] obtain k s1 s2 where
    k: "k < Suc (unat (sample_count (endstops s d))) - streak (pin_matches s d r) j" and
    r: "es_events d k s = Some s1" "es_same d s s2" "endstop_call d s1 =
      andthen (trsync_do_trigger ts (es_trigger_reason (endstops s d)) s2) (\<lambda>_ s. Ok SF_DONE s)" by blast
  have "k \<le> unat (sample_count (endstops s d))" using k by simp
  with r show ?thesis by blast
qed

text \<open>An armed end stop on a pin that is always high, used by the witnesses.\<close>

definition demo_homing :: homing where
  "demo_homing = tsync.extend (set_func (Obj_timer 11 0) (Some Endstop_event) (demo_tsync\<lparr>hw_pin := \<lambda>n p. True\<rparr>))
     \<lparr>sizeof_endstop = 40, endstops = (\<lambda>d. zero_endstop\<lparr>es_flags := ESF_HOMING OR ESF_PIN_HIGH, es_ts := Some 9,
        sample_count := 4, trigger_count := 4, es_trigger_reason := 2\<rparr>)\<rparr>"

lemma demo_homing_ok:
  "es_state 11 0 0 demo_homing" "pin_matches demo_homing 11 0 i" "es_ts (endstops demo_homing 11) = Some 9"
  "unat (sample_count (endstops demo_homing 11)) = 4" "es_trigger_reason (endstops demo_homing 11) = 2"
  by (simp_all add: es_state_def pin_matches_def no_match_def has_def Let_def demo_homing_def tsync.defs
      zero_endstop_def set_func_def demo_tsync_simps)

theorem endstop_debounce_witness:
  "\<exists>s1. endstop_call 11 demo_homing = Ok SF_RESCHEDULE s1 \<and> (es_state 11 0 1 s1 \<or> es_state 11 0 2 s1)"
proof -
  have m: "streak (pin_matches demo_homing 11 0) (Suc 0) = 1" "streak (pin_matches demo_homing 11 0) (Suc (Suc 0)) = 2"
    by (simp_all add: demo_homing_ok)
  show ?thesis using endstop_debounce [OF demo_homing_ok(1)] m by (auto simp: demo_homing_ok numeral_2_eq_2)
qed

theorem endstop_triggers_when_held_witness:
  "\<exists>k\<le>4. \<exists>s1 s2. es_events 11 k demo_homing = Some s1 \<and>
     endstop_call 11 s1 = andthen (trsync_do_trigger 9 2 s2) (\<lambda>_ s. Ok SF_DONE s)"
  using endstop_triggers_when_held [OF demo_homing_ok(1) _ demo_homing_ok(3)]
  unfolding demo_homing_ok(4,5) by (auto simp: demo_homing_ok(2))

end
