(* ===== verification/Sos_Filter.thy ===== *)
theory Sos_Filter
  imports Trsync
begin

text \<open>
  The fixed point filter of the firmware (\<^verbatim>\<open>src/src/sos_filter.c\<close>): a cascade of second order
  sections. The signed C integers are words read as two's complement, so that the sums wrap as the
  hardware's do.
\<close>

record sos_filter_section =
  coeff :: "u32 list"      \<comment> \<open>5 coefficients\<close>
  sstate :: "u32 list"     \<comment> \<open>2 state values\<close>

record sos_filter =
  max_sections :: u8
  n_sections :: u8
  coeff_frac_bits :: u8
  scale_frac_bits :: u8
  auto_offset :: u8
  sf_offset :: u32
  sf_scale :: u32
  filter_secs :: "sos_filter_section list"    \<comment> \<open>\<^verbatim>\<open>filter\<close>, of length \<open>max_sections\<close>\<close>

record sosf = tsync +
  sizeof_sos_filter :: nat
  sizeof_sos_section :: nat
  sos_filters :: "nat \<Rightarrow> sos_filter"

definition upd_sos :: "nat \<Rightarrow> (sos_filter \<Rightarrow> sos_filter) \<Rightarrow> 'z sosf_scheme \<Rightarrow> 'z sosf_scheme" where
  "upd_sos d f s = s\<lparr>sos_filters := (sos_filters s)(d := f (sos_filters s d))\<rparr>"

definition zero_section :: sos_filter_section where
  "zero_section = \<lparr>coeff = replicate 5 0, sstate = replicate 2 0\<rparr>"

section \<open>Filtering\<close>

definition overflows_int32 :: "u64 \<Rightarrow> bool" where
  "overflows_int32 value \<longleftrightarrow> sint value > 2 ^ 31 - 1 \<or> sint value < - (2 ^ 31)"

text \<open>The result and whether it overflows; \<^verbatim>\<open>>>\<close> on a signed value keeps the sign.\<close>

definition fixed_mul :: "u32 \<Rightarrow> u32 \<Rightarrow> u8 \<Rightarrow> u32 \<times> bool" where
  "fixed_mul c value frac_bits =
     (let result = scast c * scast value :: u64;
          result = (if frac_bits \<noteq> 0
                    then signed_drop_bit (unat frac_bits) (result + push_bit (unat frac_bits - 1) 1)
                    else result)
      in (ucast result, overflows_int32 result))"

text \<open>One section: the next value and the new section, or an overflow.\<close>

definition section_apply :: "u8 \<Rightarrow> sos_filter_section \<Rightarrow> u32 \<Rightarrow> (u32 \<times> sos_filter_section) option" where
  "section_apply cfb sec cur_val =
     (let (next_val, o0) = fixed_mul (coeff sec ! 0) cur_val cfb;
          next_val = next_val + sstate sec ! 0;
          (c1_cur, o1) = fixed_mul (coeff sec ! 1) cur_val cfb;
          (c3_next, o3) = fixed_mul (coeff sec ! 3) next_val cfb;
          (c2_cur, o2) = fixed_mul (coeff sec ! 2) cur_val cfb;
          (c4_next, o4) = fixed_mul (coeff sec ! 4) next_val cfb
      in if o0 \<or> o1 \<or> o3 \<or> o2 \<or> o4 then None
         else Some (next_val, sec\<lparr>sstate := [c1_cur - c3_next + sstate sec ! 1, c2_cur - c4_next]\<rparr>))"

text \<open>
  The loop over the sections. The sections before an overflow keep their new state, so the second
  component is the list of sections in any case.
\<close>

fun sections_apply :: "u8 \<Rightarrow> nat \<Rightarrow> sos_filter_section list \<Rightarrow> u32 \<Rightarrow> u32 option \<times> sos_filter_section list" where
  "sections_apply cfb 0 secs cur_val = (Some cur_val, secs)"
| "sections_apply cfb (Suc n) [] cur_val = (None, [])"
| "sections_apply cfb (Suc n) (sec # secs) cur_val =
     (case section_apply cfb sec cur_val of
        None \<Rightarrow> (None, sec # secs)
      | Some (next_val, sec') \<Rightarrow>
          let (r, secs') = sections_apply cfb n secs next_val in (r, sec' # secs'))"

text \<open>The filtered value, \<open>None\<close> for the error result.\<close>

definition sos_filter_apply :: "nat \<Rightarrow> u32 \<Rightarrow> 'z sosf_scheme \<Rightarrow> u32 option \<times> 'z sosf_scheme" where
  "sos_filter_apply d raw_val s =
     (let s = (if auto_offset (sos_filters s d) \<noteq> 0
               then upd_sos d (\<lambda>f. f\<lparr>sf_offset := - raw_val, auto_offset := 0\<rparr>) s else s);
          sf = sos_filters s d;
          offset_val = raw_val + sf_offset sf
      in if (sint (sf_offset sf) \<ge> 0) \<noteq> (sint offset_val \<ge> sint raw_val) then (None, s)
         else let (cur_val, ov) = fixed_mul (sf_scale sf) offset_val (scale_frac_bits sf) in
           if ov then (None, s)
           else let (r, secs) = sections_apply (coeff_frac_bits sf) (unat (n_sections sf)) (filter_secs sf) cur_val
                in (r, upd_sos d (\<lambda>f. f\<lparr>filter_secs := secs\<rparr>) s))"

section \<open>Commands\<close>

definition command_config_sos_filter :: "u32 list \<Rightarrow> 'z sosf_scheme \<Rightarrow> (unit, 'z sosf_scheme) outcome" where
  "command_config_sos_filter args s =
     (let max_secs = ucast (args ! 1) :: u8;
          sz = sizeof_sos_filter s + unat max_secs * sizeof_sos_section s
      in andthen (oid_alloc (args ! 0) Sos_filter_oid sz s)
           (\<lambda>d s. Ok () (upd_sos d (\<lambda>_. \<lparr>max_sections = max_secs, n_sections = 0, coeff_frac_bits = 0,
              scale_frac_bits = 0, auto_offset = 0, sf_offset = 0, sf_scale = 0,
              filter_secs = replicate (unat max_secs) zero_section\<rparr>) s)))"

definition sos_filter_oid_lookup :: "u32 \<Rightarrow> 'z sosf_scheme \<Rightarrow> (nat, 'z sosf_scheme) outcome" where
  "sos_filter_oid_lookup arg s = oid_lookup arg Sos_filter_oid s"

definition validate_section_index :: "nat \<Rightarrow> u8 \<Rightarrow> 'z sosf_scheme \<Rightarrow> (unit, 'z sosf_scheme) outcome" where
  "validate_section_index d section_idx s =
     (if section_idx \<ge> max_sections (sos_filters s d)
      then sched_shutdown ''Filter section index larger than max_sections'' s
      else Ok () s)"

text \<open>A write to a section outside the array is a fault.\<close>

definition write_section ::
  "nat \<Rightarrow> nat \<Rightarrow> (sos_filter_section \<Rightarrow> sos_filter_section) \<Rightarrow> 'z sosf_scheme \<Rightarrow> (unit, 'z sosf_scheme) outcome"
where
  "write_section d i g s =
     (let secs = filter_secs (sos_filters s d) in
      if i < length secs then Ok () (upd_sos d (\<lambda>f. f\<lparr>filter_secs := secs[i := g (secs ! i)]\<rparr>) s) else Fault)"

definition command_sos_filter_set_section :: "u32 list \<Rightarrow> 'z sosf_scheme \<Rightarrow> (unit, 'z sosf_scheme) outcome" where
  "command_sos_filter_set_section args s =
     andthen (sos_filter_oid_lookup (args ! 0) s)
       (\<lambda>d s.
         let s = upd_sos d (\<lambda>f. f\<lparr>n_sections := 0\<rparr>) s; section_idx = ucast (args ! 1) :: u8 in
         andthen (validate_section_index d section_idx s)
           (\<lambda>_ s. write_section d (unat section_idx)
              (\<lambda>sec. sec\<lparr>coeff := map (\<lambda>i. args ! (i + 2)) [0..<5]\<rparr>) s))"

definition command_sos_filter_set_state :: "u32 list \<Rightarrow> 'z sosf_scheme \<Rightarrow> (unit, 'z sosf_scheme) outcome" where
  "command_sos_filter_set_state args s =
     andthen (sos_filter_oid_lookup (args ! 0) s)
       (\<lambda>d s.
         let s = upd_sos d (\<lambda>f. f\<lparr>n_sections := 0\<rparr>) s; section_idx = ucast (args ! 1) :: u8 in
         andthen (validate_section_index d section_idx s)
           (\<lambda>_ s. write_section d (unat section_idx) (\<lambda>sec. sec\<lparr>sstate := [args ! 2, args ! 3]\<rparr>) s))"

definition command_trigger_analog_set_offset_scale :: "u32 list \<Rightarrow> 'z sosf_scheme \<Rightarrow> (unit, 'z sosf_scheme) outcome"
where
  "command_trigger_analog_set_offset_scale args s =
     andthen (sos_filter_oid_lookup (args ! 0) s)
       (\<lambda>d s. Ok () (upd_sos d (\<lambda>f. f\<lparr>sf_offset := args ! 1, sf_scale := args ! 2,
          scale_frac_bits := ucast (args ! 3 AND 0x3f), auto_offset := ucast (args ! 4)\<rparr>) s))"

definition command_sos_filter_activate :: "u32 list \<Rightarrow> 'z sosf_scheme \<Rightarrow> (unit, 'z sosf_scheme) outcome" where
  "command_sos_filter_activate args s =
     andthen (sos_filter_oid_lookup (args ! 0) s)
       (\<lambda>d s.
         let n_secs = ucast (args ! 1) :: u8 in
         if n_secs > max_sections (sos_filters s d)
         then sched_shutdown ''Filter section index larger than max_sections'' s
         else Ok () (upd_sos d (\<lambda>f. f\<lparr>n_sections := n_secs, coeff_frac_bits := ucast (args ! 2 AND 0x3f)\<rparr>) s))"

end
