(* ===== verification/Trigger_Analog.thy ===== *)
theory Trigger_Analog
  imports Sos_Filter
begin

text \<open>
  Triggering from analog sensors (\<^verbatim>\<open>src/src/trigger_analog.c\<close>): samples of a homing sensor are
  checked, filtered and compared, and trigger a trsync object; a timer watches that samples arrive.
\<close>

record trigger_analog =
  raw_min :: u32
  raw_max :: u32
  ta_sf :: nat
  trigger_value :: u32
  trigger_peak :: u32
  trigger_type :: u8
  ta_flags :: u8
  ta_trigger_reason :: u8
  error_reason :: u8
  ta_ts :: "nat option"
  homing_clock :: u32
  monitor_max :: u8
  monitor_count :: u8
  monitor_ticks :: u32

record trig = sosf +
  sizeof_trigger_analog :: nat
  trigger_analogs :: "nat \<Rightarrow> trigger_analog"

abbreviation (input) TA_AWAIT_HOMING :: u8 where "TA_AWAIT_HOMING \<equiv> 2"
abbreviation (input) TA_CAN_TRIGGER :: u8 where "TA_CAN_TRIGGER \<equiv> 4"
abbreviation (input) TT_ABS_GE :: u8 where "TT_ABS_GE \<equiv> 0"
abbreviation (input) TT_GT :: u8 where "TT_GT \<equiv> 1"
abbreviation (input) TT_DIFF_PEAK_GT :: u8 where "TT_DIFF_PEAK_GT \<equiv> 2"
abbreviation (input) TE_RAW_RANGE :: u8 where "TE_RAW_RANGE \<equiv> 0"
abbreviation (input) TE_OVERFLOW :: u8 where "TE_OVERFLOW \<equiv> 1"
abbreviation (input) TE_MONITOR :: u8 where "TE_MONITOR \<equiv> 2"
abbreviation (input) TE_SENSOR_SPECIFIC :: u8 where "TE_SENSOR_SPECIFIC \<equiv> 3"

definition upd_ta :: "nat \<Rightarrow> (trigger_analog \<Rightarrow> trigger_analog) \<Rightarrow> 'z trig_scheme \<Rightarrow> 'z trig_scheme" where
  "upd_ta d f s = s\<lparr>trigger_analogs := (trigger_analogs s)(d := f (trigger_analogs s d))\<rparr>"

definition zero_ta :: trigger_analog where
  "zero_ta = \<lparr>raw_min = 0, raw_max = 0, ta_sf = 0, trigger_value = 0, trigger_peak = 0, trigger_type = 0,
     ta_flags = 0, ta_trigger_reason = 0, error_reason = 0, ta_ts = None, homing_clock = 0,
     monitor_max = 0, monitor_count = 0, monitor_ticks = 0\<rparr>"

text \<open>The call of \<^verbatim>\<open>trsync_do_trigger\<close> through \<^verbatim>\<open>ta->ts\<close>.\<close>

definition ta_do_trigger :: "nat \<Rightarrow> u8 \<Rightarrow> 'z trig_scheme \<Rightarrow> (unit, 'z trig_scheme) outcome" where
  "ta_do_trigger d reason s =
     (case ta_ts (trigger_analogs s d) of None \<Rightarrow> Fault | Some ts \<Rightarrow> trsync_do_trigger ts reason s)"

definition monitor_event :: "nat \<Rightarrow> 'z trig_scheme \<Rightarrow> (sched_ret, 'z trig_scheme) outcome" where
  "monitor_event d s =
     (let ta = trigger_analogs s d in
      if \<not> has (ta_flags ta) TA_CAN_TRIGGER then Ok SF_DONE s
      else if monitor_count ta > monitor_max ta
      then andthen (ta_do_trigger d (error_reason ta + TE_MONITOR) s) (\<lambda>_ s. Ok SF_DONE s)
      else let s = upd_ta d (\<lambda>ta. ta\<lparr>monitor_count := monitor_count ta + 1\<rparr>) s;
               s = set_wake (Obj_timer d 0) (t_wake s (Obj_timer d 0) + monitor_ticks (trigger_analogs s d)) s
           in Ok SF_RESCHEDULE s)"

definition monitor_note_activity :: "nat \<Rightarrow> 'z trig_scheme \<Rightarrow> 'z trig_scheme" where
  "monitor_note_activity d s = upd_ta d (\<lambda>ta. ta\<lparr>monitor_count := 0\<rparr>) s"

text \<open>
  The comparisons as C makes them: \<^verbatim>\<open>abs_value\<close> and \<^verbatim>\<open>delta\<close> are unsigned, so \<^verbatim>\<open>trigger_value\<close> is
  read as unsigned there.
\<close>

definition check_trigger :: "nat \<Rightarrow> u32 \<Rightarrow> 'z trig_scheme \<Rightarrow> bool \<times> 'z trig_scheme" where
  "check_trigger d value s =
     (let ta = trigger_analogs s d in
      if trigger_type ta = TT_ABS_GE
      then ((if sint value < 0 then - value else value) \<ge> trigger_value ta, s)
      else if trigger_type ta = TT_GT then (sint value > sint (trigger_value ta), s)
      else if trigger_type ta = TT_DIFF_PEAK_GT
      then if sint value > sint (trigger_peak ta) then (False, upd_ta d (\<lambda>ta. ta\<lparr>trigger_peak := value\<rparr>) s)
           else (trigger_peak ta - value > trigger_value ta, s)
      else (False, s))"

definition trigger_reset :: "nat \<Rightarrow> 'z trig_scheme \<Rightarrow> 'z trig_scheme" where
  "trigger_reset d s = upd_ta d (\<lambda>ta. ta\<lparr>trigger_peak := 0x80000000\<rparr>) s"

definition cancel_homing :: "nat \<Rightarrow> u8 \<Rightarrow> 'z trig_scheme \<Rightarrow> (unit, 'z trig_scheme) outcome" where
  "cancel_homing d error_code s =
     (if \<not> has (ta_flags (trigger_analogs s d)) TA_CAN_TRIGGER then Ok () s
      else let s = upd_ta d (\<lambda>ta. ta\<lparr>ta_flags := 0\<rparr>) s
           in ta_do_trigger d (error_reason (trigger_analogs s d) + error_code) s)"

definition trigger_analog_note_error :: "nat option \<Rightarrow> u8 \<Rightarrow> 'z trig_scheme \<Rightarrow> (unit, 'z trig_scheme) outcome" where
  "trigger_analog_note_error ta sensor_code s =
     (case ta of None \<Rightarrow> Ok () s | Some d \<Rightarrow> cancel_homing d (sensor_code + TE_SENSOR_SPECIFIC) s)"

definition trigger_analog_update :: "nat option \<Rightarrow> u32 \<Rightarrow> 'z trig_scheme \<Rightarrow> (unit, 'z trig_scheme) outcome" where
  "trigger_analog_update ta sample s =
     (case ta of
        None \<Rightarrow> Ok () s
      | Some d \<Rightarrow>
          let flags = ta_flags (trigger_analogs s d) in
          if \<not> has flags TA_CAN_TRIGGER then Ok () s
          else let (time, s) = timer_read_time s in
            if has flags TA_AWAIT_HOMING \<and> timer_is_before time (homing_clock (trigger_analogs s d)) then Ok () s
            else let flags = flags AND NOT TA_AWAIT_HOMING;
                     s = monitor_note_activity d s
                 in if sint sample < sint (raw_min (trigger_analogs s d)) \<or> sint sample > sint (raw_max (trigger_analogs s d))
                    then cancel_homing d TE_RAW_RANGE s
                    else (case sos_filter_apply (ta_sf (trigger_analogs s d)) sample s of
                            (None, s) \<Rightarrow> cancel_homing d TE_OVERFLOW s
                          | (Some filtered_value, s) \<Rightarrow>
                              let (hit, s) = check_trigger d filtered_value s in
                              if hit
                              then andthen (ta_do_trigger d (ta_trigger_reason (trigger_analogs s d)) s)
                                     (\<lambda>_ s. Ok () (upd_ta d (\<lambda>ta. ta\<lparr>homing_clock := time, ta_flags := 0\<rparr>) s))
                              else Ok () (upd_ta d (\<lambda>ta. ta\<lparr>ta_flags := flags\<rparr>) s)))"

section \<open>Commands\<close>

definition command_config_trigger_analog :: "u32 list \<Rightarrow> 'z trig_scheme \<Rightarrow> (unit, 'z trig_scheme) outcome" where
  "command_config_trigger_analog args s =
     andthen (oid_alloc (args ! 0) Trigger_analog_oid (sizeof_trigger_analog s) s)
       (\<lambda>d s.
         let s = upd_ta d (\<lambda>_. zero_ta) (zero_timer (Obj_timer d 0) s) in
         andthen (sos_filter_oid_lookup (args ! 1) s)
           (\<lambda>sf s. Ok () (upd_ta d (\<lambda>ta. ta\<lparr>ta_sf := sf\<rparr>) s)))"

definition trigger_analog_oid_lookup :: "u32 \<Rightarrow> 'z trig_scheme \<Rightarrow> (nat, 'z trig_scheme) outcome" where
  "trigger_analog_oid_lookup arg s = oid_lookup arg Trigger_analog_oid s"

definition command_trigger_analog_set_raw_range :: "u32 list \<Rightarrow> 'z trig_scheme \<Rightarrow> (unit, 'z trig_scheme) outcome"
where
  "command_trigger_analog_set_raw_range args s =
     andthen (trigger_analog_oid_lookup (args ! 0) s)
       (\<lambda>d s. Ok () (upd_ta d (\<lambda>ta. ta\<lparr>raw_min := args ! 1, raw_max := args ! 2\<rparr>) s))"

definition command_trigger_analog_set_trigger :: "u32 list \<Rightarrow> 'z trig_scheme \<Rightarrow> (unit, 'z trig_scheme) outcome"
where
  "command_trigger_analog_set_trigger args s =
     andthen (trigger_analog_oid_lookup (args ! 0) s)
       (\<lambda>d s. Ok () (upd_ta d (\<lambda>ta. ta\<lparr>trigger_type := ucast (args ! 1), trigger_value := args ! 2\<rparr>) s))"

definition command_trigger_analog_home :: "u32 list \<Rightarrow> 'z trig_scheme \<Rightarrow> (unit, 'z trig_scheme) outcome" where
  "command_trigger_analog_home args s =
     andthen (trigger_analog_oid_lookup (args ! 0) s)
       (\<lambda>d s. andthen (sched_del_timer (Obj_timer d 0) s)
         (\<lambda>_ s.
           let s = upd_ta d (\<lambda>ta. ta\<lparr>monitor_ticks := args ! 5\<rparr>) s in
           if monitor_ticks (trigger_analogs s d) = 0
           then Ok () (upd_ta d (\<lambda>ta. ta\<lparr>ta_flags := 0, ta_ts := None\<rparr>) s)
           else andthen (trsync_oid_lookup (args ! 1) s)
             (\<lambda>ts s.
               let s = upd_ta d (\<lambda>ta. ta\<lparr>ta_ts := Some ts, ta_trigger_reason := ucast (args ! 2),
                         error_reason := ucast (args ! 3), homing_clock := args ! 4,
                         monitor_max := ucast (args ! 6), monitor_count := 0\<rparr>) s;
                   s = set_wake (Obj_timer d 0) (args ! 4) s;
                   s = set_func (Obj_timer d 0) (Some Monitor_event) s;
                   s = upd_ta d (\<lambda>ta. ta\<lparr>ta_flags := TA_AWAIT_HOMING OR TA_CAN_TRIGGER\<rparr>) s;
                   s = trigger_reset d s
               in sched_add_timer (Obj_timer d 0) s)))"

definition command_trigger_analog_query_state :: "u32 list \<Rightarrow> 'z trig_scheme \<Rightarrow> (unit, 'z trig_scheme) outcome"
where
  "command_trigger_analog_query_state args s =
     (let oid = ucast (args ! 0) :: u8 in
      andthen (trigger_analog_oid_lookup (args ! 0) s)
        (\<lambda>d s. Ok () (emit (Sendf ''trigger_analog_state oid=%c homing=%c homing_clock=%u''
           [ucast oid, bool_u32 (has (ta_flags (trigger_analogs s d)) TA_CAN_TRIGGER),
            homing_clock (trigger_analogs s d)] []) s)))"

end
