(* ===== verification/Adccmds.thy ===== *)
theory Adccmds
  imports Trigger_Analog
begin

text \<open>
  The analog inputs of the firmware (\<^verbatim>\<open>src/src/adccmds.c\<close>): a timer samples an ADC pin, checks the
  range and wakes the task that reports the values. The ADC is a function of the number of
  hardware reads so far: the delay \<^verbatim>\<open>gpio_adc_sample\<close> asks for, and the value \<^verbatim>\<open>gpio_adc_read\<close>
  returns.
\<close>

record analog_in =
  ai_rest_time :: u32
  ai_sample_time :: u32
  next_begin_time :: u32
  ai_value :: u16
  min_value :: u16
  max_value :: u16
  ai_pin :: u32
  invalid_count :: u8
  range_check_count :: u8
  ai_state :: u8
  ai_sample_count :: u8
  bytes_per_report :: u8
  data_count :: u8
  ai_data :: "u8 list"        \<comment> \<open>\<^verbatim>\<open>data[48]\<close>\<close>
  ai_ta :: "nat option"

record adc = trig +
  sizeof_analog_in :: nat
  hw_adc_delay :: "nat \<Rightarrow> u32 \<Rightarrow> u32"
  hw_adc :: "nat \<Rightarrow> u32 \<Rightarrow> u16"
  analog_ins :: "nat \<Rightarrow> analog_in"

definition upd_ai :: "nat \<Rightarrow> (analog_in \<Rightarrow> analog_in) \<Rightarrow> 'z adc_scheme \<Rightarrow> 'z adc_scheme" where
  "upd_ai d f s = s\<lparr>analog_ins := (analog_ins s)(d := f (analog_ins s d))\<rparr>"

definition zero_ai :: analog_in where
  "zero_ai = \<lparr>ai_rest_time = 0, ai_sample_time = 0, next_begin_time = 0, ai_value = 0, min_value = 0, max_value = 0,
     ai_pin = 0, invalid_count = 0, range_check_count = 0, ai_state = 0, ai_sample_count = 0,
     bytes_per_report = 0, data_count = 0, ai_data = replicate 48 0, ai_ta = None\<rparr>"

definition gpio_adc_sample :: "u32 \<Rightarrow> 'z adc_scheme \<Rightarrow> u32 \<times> 'z adc_scheme" where
  "gpio_adc_sample pin s = (hw_adc_delay s (hw_reads s) pin, s\<lparr>hw_reads := Suc (hw_reads s)\<rparr>)"

definition gpio_adc_read :: "u32 \<Rightarrow> 'z adc_scheme \<Rightarrow> u16 \<times> 'z adc_scheme" where
  "gpio_adc_read pin s = (hw_adc s (hw_reads s) pin, s\<lparr>hw_reads := Suc (hw_reads s)\<rparr>)"

section \<open>Sampling\<close>

text \<open>The sum of the samples and the number of samples in it after one more.\<close>

definition analog_in_add :: "u16 \<Rightarrow> analog_in \<Rightarrow> analog_in" where
  "analog_in_add value a =
     (if ai_state a \<ge> ai_sample_count a then a\<lparr>ai_value := value, ai_state := 1\<rparr>
      else a\<lparr>ai_value := value + ai_value a, ai_state := ai_state a + 1\<rparr>)"

definition analog_in_event :: "nat \<Rightarrow> 'z adc_scheme \<Rightarrow> (sched_ret, 'z adc_scheme) outcome" where
  "analog_in_event d s =
     (let t = Obj_timer d 0; (sample_delay, s) = gpio_adc_sample (ai_pin (analog_ins s d)) s in
      if sample_delay \<noteq> 0 then Ok SF_RESCHEDULE (set_wake t (t_wake s t + sample_delay) s)
      else let (value, s) = gpio_adc_read (ai_pin (analog_ins s d)) s;
               s = upd_ai d (analog_in_add value) s
           in if ai_state (analog_ins s d) < ai_sample_count (analog_ins s d)
              then Ok SF_RESCHEDULE (set_wake t (t_wake s t + ai_sample_time (analog_ins s d)) s)
              else andthen
                (if ai_value (analog_ins s d) \<ge> min_value (analog_ins s d) \<and>
                    ai_value (analog_ins s d) \<le> max_value (analog_ins s d)
                 then Ok () (upd_ai d (\<lambda>a. a\<lparr>invalid_count := 0\<rparr>) s)
                 else let s = upd_ai d (\<lambda>a. a\<lparr>invalid_count := invalid_count a + 1\<rparr>) s in
                   if invalid_count (analog_ins s d) \<ge> range_check_count (analog_ins s d)
                   then andthen (sched_try_shutdown ''ADC out of range'' s)
                          (\<lambda>_ s. Ok () (upd_ai d (\<lambda>a. a\<lparr>invalid_count := 0\<rparr>) s))
                   else Ok () s)
                (\<lambda>_ s.
                  let s = sched_wake_task Analog_wake s;
                      s = upd_ai d (\<lambda>a. a\<lparr>next_begin_time := next_begin_time a + ai_rest_time a\<rparr>) s
                  in Ok SF_RESCHEDULE (set_wake t (next_begin_time (analog_ins s d)) s)))"

section \<open>Commands\<close>

definition command_config_analog_in :: "u32 list \<Rightarrow> 'z adc_scheme \<Rightarrow> (unit, 'z adc_scheme) outcome" where
  "command_config_analog_in args s =
     (let s = emit (Gpio_adc_setup (args ! 1)) s in
      andthen (oid_alloc (args ! 0) Analog_in_oid (sizeof_analog_in s) s)
        (\<lambda>d s.
          let s = upd_ai d (\<lambda>_. zero_ai) (zero_timer (Obj_timer d 0) s);
              s = set_func (Obj_timer d 0) (Some Analog_in_event) s
          in Ok () (upd_ai d (\<lambda>a. a\<lparr>ai_pin := args ! 1, ai_state := 1\<rparr>) s)))"

definition query_analog_in_set :: "u32 list \<Rightarrow> analog_in \<Rightarrow> analog_in" where
  "query_analog_in_set args a =
     a\<lparr>next_begin_time := args ! 1, ai_sample_time := args ! 2, ai_sample_count := ucast (args ! 3),
       ai_state := ucast (args ! 3) + 1, ai_rest_time := args ! 4, bytes_per_report := ucast (args ! 5),
       data_count := 0, min_value := ucast (args ! 6), max_value := ucast (args ! 7),
       range_check_count := ucast (args ! 8)\<rparr>"

definition command_query_analog_in :: "u32 list \<Rightarrow> 'z adc_scheme \<Rightarrow> (unit, 'z adc_scheme) outcome" where
  "command_query_analog_in args s =
     andthen (oid_lookup (args ! 0) Analog_in_oid s)
       (\<lambda>d s. andthen (sched_del_timer (Obj_timer d 0) s)
         (\<lambda>_ s.
           let s = emit (Gpio_adc_cancel (ai_pin (analog_ins s d))) s;
               s = upd_ai d (query_analog_in_set args) s;
               s = set_wake (Obj_timer d 0) (args ! 1) s
           in if ai_sample_count (analog_ins s d) = 0 then Ok () s
              else if unat (bytes_per_report (analog_ins s d)) > 48
              then sched_shutdown ''Invalid analog_in bytes_per_report'' s
              else sched_add_timer (Obj_timer d 0) s))"

definition command_analog_in_attach_trigger_analog :: "u32 list \<Rightarrow> 'z adc_scheme \<Rightarrow> (unit, 'z adc_scheme) outcome"
where
  "command_analog_in_attach_trigger_analog args s =
     andthen (oid_lookup (args ! 0) Analog_in_oid s)
       (\<lambda>d s. andthen (trigger_analog_oid_lookup (args ! 1) s)
         (\<lambda>ta s. Ok () (upd_ai d (\<lambda>a. a\<lparr>ai_ta := Some ta\<rparr>) s)))"

section \<open>Reporting\<close>

text \<open>
  The report of one input that has a complete value: writing the sample into the report buffer, a
  fault outside it, and sending the buffer when it is full.
\<close>

definition analog_in_report :: "u8 \<Rightarrow> nat \<Rightarrow> u16 \<Rightarrow> u32 \<Rightarrow> 'z adc_scheme \<Rightarrow> (unit, 'z adc_scheme) outcome" where
  "analog_in_report oid d value next_time s =
     (case write_at (ai_data (analog_ins s d)) (unat (data_count (analog_ins s d))) [ucast value, ucast (drop_bit 8 value)] of
        None \<Rightarrow> Fault
      | Some dat \<Rightarrow>
          let s = upd_ai d (\<lambda>a. a\<lparr>ai_data := dat, data_count := data_count a + 2\<rparr>) s;
              a = analog_ins s d
          in if unat (data_count a) + 2 > unat (bytes_per_report a)
             then if unat (data_count a) > length (ai_data a) then Fault
                  else Ok () (upd_ai d (\<lambda>a. a\<lparr>data_count := 0\<rparr>)
                    (emit (Sendf ''analog_in_state oid=%c next_clock=%u values=%*s''
                       [ucast oid, next_time] (take (unat (data_count a)) (ai_data a))) s))
             else Ok () s)"

definition analog_in_task_one :: "u8 \<Rightarrow> nat \<Rightarrow> 'z adc_scheme \<Rightarrow> (unit, 'z adc_scheme) outcome" where
  "analog_in_task_one oid d s =
     (if ai_state (analog_ins s d) \<noteq> ai_sample_count (analog_ins s d) then Ok () s
      else let s = irq_disable s;
               value = ai_value (analog_ins s d);
               next_time = next_begin_time (analog_ins s d);
               s = upd_ai d (\<lambda>a. a\<lparr>ai_state := ai_state a + 1\<rparr>) s;
               s = irq_enable s
           in andthen (trigger_analog_update (ai_ta (analog_ins s d)) (ucast value) s)
                (\<lambda>_ s. analog_in_report oid d value next_time s))"

fun analog_in_task_list :: "(u8 \<times> nat) list \<Rightarrow> 'z adc_scheme \<Rightarrow> (unit, 'z adc_scheme) outcome" where
  "analog_in_task_list [] s = Ok () s"
| "analog_in_task_list ((oid, d) # ds) s =
     andthen (analog_in_task_one oid d s) (\<lambda>_ s. analog_in_task_list ds s)"

definition analog_in_task :: "'z adc_scheme \<Rightarrow> (unit, 'z adc_scheme) outcome" where
  "analog_in_task s =
     (let (woken, s) = sched_check_wake Analog_wake s
      in if \<not> woken then Ok () s else analog_in_task_list (foreach_oid Analog_in_oid s) s)"

fun analog_in_shutdown_list :: "(u8 \<times> nat) list \<Rightarrow> 'z adc_scheme \<Rightarrow> (unit, 'z adc_scheme) outcome" where
  "analog_in_shutdown_list [] s = Ok () s"
| "analog_in_shutdown_list ((i, d) # ds) s =
     (let s = emit (Gpio_adc_cancel (ai_pin (analog_ins s d))) s;
          s = upd_ai d (\<lambda>a. a\<lparr>ai_ta := None\<rparr>) s
      in andthen
           (if ai_sample_count (analog_ins s d) \<noteq> 0
            then let s = upd_ai d (\<lambda>a. a\<lparr>ai_state := ai_sample_count a + 1,
                           next_begin_time := next_begin_time a + ai_rest_time a\<rparr>) s;
                     s = set_wake (Obj_timer d 0) (next_begin_time (analog_ins s d)) s
                 in sched_add_timer (Obj_timer d 0) s
            else Ok () s)
           (\<lambda>_ s. analog_in_shutdown_list ds s))"

definition analog_in_shutdown :: "'z adc_scheme \<Rightarrow> (unit, 'z adc_scheme) outcome" where
  "analog_in_shutdown s = analog_in_shutdown_list (foreach_oid Analog_in_oid s) s"

end
