(* ===== verification/Gpiocmds.thy ===== *)
theory Gpiocmds
  imports Stepper
begin

text \<open>
  The digital outputs of the firmware (\<^verbatim>\<open>src/src/gpiocmds.c\<close>): scheduled updates, software PWM and
  the maximum time a pin may stay away from its default value.
\<close>

record digital_out_s =
  on_duration :: u32
  off_duration :: u32
  end_time :: u32
  do_pin :: u32
  max_duration :: u32
  cycle_time :: u32
  do_mq :: move_queue_head
  do_flags :: u8

record digital_move =
  dm_waketime :: u32
  dm_on_duration :: u32

record gpiocmds = basecmd +
  sizeof_digital_out :: nat
  sizeof_digital_move :: nat
  digital_outs :: "nat \<Rightarrow> digital_out_s"
  digital_moves :: "nat \<Rightarrow> digital_move"

abbreviation (input) DF_ON :: u8 where "DF_ON \<equiv> 1"
abbreviation (input) DF_TOGGLING :: u8 where "DF_TOGGLING \<equiv> 2"
abbreviation (input) DF_CHECK_END :: u8 where "DF_CHECK_END \<equiv> 4"
abbreviation (input) DF_DEFAULT_ON :: u8 where "DF_DEFAULT_ON \<equiv> 16"
abbreviation (input) do_timer :: "nat \<Rightarrow> tmr" where "do_timer d \<equiv> Obj_timer d 0"

definition upd_do :: "nat \<Rightarrow> (digital_out_s \<Rightarrow> digital_out_s) \<Rightarrow> 'z gpiocmds_scheme \<Rightarrow> 'z gpiocmds_scheme" where
  "upd_do d f s = s\<lparr>digital_outs := (digital_outs s)(d := f (digital_outs s d))\<rparr>"

definition zero_do :: digital_out_s where
  "zero_do = \<lparr>on_duration = 0, off_duration = 0, end_time = 0, do_pin = 0, max_duration = 0, cycle_time = 0,
     do_mq = \<lparr>mq_first = None, mq_last = None\<rparr>, do_flags = 0\<rparr>"

section \<open>Timer events\<close>

definition digital_toggle_event :: "nat \<Rightarrow> 'z gpiocmds_scheme \<Rightarrow> (sched_ret, 'z gpiocmds_scheme) outcome" where
  "digital_toggle_event d s =
     (let s = emit (Gpio_toggle (do_pin (digital_outs s d))) s;
          s = upd_do d (\<lambda>x. x\<lparr>do_flags := do_flags x XOR DF_ON\<rparr>) s;
          out = digital_outs s d;
          waketime = t_wake s (do_timer d) + (if has (do_flags out) DF_ON then on_duration out else off_duration out)
      in if has (do_flags out) DF_CHECK_END \<and> \<not> timer_is_before waketime (end_time out)
         then Ok SF_RESCHEDULE (set_wake (do_timer d) (end_time out) (set_func (do_timer d) (Some Digital_load_event) s))
         else Ok SF_RESCHEDULE (set_wake (do_timer d) waketime s))"

text \<open>The end time and the flags that follow from the new setting alone.\<close>

definition load_end_time :: "digital_out_s \<Rightarrow> u32 \<Rightarrow> u32 \<Rightarrow> u32 \<times> u8" where
  "load_end_time out now on =
     (let flags = (if on \<noteq> 0 then DF_ON else 0) in
      if flags = 0 \<or> on \<ge> cycle_time out
      then if (flags = 0) \<noteq> (\<not> has (do_flags out) DF_DEFAULT_ON) \<and> max_duration out \<noteq> 0
           then (now + max_duration out, flags OR DF_CHECK_END)
           else (0, flags)
      else if max_duration out \<noteq> 0
           then (now + max_duration out, flags OR DF_TOGGLING OR DF_CHECK_END)
           else (0, flags OR DF_TOGGLING))"

text \<open>Limiting the end time by the next queued update.\<close>

definition load_next_update ::
  "nat \<Rightarrow> u32 \<times> u8 \<Rightarrow> 'z gpiocmds_scheme \<Rightarrow> (u32 \<times> u8, 'z gpiocmds_scheme) outcome"
where
  "load_next_update d ef s =
     (let (etime, flags) = ef in
      if move_queue_empty (do_mq (digital_outs s d)) then Ok (etime, flags) s
      else case move_queue_first (do_mq (digital_outs s d)) of
             None \<Rightarrow> Fault
           | Some nn \<Rightarrow>
               let wake = dm_waketime (digital_moves s nn) in
               if has flags DF_CHECK_END \<and> timer_is_before etime wake
               then sched_shutdown ''Scheduled digital out event will exceed max_duration'' s
               else Ok (wake, flags OR DF_CHECK_END) s)"

text \<open>Scheduling the next event.\<close>

definition load_schedule ::
  "nat \<Rightarrow> u32 \<Rightarrow> u32 \<Rightarrow> u8 \<Rightarrow> 'z gpiocmds_scheme \<Rightarrow> (sched_ret, 'z gpiocmds_scheme) outcome"
where
  "load_schedule d on etime flags s =
     (if \<not> has flags DF_TOGGLING
      then if \<not> has flags DF_CHECK_END then Ok SF_DONE s
           else Ok SF_RESCHEDULE (set_wake (do_timer d) etime s)
      else let waketime = t_wake s (do_timer d) + on in
        if has flags DF_CHECK_END \<and> \<not> timer_is_before waketime etime
        then Ok SF_RESCHEDULE (set_wake (do_timer d) etime s)
        else let s = set_func (do_timer d) (Some Digital_toggle_event) s;
                 s = set_wake (do_timer d) waketime s;
                 s = upd_do d (\<lambda>x. x\<lparr>on_duration := on, off_duration := cycle_time x - on\<rparr>) s
             in Ok SF_RESCHEDULE s)"

definition digital_load_event :: "nat \<Rightarrow> 'z gpiocmds_scheme \<Rightarrow> (sched_ret, 'z gpiocmds_scheme) outcome" where
  "digital_load_event d s =
     (if move_queue_empty (do_mq (digital_outs s d))
      then sched_shutdown ''Missed scheduling of next digital out event'' s
      else case move_queue_pop (do_mq (digital_outs s d)) s of
             None \<Rightarrow> Fault
           | Some (mn, mh) \<Rightarrow>
               let s = upd_do d (\<lambda>x. x\<lparr>do_mq := mh\<rparr>) s;
                   on = dm_on_duration (digital_moves s mn);
                   s = emit (Gpio_write (do_pin (digital_outs s d)) (on \<noteq> 0)) s;
                   s = move_free mn s
               in andthen (load_next_update d (load_end_time (digital_outs s d) (t_wake s (do_timer d)) on) s)
                    (\<lambda>ef s.
                      let (etime, flags) = ef;
                          s = upd_do d (\<lambda>x. x\<lparr>end_time := etime, do_flags := flags OR (do_flags x AND DF_DEFAULT_ON)\<rparr>) s
                      in load_schedule d on etime flags s))"

section \<open>Commands\<close>

definition command_config_digital_out :: "u32 list \<Rightarrow> 'z gpiocmds_scheme \<Rightarrow> (unit, 'z gpiocmds_scheme) outcome"
where
  "command_config_digital_out args s =
     (let s = emit (Gpio_setup (args ! 1) (args ! 2 \<noteq> 0)) s in
      andthen (oid_alloc (args ! 0) Digital_out_oid (sizeof_digital_out s) s)
        (\<lambda>d s.
          let s = upd_do d (\<lambda>_. zero_do\<lparr>do_pin := args ! 1,
                    do_flags := (if args ! 2 \<noteq> 0 then DF_ON else 0) OR (if args ! 3 \<noteq> 0 then DF_DEFAULT_ON else 0),
                    max_duration := args ! 4\<rparr>) (zero_timer (do_timer d) s)
          in andthen (move_queue_setup (sizeof_digital_move s) s)
               (\<lambda>mh s. Ok () (upd_do d (\<lambda>x. x\<lparr>do_mq := mh\<rparr>) s))))"

definition command_set_digital_out_pwm_cycle :: "u32 list \<Rightarrow> 'z gpiocmds_scheme \<Rightarrow> (unit, 'z gpiocmds_scheme) outcome"
where
  "command_set_digital_out_pwm_cycle args s =
     andthen (oid_lookup (args ! 0) Digital_out_oid s)
       (\<lambda>d s.
         let s = irq_disable s in
         if \<not> move_queue_empty (do_mq (digital_outs s d))
         then sched_shutdown ''Can not set soft pwm cycle ticks while updates pending'' s
         else Ok () (irq_enable (upd_do d (\<lambda>x. x\<lparr>cycle_time := args ! 1\<rparr>) s)))"

text \<open>What \<^verbatim>\<open>queue_digital_out\<close> does for the first update on the queue.\<close>

definition queue_first_update :: "nat \<Rightarrow> u32 \<Rightarrow> 'z gpiocmds_scheme \<Rightarrow> (unit, 'z gpiocmds_scheme) outcome" where
  "queue_first_update d time s =
     (let flags = do_flags (digital_outs s d) in
      if has flags DF_CHECK_END \<and> timer_is_before (end_time (digital_outs s d)) time
      then sched_shutdown ''Scheduled digital out event will exceed max_duration'' s
      else let s = upd_do d (\<lambda>x. x\<lparr>end_time := time, do_flags := flags OR DF_CHECK_END\<rparr>) s in
        andthen
          (if has flags DF_TOGGLING \<and> timer_is_before (t_wake s (do_timer d)) time then Ok () s
           else andthen (sched_del_timer (do_timer d) s)
                  (\<lambda>_ s.
                    let s = set_wake (do_timer d) time s;
                        s = set_func (do_timer d) (Some Digital_load_event) s
                    in sched_add_timer (do_timer d) s))
          (\<lambda>_ s. Ok () (irq_enable s)))"

definition command_queue_digital_out :: "u32 list \<Rightarrow> 'z gpiocmds_scheme \<Rightarrow> (unit, 'z gpiocmds_scheme) outcome"
where
  "command_queue_digital_out args s =
     andthen (oid_lookup (args ! 0) Digital_out_oid s)
       (\<lambda>d s. andthen (move_alloc s)
         (\<lambda>m s.
           let s = s\<lparr>digital_moves := (digital_moves s)(m := \<lparr>dm_waketime = args ! 1, dm_on_duration = args ! 2\<rparr>)\<rparr>;
               s = irq_disable s
           in case move_queue_push m (do_mq (digital_outs s d)) s of
                None \<Rightarrow> Fault
              | Some (first_on_queue, mh, s) \<Rightarrow>
                  let s = upd_do d (\<lambda>x. x\<lparr>do_mq := mh\<rparr>) s in
                  if \<not> first_on_queue then Ok () (irq_enable s) else queue_first_update d (args ! 1) s))"

definition command_update_digital_out :: "u32 list \<Rightarrow> 'z gpiocmds_scheme \<Rightarrow> (unit, 'z gpiocmds_scheme) outcome"
where
  "command_update_digital_out args s =
     andthen (oid_lookup (args ! 0) Digital_out_oid s)
       (\<lambda>d s. andthen (sched_del_timer (do_timer d) s)
         (\<lambda>_ s.
           if \<not> move_queue_empty (do_mq (digital_outs s d))
           then sched_shutdown ''update_digital_out not valid with active queue'' s
           else
             let val = ucast (args ! 1) :: u8;
                 flags = do_flags (digital_outs s d);
                 on_flag = (if val \<noteq> 0 then DF_ON else 0);
                 s = emit (Gpio_write (do_pin (digital_outs s d)) (on_flag \<noteq> 0)) s
             in if (on_flag = 0) \<noteq> (\<not> has flags DF_DEFAULT_ON) \<and> max_duration (digital_outs s d) \<noteq> 0
                then let (now, s) = timer_read_time s;
                         etime = now + max_duration (digital_outs s d);
                         s = set_wake (do_timer d) etime s;
                         s = set_func (do_timer d) (Some Digital_load_event) s;
                         s = upd_do d (\<lambda>x. x\<lparr>end_time := etime,
                               do_flags := (flags AND DF_DEFAULT_ON) OR on_flag OR DF_CHECK_END\<rparr>) s
                     in sched_add_timer (do_timer d) s
                else Ok () (upd_do d (\<lambda>x. x\<lparr>do_flags := (flags AND DF_DEFAULT_ON) OR on_flag\<rparr>) s)))"

fun digital_out_shutdown_list :: "(u8 \<times> nat) list \<Rightarrow> 'z gpiocmds_scheme \<Rightarrow> 'z gpiocmds_scheme" where
  "digital_out_shutdown_list [] s = s"
| "digital_out_shutdown_list ((i, d) # ds) s =
     (let dflt = has (do_flags (digital_outs s d)) DF_DEFAULT_ON;
          s = emit (Gpio_write (do_pin (digital_outs s d)) dflt) s;
          s = upd_do d (\<lambda>x. x\<lparr>do_flags := (if dflt then DF_ON OR DF_DEFAULT_ON else 0),
                do_mq := move_queue_clear (do_mq x)\<rparr>) s
      in digital_out_shutdown_list ds s)"

definition digital_out_shutdown :: "'z gpiocmds_scheme \<Rightarrow> 'z gpiocmds_scheme" where
  "digital_out_shutdown s = digital_out_shutdown_list (foreach_oid Digital_out_oid s) s"

definition command_set_digital_out :: "u32 list \<Rightarrow> 'z board_scheme \<Rightarrow> (unit, 'z board_scheme) outcome" where
  "command_set_digital_out args s = Ok () (emit (Gpio_setup (args ! 0) (ucast (args ! 1) \<noteq> (0 :: u8))) s)"

end
