(* ===== verification/Gpiocmds_Props.thy ===== *)
theory Gpiocmds_Props
  imports Gpiocmds Stepper_Props
begin

text \<open>
  The safety property of \<^verbatim>\<open>src/src/gpiocmds.c\<close>: a pin with a maximum duration never stays away
  from its default value for longer than that without a new update.
\<close>

lemma upd_do_frame [simp]:
  "digital_outs (upd_do d f s) = (digital_outs s)(d := f (digital_outs s d))" "t_func (upd_do d f s) = t_func s"
  "t_wake (upd_do d f s) = t_wake s" "digital_moves (upd_do d f s) = digital_moves s"
  "digital_outs (emit e s) = digital_outs s" "digital_outs (set_wake t w s) = digital_outs s"
  "digital_outs (set_func t g s) = digital_outs s" "digital_outs (move_free m s) = digital_outs s"
  "digital_moves (emit e s) = digital_moves s" "digital_moves (move_free m s) = digital_moves s"
  "out_log (upd_do d f s) = out_log s"
  by (simp_all add: upd_do_def emit_def set_wake_def set_func_def move_free_def)

text \<open>A setting that is not the constant default value of the pin.\<close>

definition away :: "digital_out_s \<Rightarrow> u32 \<Rightarrow> bool" where
  "away out on \<longleftrightarrow>
     (if on = 0 then has (do_flags out) DF_DEFAULT_ON
      else on < cycle_time out \<or> \<not> has (do_flags out) DF_DEFAULT_ON)"

text \<open>The next load event is due at the end time, or a toggle is due before it.\<close>

definition deadline_armed :: "nat \<Rightarrow> 'z gpiocmds_scheme \<Rightarrow> bool" where
  "deadline_armed d s \<longleftrightarrow>
     has (do_flags (digital_outs s d)) DF_CHECK_END \<and>
     (t_func s (Obj_timer d 0) = Some Digital_load_event \<and> t_wake s (Obj_timer d 0) = end_time (digital_outs s d) \<or>
      t_func s (Obj_timer d 0) = Some Digital_toggle_event \<and>
        timer_is_before (t_wake s (Obj_timer d 0)) (end_time (digital_outs s d)))"

lemma do_flag_simps:
  "has (1 OR 4) 4" "has (0 OR 4) 4" "has (1 OR 2 OR 4) 4" "has (1 OR 2 OR 4) 2" "\<not> has (1 OR 4) 2" "\<not> has (0 OR 4) 2"
  "has (f OR 4) 4" "has f 4 \<Longrightarrow> has (f OR g) 4"
proof -
  show "has (1 OR 4) 4" "has (0 OR 4) 4" "has (1 OR 2 OR 4) 4" "has (1 OR 2 OR 4) 2" "\<not> has (1 OR 4) 2" "\<not> has (0 OR 4) 2"
    by (simp_all add: has_def)
  have b: "has h 4 \<longleftrightarrow> bit h 2" for h :: u8
  proof -
    have "h AND 4 = (if bit h 2 then 4 else 0)"
      by (rule word8_eqI, unfold all_less_8) (auto simp: bit_simps)
    then show ?thesis by (simp add: has_def)
  qed
  show "has (f OR 4) 4" "has f 4 \<Longrightarrow> has (f OR g) 4" by (simp_all add: b bit_simps)
qed

lemma load_end_time_away:
  assumes "away out on" "max_duration out \<noteq> 0"
  shows "\<exists>flags. load_end_time out now on = (now + max_duration out, flags) \<and> has flags DF_CHECK_END"
  using assms by (auto simp: load_end_time_def away_def Let_def has_def linorder_not_less)

lemma load_next_update_bound:
  assumes "load_next_update d (e, flags) s = Ok (etime, flags') s'" "has flags DF_CHECK_END"
  shows "s' = s \<and> has flags' DF_CHECK_END \<and> \<not> timer_is_before e etime"
  using assms
  by (auto simp: load_next_update_def Let_def sched_shutdown_def do_flag_simps timer_is_before_def
      split: if_splits option.splits)

lemma load_schedule_armed:
  assumes "load_schedule d on etime flags s = Ok r s'" "has flags DF_CHECK_END"
    "end_time (digital_outs s d) = etime" "has (do_flags (digital_outs s d)) DF_CHECK_END"
    "t_func s (Obj_timer d 0) = Some Digital_load_event"
  shows "r = SF_RESCHEDULE \<and> deadline_armed d s' \<and> end_time (digital_outs s' d) = etime \<and>
     do_pin (digital_outs s' d) = do_pin (digital_outs s d)"
  using assms by (auto simp: load_schedule_def deadline_armed_def Let_def split: if_splits)

lemma digital_load_event_armed:
  assumes r: "digital_load_event d s = Ok r s'" and q: "mq s (do_mq (digital_outs s d)) (m # ms)"
    and f: "t_func s (Obj_timer d 0) = Some Digital_load_event"
    and a: "away (digital_outs s d) (dm_on_duration (digital_moves s m))" "max_duration (digital_outs s d) \<noteq> 0"
  shows "r = SF_RESCHEDULE \<and> deadline_armed d s' \<and>
     \<not> timer_is_before (t_wake s (Obj_timer d 0) + max_duration (digital_outs s d)) (end_time (digital_outs s' d))"
proof -
  let ?on = "dm_on_duration (digital_moves s m)"
  from move_queue_pop_mq [OF q] obtain mh where p: "move_queue_pop (do_mq (digital_outs s d)) s = Some (m, mh)" by blast
  have e: "\<not> move_queue_empty (do_mq (digital_outs s d))" using q by (auto simp: mq_def move_queue_empty_def)
  define s1 where "s1 = move_free m (emit (Gpio_write (do_pin (digital_outs s d)) (?on \<noteq> 0))
      (upd_do d (\<lambda>x. x\<lparr>do_mq := mh\<rparr>) s))"
  have s1: "digital_outs s1 d = (digital_outs s d)\<lparr>do_mq := mh\<rparr>" "t_func s1 = t_func s" "t_wake s1 = t_wake s"
    by (simp_all add: s1_def)
  have "away (digital_outs s1 d) ?on" "max_duration (digital_outs s1 d) \<noteq> 0" using a by (simp_all add: s1 away_def)
  from load_end_time_away [OF this] obtain flags where
    le: "load_end_time (digital_outs s1 d) (t_wake s (Obj_timer d 0)) ?on =
           (t_wake s (Obj_timer d 0) + max_duration (digital_outs s d), flags)" "has flags DF_CHECK_END"
    by (auto simp: s1)
  have "digital_load_event d s =
      andthen (load_next_update d (load_end_time (digital_outs s1 d) (t_wake s1 (Obj_timer d 0)) ?on) s1)
        (\<lambda>ef s. let (etime, flags) = ef;
           s = upd_do d (\<lambda>x. x\<lparr>end_time := etime, do_flags := flags OR (do_flags x AND DF_DEFAULT_ON)\<rparr>) s
         in load_schedule d ?on etime flags s)"
    using e p by (simp add: digital_load_event_def s1_def Let_def)
  with r le(1) s1(3) obtain etime flags' s2 where
    l: "load_next_update d (t_wake s (Obj_timer d 0) + max_duration (digital_outs s d), flags) s1 = Ok (etime, flags') s2"
    and sch: "load_schedule d ?on etime flags'
      (upd_do d (\<lambda>x. x\<lparr>end_time := etime, do_flags := flags' OR (do_flags x AND DF_DEFAULT_ON)\<rparr>) s2) = Ok r s'"
    by (auto simp: andthen_Ok_iff Let_def)
  from load_next_update_bound [OF l le(2)] have b: "s2 = s1" "has flags' DF_CHECK_END"
    "\<not> timer_is_before (t_wake s (Obj_timer d 0) + max_duration (digital_outs s d)) etime" by auto
  from load_schedule_armed [OF sch b(2)] b f s1 do_flag_simps(8) [OF b(2)] show ?thesis by auto
qed

lemma digital_toggle_event_armed:
  assumes "deadline_armed d s" "t_func s (Obj_timer d 0) = Some Digital_toggle_event"
  shows "\<exists>s'. digital_toggle_event d s = Ok SF_RESCHEDULE s' \<and> deadline_armed d s' \<and>
     end_time (digital_outs s' d) = end_time (digital_outs s d) \<and> do_mq (digital_outs s' d) = do_mq (digital_outs s d)"
proof -
  have x: "has (f XOR 1) 4 = has f 4" for f :: u8
  proof -
    have "(f XOR 1) AND 4 = f AND 4" by (rule word8_eqI, unfold all_less_8) (simp add: bit_simps)
    then show ?thesis by (simp add: has_def)
  qed
  show ?thesis using assms x by (simp add: digital_toggle_event_def deadline_armed_def Let_def)
qed

text \<open>\<open>n\<close> toggle events in a row.\<close>

fun toggles :: "nat \<Rightarrow> nat \<Rightarrow> 'z gpiocmds_scheme \<Rightarrow> 'z gpiocmds_scheme option" where
  "toggles d 0 s = Some s"
| "toggles d (Suc n) s =
     (case toggles d n s of
        None \<Rightarrow> None
      | Some s \<Rightarrow>
          if t_func s (Obj_timer d 0) = Some Digital_toggle_event
          then (case digital_toggle_event d s of Ok _ s \<Rightarrow> Some s | _ \<Rightarrow> None) else None)"

lemma toggles_armed:
  assumes "deadline_armed d s" "toggles d n s = Some s1"
  shows "deadline_armed d s1 \<and> end_time (digital_outs s1 d) = end_time (digital_outs s d)"
  using assms(2)
proof (induction n arbitrary: s1)
  case 0
  then show ?case using assms(1) by simp
next
  case (Suc n)
  then obtain s0 where s0: "toggles d n s = Some s0" "t_func s0 (Obj_timer d 0) = Some Digital_toggle_event"
    by (auto split: option.splits if_splits)
  from Suc.IH [OF s0(1)] have i: "deadline_armed d s0" "end_time (digital_outs s0 d) = end_time (digital_outs s d)" by auto
  from digital_toggle_event_armed [OF i(1) s0(2)] obtain s2 where "digital_toggle_event d s0 = Ok SF_RESCHEDULE s2"
    "deadline_armed d s2" "end_time (digital_outs s2 d) = end_time (digital_outs s0 d)" by blast
  with Suc.prems s0 i show ?case by simp
qed


definition demo_gpio :: gpiocmds where
  "demo_gpio = basecmd.extend (set_func (Obj_timer 5 0) (Some Digital_load_event) demo_basecmd)
     \<lparr>sizeof_digital_out = 60, sizeof_digital_move = 16,
      digital_outs = (\<lambda>d. zero_do\<lparr>do_pin := 3, max_duration := 10000, cycle_time := 500,
        do_mq := \<lparr>mq_first = Some 96, mq_last = Some 96\<rparr>\<rparr>),
      digital_moves = (\<lambda>m. \<lparr>dm_waketime = 2000, dm_on_duration = 200\<rparr>)\<rparr>"


end
