(* ===== verification/Buttons.thy ===== *)
theory Buttons
  imports Stepper
begin

text \<open>
  The user interface buttons of the firmware (\<^verbatim>\<open>src/src/buttons.c\<close>): a timer samples up to eight
  pins, debounces them and queues the changes for the host, which acknowledges them. Reports that
  are not acknowledged in time are sent again.
\<close>

record buttons =
  rest_ticks :: u32
  pressed :: u8
  last_pressed :: u8
  report_count :: u8
  reports :: "u8 list"       \<comment> \<open>\<^verbatim>\<open>reports[8]\<close>\<close>
  ack_count :: u8
  retransmit_state :: u8
  retransmit_count :: u8
  button_count :: u8
  bt_pins :: "u32 list"      \<comment> \<open>\<^verbatim>\<open>pins\<close>, of length \<open>button_count\<close>\<close>

record buttonsm = basecmd +
  sizeof_buttons :: nat
  sizeof_gpio_in :: nat
  button_objs :: "nat \<Rightarrow> buttons"

abbreviation (input) BF_NO_RETRANSMIT :: u8 where "BF_NO_RETRANSMIT \<equiv> 0x80"
abbreviation (input) BF_PENDING :: u8 where "BF_PENDING \<equiv> 0xff"
abbreviation (input) BF_ACKED :: u8 where "BF_ACKED \<equiv> 0xfe"
abbreviation (input) bt_timer :: "nat \<Rightarrow> tmr" where "bt_timer d \<equiv> Obj_timer d 0"

definition upd_bt :: "nat \<Rightarrow> (buttons \<Rightarrow> buttons) \<Rightarrow> 'z buttonsm_scheme \<Rightarrow> 'z buttonsm_scheme" where
  "upd_bt d f s = s\<lparr>button_objs := (button_objs s)(d := f (button_objs s d))\<rparr>"

section \<open>Sampling\<close>

fun read_pins :: "u32 list \<Rightarrow> u8 \<Rightarrow> u8 \<Rightarrow> 'z board_scheme \<Rightarrow> u8 \<times> 'z board_scheme" where
  "read_pins [] msk status s = (status, s)"
| "read_pins (p # ps) msk status s =
     (let (val, s) = gpio_in_read p s
      in read_pins ps (push_bit 1 msk) (if val then status OR msk else status) s)"

text \<open>Debouncing: the new object, and whether the task is woken.\<close>

definition buttons_debounce :: "u8 \<Rightarrow> buttons \<Rightarrow> buttons \<times> bool" where
  "buttons_debounce status b =
     (let diff = status XOR pressed b;
          debounced = NOT (status XOR last_pressed b);
          (b, wake) =
            (if diff \<noteq> 0 \<and> diff AND debounced \<noteq> 0
             then let b = b\<lparr>pressed := (pressed b AND NOT debounced) OR (status AND debounced)\<rparr> in
               if unat (report_count b) < 8
               then (b\<lparr>reports := (reports b)[unat (report_count b) := pressed b],
                       report_count := report_count b + 1, retransmit_state := BF_PENDING\<rparr>, True)
               else (b, False)
             else (b, False))
      in (b\<lparr>last_pressed := status\<rparr>, wake))"

text \<open>Counting down to a retransmission.\<close>

definition buttons_retransmit :: "buttons \<Rightarrow> buttons \<times> bool" where
  "buttons_retransmit b =
     (if \<not> has (retransmit_state b) BF_NO_RETRANSMIT
      then (b\<lparr>retransmit_state := retransmit_state b - 1\<rparr>, has (retransmit_state b - 1) BF_NO_RETRANSMIT)
      else (b, False))"

definition buttons_event :: "nat \<Rightarrow> 'z buttonsm_scheme \<Rightarrow> (sched_ret, 'z buttonsm_scheme) outcome" where
  "buttons_event d s =
     (let (status, s) = read_pins (take (unat (button_count (button_objs s d))) (bt_pins (button_objs s d))) 1 0 s;
          (b, wake) = buttons_debounce status (button_objs s d);
          s = upd_bt d (\<lambda>_. b) s;
          s = (if wake then sched_wake_task Buttons_wake s else s);
          (b, wake) = buttons_retransmit (button_objs s d);
          s = (if wake then sched_wake_task Buttons_wake s else s);
          s = upd_bt d (\<lambda>_. b) s;
          s = set_wake (bt_timer d) (t_wake s (bt_timer d) + rest_ticks (button_objs s d)) s
      in Ok SF_RESCHEDULE s)"

section \<open>Commands\<close>

definition command_config_buttons :: "u32 list \<Rightarrow> 'z buttonsm_scheme \<Rightarrow> (unit, 'z buttonsm_scheme) outcome" where
  "command_config_buttons args s =
     (let count = ucast (args ! 1) :: u8 in
      if count > 8 then sched_shutdown ''Max of 8 buttons'' s
      else andthen (oid_alloc (args ! 0) Buttons_oid (sizeof_buttons s + sizeof_gpio_in s * unat count) s)
        (\<lambda>d s.
          let s = upd_bt d (\<lambda>_. \<lparr>rest_ticks = 0, pressed = 0, last_pressed = 0, report_count = 0,
                    reports = replicate 8 0, ack_count = 0, retransmit_state = 0, retransmit_count = 0,
                    button_count = count, bt_pins = replicate (unat count) 0\<rparr>) (zero_timer (bt_timer d) s)
          in Ok () (set_func (bt_timer d) (Some Buttons_event) s)))"

definition command_buttons_add :: "u32 list \<Rightarrow> 'z buttonsm_scheme \<Rightarrow> (unit, 'z buttonsm_scheme) outcome" where
  "command_buttons_add args s =
     andthen (oid_lookup (args ! 0) Buttons_oid s)
       (\<lambda>d s.
         let pos = ucast (args ! 1) :: u8 in
         if pos \<ge> button_count (button_objs s d) then sched_shutdown ''Set button past maximum button count'' s
         else if unat pos \<ge> length (bt_pins (button_objs s d)) then Fault
         else let s = emit (Gpio_in_setup (args ! 2) (args ! 3)) s
              in Ok () (upd_bt d (\<lambda>b. b\<lparr>bt_pins := (bt_pins b)[unat pos := args ! 2]\<rparr>) s))"

definition command_buttons_query :: "u32 list \<Rightarrow> 'z buttonsm_scheme \<Rightarrow> (unit, 'z buttonsm_scheme) outcome" where
  "command_buttons_query args s =
     andthen (oid_lookup (args ! 0) Buttons_oid s)
       (\<lambda>d s. andthen (sched_del_timer (bt_timer d) s)
         (\<lambda>_ s.
           let s = set_wake (bt_timer d) (args ! 1) s;
               s = upd_bt d (\<lambda>b. b\<lparr>rest_ticks := args ! 2, pressed := ucast (args ! 4), last_pressed := ucast (args ! 4),
                     ack_count := 0, report_count := 0, retransmit_state := BF_ACKED,
                     retransmit_count := ucast (args ! 3)\<rparr>) s
           in if retransmit_count (button_objs s d) \<ge> BF_NO_RETRANSMIT
              then sched_shutdown ''Invalid buttons retransmit count'' s
              else if rest_ticks (button_objs s d) = 0 then Ok () s
              else sched_add_timer (bt_timer d) s))"

text \<open>The loop that moves the reports not acknowledged yet to the front; \<open>None\<close> is a read outside the array.\<close>

fun ack_shift :: "nat list \<Rightarrow> nat \<Rightarrow> u8 list \<Rightarrow> u8 list option" where
  "ack_shift [] count rs = Some rs"
| "ack_shift (i # is) count rs =
     (if i + count < length rs then ack_shift is count (rs[i := rs ! (i + count)]) else None)"

definition buttons_ack_update :: "u8 \<Rightarrow> buttons \<Rightarrow> buttons option" where
  "buttons_ack_update count b =
     (let b = b\<lparr>ack_count := ack_count b + count\<rparr> in
      if count \<ge> report_count b then Some (b\<lparr>report_count := 0, retransmit_state := BF_ACKED\<rparr>)
      else let pending = report_count b - count in
        case ack_shift [0..<unat pending] (unat count) (reports b) of
          None \<Rightarrow> None
        | Some rs \<Rightarrow> Some (b\<lparr>reports := rs, report_count := pending\<rparr>))"

definition command_buttons_ack :: "u32 list \<Rightarrow> 'z buttonsm_scheme \<Rightarrow> (unit, 'z buttonsm_scheme) outcome" where
  "command_buttons_ack args s =
     andthen (oid_lookup (args ! 0) Buttons_oid s)
       (\<lambda>d s.
         let s = irq_disable s in
         case buttons_ack_update (ucast (args ! 1)) (button_objs s d) of
           None \<Rightarrow> Fault
         | Some b \<Rightarrow> Ok () (irq_enable (upd_bt d (\<lambda>_. b) s)))"

fun buttons_task_list :: "(u8 \<times> nat) list \<Rightarrow> 'z buttonsm_scheme \<Rightarrow> (unit, 'z buttonsm_scheme) outcome" where
  "buttons_task_list [] s = Ok () s"
| "buttons_task_list ((oid, d) # ds) s =
     (if retransmit_state (button_objs s d) \<noteq> BF_PENDING then buttons_task_list ds s
      else let s = irq_disable s; count = report_count (button_objs s d) in
        if count = 0 then buttons_task_list ds (irq_enable s)
        else let s = upd_bt d (\<lambda>b. b\<lparr>retransmit_state := retransmit_count b\<rparr>) s;
                 s = irq_enable s
             in if unat count > length (reports (button_objs s d)) then Fault
                else buttons_task_list ds
                  (emit (Sendf ''buttons_state oid=%c ack_count=%c state=%*s''
                     [ucast oid, ucast (ack_count (button_objs s d))] (take (unat count) (reports (button_objs s d)))) s))"

definition buttons_task :: "'z buttonsm_scheme \<Rightarrow> (unit, 'z buttonsm_scheme) outcome" where
  "buttons_task s =
     (let (woken, s) = sched_check_wake Buttons_wake s
      in if \<not> woken then Ok () s else buttons_task_list (foreach_oid Buttons_oid s) s)"

end
