(* ===== verification/Buttons_Props.thy ===== *)
theory Buttons_Props
  imports Buttons Basecmd_Props
begin

text \<open>
  The buttons (\<^verbatim>\<open>src/src/buttons.c\<close>) refine a queue of at most eight reports: a debounced change is
  appended, an acknowledgement removes the oldest ones, and the array is never left.
\<close>

definition buttons_ok :: "buttons \<Rightarrow> bool" where
  "buttons_ok b \<longleftrightarrow> length (reports b) = 8 \<and> unat (report_count b) \<le> 8"

text \<open>The abstract queue.\<close>

definition reports_q :: "buttons \<Rightarrow> u8 list" where
  "reports_q b = take (unat (report_count b)) (reports b)"

lemma length_reports_q [simp]: "buttons_ok b \<Longrightarrow> length (reports_q b) = unat (report_count b)"
  by (simp add: reports_q_def buttons_ok_def)

lemma debounce_bits:
  "bit ((p AND NOT (NOT (st XOR l))) OR (st AND NOT (st XOR l))) i = (if bit st i = bit l i then bit st i else bit p i)"
  if "i < 8" for p st l :: u8
  using that by (auto simp: bit_simps)

lemma debounce_stable:
  fixes p st l :: u8
  assumes "(st XOR p) AND NOT (st XOR l) = 0"
  shows "(p AND NOT (NOT (st XOR l))) OR (st AND NOT (st XOR l)) = p"
proof (rule bit_word_eqI)
  fix n assume n: "n < LENGTH(8)"
  have "\<not> bit ((st XOR p) AND NOT (st XOR l)) n" using assms by simp
  then show "bit ((p AND NOT (NOT (st XOR l))) OR (st AND NOT (st XOR l))) n = bit p n"
    using n by (simp add: bit_simps) argo
qed

lemma debounce_changes:
  fixes p st l :: u8
  assumes "(st XOR p) AND NOT (st XOR l) \<noteq> 0"
  shows "(p AND NOT (NOT (st XOR l))) OR (st AND NOT (st XOR l)) \<noteq> p"
proof
  assume e: "(p AND NOT (NOT (st XOR l))) OR (st AND NOT (st XOR l)) = p"
  have "(st XOR p) AND NOT (st XOR l) = 0"
  proof (rule bit_word_eqI)
    fix n assume n: "n < LENGTH(8)"
    have "bit ((p AND NOT (NOT (st XOR l))) OR (st AND NOT (st XOR l))) n = bit p n" using e by simp
    then show "bit ((st XOR p) AND NOT (st XOR l)) n = bit (0 :: u8) n"
      using n by (simp add: bit_simps) argo
  qed
  with assms show False by simp
qed

lemma unat_Suc_u8: "unat (c :: u8) < 8 \<Longrightarrow> unat (c + 1) = Suc (unat c)"
  by (subst unat_word_ariths) simp

lemma reports_push:
  assumes "length rs = 8" "unat (c :: u8) < 8"
  shows "take (unat (c + 1)) (rs[unat c := x]) = take (unat c) rs @ [x]"
  using assms by (simp add: unat_Suc_u8 take_Suc_conv_app_nth)

lemma ack_shift_spec:
  assumes "k + m + count \<le> length rs"
  shows "\<exists>rs'. ack_shift [k..<k + m] count rs = Some rs' \<and> length rs' = length rs \<and> take k rs' = take k rs \<and>
     (count > 0 \<longrightarrow> (\<forall>i. k \<le> i \<and> i < k + m \<longrightarrow> rs' ! i = rs ! (i + count)))"
  using assms
proof (induction m arbitrary: k rs)
  case 0
  then show ?case by auto
next
  case (Suc m)
  let ?rs = "rs[k := rs ! (k + count)]"
  from Suc.IH [of "Suc k" ?rs] Suc.prems obtain rs' where
    r: "ack_shift [Suc k..<Suc k + m] count ?rs = Some rs'" "length rs' = length rs" "take (Suc k) rs' = take (Suc k) ?rs"
       "count > 0 \<longrightarrow> (\<forall>i. Suc k \<le> i \<and> i < Suc k + m \<longrightarrow> rs' ! i = ?rs ! (i + count))" by auto
  have u: "[k..<k + Suc m] = k # [Suc k..<Suc k + m]" by (simp add: upt_conv_Cons)
  have k: "rs' ! k = rs ! (k + count)"
    using arg_cong [OF r(3), of "\<lambda>l. l ! k"] Suc.prems by simp
  have "take k rs' = take k rs"
    using arg_cong [OF r(3), of "take k"] by (simp add: min_def)
  moreover have "rs' ! i = rs ! (i + count)" if "count > 0" "k \<le> i" "i < k + Suc m" for i
    using that k r(4) by (cases "i = k") auto
  ultimately show ?case unfolding u using r(1,2) Suc.prems by auto
qed

lemma buttons_ack_update_spec:
  assumes "buttons_ok b"
  shows "\<exists>b'. buttons_ack_update n b = Some b' \<and> buttons_ok b' \<and> reports_q b' = drop (unat n) (reports_q b) \<and>
     ack_count b' = ack_count b + n \<and> pressed b' = pressed b \<and> last_pressed b' = last_pressed b"
proof (cases "n \<ge> report_count b")
  case True
  then have "unat (report_count b) \<le> unat n" by (simp add: word_le_nat_alt)
  with True assms show ?thesis by (simp add: buttons_ack_update_def buttons_ok_def reports_q_def)
next
  case False
  then have l: "unat n < unat (report_count b)" by (simp add: word_le_nat_alt)
  have p: "unat (report_count b - n) = unat (report_count b) - unat n"
    using l by (simp add: unat_sub word_le_nat_alt)
  from ack_shift_spec [of 0 "unat (report_count b - n)" "unat n" "reports b"] assms l p obtain rs' where
    r: "ack_shift [0..<unat (report_count b - n)] (unat n) (reports b) = Some rs'" "length rs' = 8"
      "unat n > 0 \<longrightarrow> (\<forall>i<unat (report_count b - n). rs' ! i = reports b ! (i + unat n))"
    by (auto simp: buttons_ok_def)
  have "take (unat (report_count b - n)) rs' = drop (unat n) (take (unat (report_count b)) (reports b))"
  proof (cases "unat n = 0")
    case True
    have "ack_shift xs 0 (reports b) = Some (reports b)" if "set xs \<subseteq> {0..<8}" for xs
      using that assms by (induction xs) (auto simp: buttons_ok_def)
    then have "rs' = reports b" using r(1) True assms p by (auto simp: buttons_ok_def)
    with True p show ?thesis by simp
  next
    case False
    with r p l assms show ?thesis
      by (intro nth_equalityI) (auto simp: buttons_ok_def add.commute)
  qed
  moreover have "unat (report_count b) - unat n \<le> 8" using assms unfolding buttons_ok_def by linarith
  ultimately show ?thesis using r False l p assms
    by (simp add: buttons_ack_update_def reports_q_def buttons_ok_def Let_def)
qed

lemma buttons_debounce_spec:
  assumes "buttons_ok b" "buttons_debounce st b = (b', wake)"
  shows "buttons_ok b' \<and> last_pressed b' = st \<and>
     (\<forall>i<8. bit (pressed b') i = (if bit st i = bit (last_pressed b) i then bit st i else bit (pressed b) i)) \<and>
     wake = (pressed b' \<noteq> pressed b \<and> length (reports_q b) < 8) \<and>
     reports_q b' = reports_q b @ (if wake then [pressed b'] else [])"
proof -
  let ?p = "(pressed b AND NOT (NOT (st XOR last_pressed b))) OR (st AND NOT (st XOR last_pressed b))"
  have p: "pressed b' = ?p"
    using assms(2) debounce_stable [of st "pressed b" "last_pressed b"]
    by (auto simp: buttons_debounce_def Let_def split: if_splits)
  have w: "wake = (?p \<noteq> pressed b \<and> unat (report_count b) < 8)"
    using assms(2) debounce_stable [of st "pressed b" "last_pressed b"] debounce_changes [of st "pressed b" "last_pressed b"]
    by (auto simp: buttons_debounce_def Let_def split: if_splits)
  have q: "reports_q b' = reports_q b @ (if wake then [pressed b'] else []) \<and> buttons_ok b'"
    using assms reports_push [of "reports b" "report_count b"] unat_Suc_u8 [of "report_count b"]
    by (auto simp: buttons_debounce_def Let_def reports_q_def buttons_ok_def split: if_splits)
  have "last_pressed b' = st" using assms(2) by (auto simp: buttons_debounce_def Let_def split: if_splits)
  with p w q debounce_bits [of _ "pressed b" st "last_pressed b"] assms(1) show ?thesis by simp
qed

lemma upd_bt_frame [simp]:
  "button_objs (upd_bt d f s) = (button_objs s)(d := f (button_objs s d))"
  "button_objs (set_wake t w s) = button_objs s" "button_objs (sched_wake_task k s) = button_objs s"
  "button_objs (irq_enable s) = button_objs s" "button_objs (irq_disable s) = button_objs s"
  by (simp_all add: upd_bt_def set_wake_def sched_wake_task_def sched_wake_tasks_def irq_enable_def irq_disable_def)

lemma read_pins_frame: "snd (read_pins ps m st s) = s\<lparr>hw_reads := hw_reads s + length ps\<rparr>"
  by (induction ps arbitrary: m st s) (auto simp: gpio_in_read_def Let_def)

lemma read_pins_bits:
  assumes "k + length ps \<le> 8" "i < 8"
  shows "bit (fst (read_pins ps (push_bit k 1) st s)) i =
     (bit st i \<or> k \<le> i \<and> i < k + length ps \<and> hw_pin s (hw_reads s + (i - k)) (ps ! (i - k)))"
  using assms(1)
proof (induction ps arbitrary: k st s)
  case Nil
  then show ?case by auto
next
  case (Cons p ps)
  have m: "push_bit 1 (push_bit k 1) = (push_bit (Suc k) 1 :: u8)" by simp
  have b: "bit (push_bit k 1 :: u8) i = (i = k)" using assms(2) by (auto simp: bit_simps)
  let ?v = "hw_pin s (hw_reads s) p"
  have "bit (if ?v then st OR push_bit k 1 else st) i = (bit st i \<or> i = k \<and> ?v)"
    using b by (simp add: bit_or_iff)
  with Cons.IH [of "Suc k" "if ?v then st OR push_bit k 1 else st" "s\<lparr>hw_reads := Suc (hw_reads s)\<rparr>"] Cons.prems
  have r: "bit (fst (read_pins (p # ps) (push_bit k 1) st s)) i =
     (bit st i \<or> i = k \<and> ?v \<or> Suc k \<le> i \<and> i < Suc k + length ps \<and> hw_pin s (Suc (hw_reads s) + (i - Suc k)) (ps ! (i - Suc k)))"
    unfolding read_pins.simps gpio_in_read_def Let_def by (simp add: m del: push_bit_of_1 push_bit_Suc)
  show ?case
  proof (cases "Suc k \<le> i")
    case True
    then obtain j where "i = Suc (k + j)" by (metis add_Suc le_iff_add)
    with r show ?thesis by simp
  next
    case False
    with r show ?thesis by auto
  qed
qed

lemma buttons_retransmit_frame:
  "buttons_retransmit b = (b', w) \<Longrightarrow> reports b' = reports b \<and> report_count b' = report_count b \<and>
     pressed b' = pressed b \<and> last_pressed b' = last_pressed b"
  by (auto simp: buttons_retransmit_def split: if_splits)

text \<open>The value of the pins sampled in a state, with button \<open>i\<close> in bit \<open>i\<close>.\<close>

definition sampled :: "'z buttonsm_scheme \<Rightarrow> nat \<Rightarrow> nat \<Rightarrow> bool" where
  "sampled s d i \<longleftrightarrow> i < length (bt_pins (button_objs s d)) \<and> hw_pin s (hw_reads s + i) (bt_pins (button_objs s d) ! i)"

lemma buttons_event_queue:
  assumes "buttons_ok (button_objs s d)"
    and "length (bt_pins (button_objs s d)) = unat (button_count (button_objs s d))" "button_count (button_objs s d) \<le> 8"
  shows "\<exists>s' b'. buttons_event d s = Ok SF_RESCHEDULE s' \<and> b' = button_objs s' d \<and> buttons_ok b' \<and>
     (\<forall>i<8. bit (last_pressed b') i = sampled s d i) \<and>
     (\<forall>i<8. bit (pressed b') i =
        (if sampled s d i = bit (last_pressed (button_objs s d)) i then sampled s d i else bit (pressed (button_objs s d)) i)) \<and>
     reports_q b' = reports_q (button_objs s d) @
       (if pressed b' \<noteq> pressed (button_objs s d) \<and> length (reports_q (button_objs s d)) < 8 then [pressed b'] else [])"
proof -
  let ?b = "button_objs s d"
  have n: "unat (button_count ?b) \<le> 8" using assms(3) by (simp add: word_le_nat_alt)
  obtain st s1 where rp: "read_pins (bt_pins ?b) 1 0 s = (st, s1)" by fastforce
  have s1: "s1 = s\<lparr>hw_reads := hw_reads s + length (bt_pins ?b)\<rparr>" using read_pins_frame [of "bt_pins ?b" 1 0 s] rp by simp
  have st: "bit st i = sampled s d i" if "i < 8" for i
    using read_pins_bits [of 0 "bt_pins ?b" i 0 s] that n assms(2) rp by (auto simp: sampled_def)
  obtain b1 w1 where d: "buttons_debounce st ?b = (b1, w1)" by fastforce
  obtain b2 w2 where r: "buttons_retransmit b1 = (b2, w2)" by fastforce
  note ds = buttons_debounce_spec [OF assms(1) d]
  obtain s' where s': "buttons_event d s = Ok SF_RESCHEDULE s'" "button_objs s' d = b2"
    using rp assms(2) d r by (cases w1; cases w2) (simp_all add: buttons_event_def Let_def s1)
  from buttons_retransmit_frame [OF r] have b2: "buttons_ok b2 = buttons_ok b1" "reports_q b2 = reports_q b1"
    "pressed b2 = pressed b1" "last_pressed b2 = last_pressed b1" by (simp_all add: buttons_ok_def reports_q_def)
  show ?thesis using ds st by (intro exI [of _ s'] exI [of _ b2]) (simp add: s' b2)
qed

text \<open>
  C17: The reports of the buttons are a bounded queue. A timer event samples every pin once, takes
  over the value of exactly the buttons that read the same twice in a row, and appends the new
  state to the reports when it changed and fewer than eight reports are waiting; an
  acknowledgement of \<open>n\<close> reports removes the \<open>n\<close> oldest ones and nothing else. No access leaves
  \<^verbatim>\<open>reports[8]\<close>, and the invariant of the object is kept. Hypotheses: the object satisfies the
  invariant that \<^verbatim>\<open>config_buttons\<close> sets up, and the id of the command is its.
\<close>

theorem buttons_reports_refine:
  assumes "buttons_ok (button_objs s d)"
    and "length (bt_pins (button_objs s d)) = unat (button_count (button_objs s d))" "button_count (button_objs s d) \<le> 8"
    and "oid_lookup (args ! 0) Buttons_oid s = Ok d s"
  shows "(\<exists>s' b'. buttons_event d s = Ok SF_RESCHEDULE s' \<and> b' = button_objs s' d \<and> buttons_ok b' \<and>
       (\<forall>i<8. bit (last_pressed b') i = sampled s d i) \<and>
       (\<forall>i<8. bit (pressed b') i =
          (if sampled s d i = bit (last_pressed (button_objs s d)) i then sampled s d i else bit (pressed (button_objs s d)) i)) \<and>
       reports_q b' = reports_q (button_objs s d) @
         (if pressed b' \<noteq> pressed (button_objs s d) \<and> length (reports_q (button_objs s d)) < 8 then [pressed b'] else [])) \<and>
     (\<exists>s'. command_buttons_ack args s = Ok () s' \<and> buttons_ok (button_objs s' d) \<and>
       reports_q (button_objs s' d) = drop (unat (ucast (args ! 1) :: u8)) (reports_q (button_objs s d)))"
proof -
  from buttons_ack_update_spec [OF assms(1), of "ucast (args ! 1)"] obtain b' where
    "buttons_ack_update (ucast (args ! 1)) (button_objs s d) = Some b'" "buttons_ok b'"
    "reports_q b' = drop (unat (ucast (args ! 1) :: u8)) (reports_q (button_objs s d))" by blast
  with assms(4) have "\<exists>s'. command_buttons_ack args s = Ok () s' \<and> buttons_ok (button_objs s' d) \<and>
       reports_q (button_objs s' d) = drop (unat (ucast (args ! 1) :: u8)) (reports_q (button_objs s d))"
    by (simp add: command_buttons_ack_def Let_def)
  with buttons_event_queue [OF assms(1-3)] show ?thesis by blast
qed

text \<open>Two buttons with two reports waiting, used by the witness.\<close>

definition demo_buttons :: buttonsm where
  "demo_buttons = basecmd.extend (demo_basecmd\<lparr>oids := Some [\<lparr>oid_type_of = Some Buttons_oid, oid_data = Some 5\<rparr>]\<rparr>)
     \<lparr>sizeof_buttons = 40, sizeof_gpio_in = 8,
      button_objs = (\<lambda>d. \<lparr>rest_ticks = 100, pressed = 1, last_pressed = 1, report_count = 2,
        reports = [3, 1, 0, 0, 0, 0, 0, 0], ack_count = 0, retransmit_state = 0xff, retransmit_count = 5,
        button_count = 2, bt_pins = [20, 21]\<rparr>)\<rparr>"

theorem buttons_reports_refine_witness:
  "\<exists>s' s''. buttons_event 5 demo_buttons = Ok SF_RESCHEDULE s' \<and> buttons_ok (button_objs s' 5) \<and>
     command_buttons_ack [0, 1] demo_buttons = Ok () s'' \<and> reports_q (button_objs s'' 5) = [1]"
proof -
  have "oid_lookup ([0, 1] ! 0) Buttons_oid demo_buttons = Ok 5 demo_buttons"
    by (simp add: oid_lookup_def demo_buttons_def basecmd.defs demo_basecmd_simps)
  moreover have "button_objs demo_buttons 5 = \<lparr>rest_ticks = 100, pressed = 1, last_pressed = 1, report_count = 2,
        reports = [3, 1, 0, 0, 0, 0, 0, 0], ack_count = 0, retransmit_state = 0xff, retransmit_count = 5,
        button_count = 2, bt_pins = [20, 21]\<rparr>" by (simp add: demo_buttons_def basecmd.defs)
  ultimately show ?thesis
    using buttons_reports_refine [of demo_buttons 5 "[0, 1]"] by (auto simp: buttons_ok_def reports_q_def)
qed

end
