(* ===== verification/Pulse_Counter.thy ===== *)
theory Pulse_Counter
  imports Stepper
begin

text \<open>
  The edge counters of the firmware (\<^verbatim>\<open>src/src/pulse_counter.c\<close>): a timer polls an input pin and
  counts its changes, and a task reports the count.
\<close>

record counter =
  poll_ticks :: u32
  sample_ticks :: u32
  next_sample_time :: u32
  ct_count :: u32
  last_count_time :: u32
  ct_flags :: u8
  ct_pin :: u32

record counterm = basecmd +
  sizeof_counter :: nat
  counters :: "nat \<Rightarrow> counter"

abbreviation (input) CF_PENDING :: u8 where "CF_PENDING \<equiv> 1"
abbreviation (input) ct_timer :: "nat \<Rightarrow> tmr" where "ct_timer d \<equiv> Obj_timer d 0"

definition upd_ct :: "nat \<Rightarrow> (counter \<Rightarrow> counter) \<Rightarrow> 'z counterm_scheme \<Rightarrow> 'z counterm_scheme" where
  "upd_ct d f s = s\<lparr>counters := (counters s)(d := f (counters s d))\<rparr>"

text \<open>Counting a change of the pin; \<^verbatim>\<open>gpio_in_read\<close> returns 0 or 1.\<close>

definition counter_edge :: "u32 \<Rightarrow> bool \<Rightarrow> counter \<Rightarrow> counter" where
  "counter_edge time value c =
     (if ct_count c AND 1 \<noteq> (if value then 1 else 0)
      then c\<lparr>ct_count := ct_count c + 1, last_count_time := time\<rparr> else c)"

definition counter_event :: "nat \<Rightarrow> 'z counterm_scheme \<Rightarrow> (sched_ret, 'z counterm_scheme) outcome" where
  "counter_event d s =
     (let time = t_wake s (ct_timer d);
          (value, s) = gpio_in_read (ct_pin (counters s d)) s;
          s = upd_ct d (counter_edge time value) s;
          s = (if timer_is_before (next_sample_time (counters s d)) time
               then sched_wake_task Counter_wake
                 (upd_ct d (\<lambda>c. c\<lparr>ct_flags := ct_flags c OR CF_PENDING, next_sample_time := time + sample_ticks c\<rparr>) s)
               else s);
          s = set_wake (ct_timer d) (t_wake s (ct_timer d) + poll_ticks (counters s d)) s
      in Ok SF_RESCHEDULE s)"

definition command_config_counter :: "u32 list \<Rightarrow> 'z counterm_scheme \<Rightarrow> (unit, 'z counterm_scheme) outcome" where
  "command_config_counter args s =
     andthen (oid_alloc (args ! 0) Counter_oid (sizeof_counter s) s)
       (\<lambda>d s.
         let s = zero_timer (ct_timer d) s;
             s = emit (Gpio_in_setup (args ! 1) (args ! 2)) s;
             s = upd_ct d (\<lambda>_. \<lparr>poll_ticks = 0, sample_ticks = 0, next_sample_time = 0, ct_count = 0,
                   last_count_time = 0, ct_flags = 0, ct_pin = args ! 1\<rparr>) s
         in Ok () (set_func (ct_timer d) (Some Counter_event) s))"

definition command_query_counter :: "u32 list \<Rightarrow> 'z counterm_scheme \<Rightarrow> (unit, 'z counterm_scheme) outcome" where
  "command_query_counter args s =
     andthen (oid_lookup (args ! 0) Counter_oid s)
       (\<lambda>d s. andthen (sched_del_timer (ct_timer d) s)
         (\<lambda>_ s.
           let s = set_wake (ct_timer d) (args ! 1) s;
               s = upd_ct d (\<lambda>c. c\<lparr>poll_ticks := args ! 2, sample_ticks := args ! 3, next_sample_time := args ! 1\<rparr>) s
           in sched_add_timer (ct_timer d) s))"

fun counter_task_list :: "(u8 \<times> nat) list \<Rightarrow> 'z counterm_scheme \<Rightarrow> 'z counterm_scheme" where
  "counter_task_list [] s = s"
| "counter_task_list ((oid, d) # ds) s =
     (if \<not> has (ct_flags (counters s d)) CF_PENDING then counter_task_list ds s
      else let s = irq_disable s;
               waketime = t_wake s (ct_timer d);
               count = ct_count (counters s d);
               count_time = last_count_time (counters s d);
               s = upd_ct d (\<lambda>c. c\<lparr>ct_flags := ct_flags c AND NOT CF_PENDING\<rparr>) s;
               s = irq_enable s
           in counter_task_list ds
                (emit (Sendf ''counter_state oid=%c next_clock=%u count=%u count_clock=%u''
                   [ucast oid, waketime, count, count_time] []) s))"

definition counter_task :: "'z counterm_scheme \<Rightarrow> 'z counterm_scheme" where
  "counter_task s =
     (let (woken, s) = sched_check_wake Counter_wake s
      in if \<not> woken then s else counter_task_list (foreach_oid Counter_oid s) s)"

section \<open>Counting edges\<close>

text \<open>The number of changes in a sequence of pin values, starting from a given one.\<close>

fun edges :: "bool \<Rightarrow> bool list \<Rightarrow> nat" where
  "edges v [] = 0"
| "edges v (w # ws) = (if v \<noteq> w then 1 else 0) + edges w ws"

text \<open>\<open>n\<close> timer events in a row.\<close>

fun counter_events :: "nat \<Rightarrow> nat \<Rightarrow> 'z counterm_scheme \<Rightarrow> 'z counterm_scheme option" where
  "counter_events d 0 s = Some s"
| "counter_events d (Suc n) s =
     (case counter_event d s of Ok SF_RESCHEDULE s \<Rightarrow> counter_events d n s | _ \<Rightarrow> None)"

lemma upd_ct_frame [simp]:
  "counters (upd_ct d f s) = (counters s)(d := f (counters s d))" "t_wake (upd_ct d f s) = t_wake s"
  "hw_pin (upd_ct d f s) = hw_pin s" "hw_reads (upd_ct d f s) = hw_reads s"
  "counters (set_wake t w s) = counters s" "counters (sched_wake_task k s) = counters s"
  by (simp_all add: upd_ct_def set_wake_def sched_wake_task_def sched_wake_tasks_def)

lemma odd_and_one: "(c AND 1 = (if v then 1 else 0)) \<longleftrightarrow> odd c = v" for c :: u32
  by (simp add: and_one_eq odd_iff_mod_2_eq_one even_iff_mod_2_eq_zero)

lemma counter_edge_parity:
  "odd (ct_count (counter_edge time value c)) = value"
  "ct_count (counter_edge time value c) = ct_count c + (if odd (ct_count c) \<noteq> value then 1 else 0)"
  "ct_pin (counter_edge time value c) = ct_pin c" "poll_ticks (counter_edge time value c) = poll_ticks c"
  by (auto simp: counter_edge_def odd_and_one)

lemma counter_event_spec:
  "\<exists>s'. counter_event d s = Ok SF_RESCHEDULE s' \<and> hw_reads s' = Suc (hw_reads s) \<and> hw_pin s' = hw_pin s \<and>
     ct_pin (counters s' d) = ct_pin (counters s d) \<and> poll_ticks (counters s' d) = poll_ticks (counters s d) \<and>
     t_wake s' (ct_timer d) = t_wake s (ct_timer d) + poll_ticks (counters s d) \<and>
     ct_count (counters s' d) = ct_count (counter_edge (t_wake s (ct_timer d)) (hw_pin s (hw_reads s) (ct_pin (counters s d))) (counters s d))"
  by (simp add: counter_event_def gpio_in_read_def Let_def counter_edge_parity)
    (simp add: set_wake_def sched_wake_task_def sched_wake_tasks_def counter_edge_parity)

lemma counter_events_spec:
  "\<exists>s'. counter_events d n s = Some s' \<and>
     ct_count (counters s' d) = ct_count (counters s d) +
       of_nat (edges (odd (ct_count (counters s d))) (map (\<lambda>i. hw_pin s (hw_reads s + i) (ct_pin (counters s d))) [0..<n])) \<and>
     (0 < n \<longrightarrow> odd (ct_count (counters s' d)) = hw_pin s (hw_reads s + n - 1) (ct_pin (counters s d))) \<and>
     t_wake s' (ct_timer d) = t_wake s (ct_timer d) + of_nat n * poll_ticks (counters s d)"
proof (induction n arbitrary: s)
  case 0
  then show ?case by simp
next
  case (Suc n)
  let ?v = "hw_pin s (hw_reads s) (ct_pin (counters s d))"
  from counter_event_spec [of d s] obtain s1 where s1: "counter_event d s = Ok SF_RESCHEDULE s1"
    "hw_reads s1 = Suc (hw_reads s)" "hw_pin s1 = hw_pin s" "ct_pin (counters s1 d) = ct_pin (counters s d)"
    "poll_ticks (counters s1 d) = poll_ticks (counters s d)"
    "t_wake s1 (ct_timer d) = t_wake s (ct_timer d) + poll_ticks (counters s d)"
    "ct_count (counters s1 d) = ct_count (counter_edge (t_wake s (ct_timer d)) ?v (counters s d))" by blast
  from Suc.IH [of s1] obtain s2 where s2: "counter_events d n s1 = Some s2"
    "ct_count (counters s2 d) = ct_count (counters s1 d) +
       of_nat (edges ?v (map (\<lambda>i. hw_pin s (hw_reads s + Suc i) (ct_pin (counters s d))) [0..<n]))"
    "0 < n \<longrightarrow> odd (ct_count (counters s2 d)) = hw_pin s (hw_reads s + n) (ct_pin (counters s d))"
    "t_wake s2 (ct_timer d) = t_wake s1 (ct_timer d) + of_nat n * poll_ticks (counters s d)"
    unfolding s1(2-5) s1(7) counter_edge_parity(1) by auto
  have u: "[0..<Suc n] = 0 # map Suc [0..<n]" by (simp add: upt_conv_Cons map_Suc_upt del: upt_Suc)
  have "odd (ct_count (counters s2 d)) = hw_pin s (hw_reads s + n) (ct_pin (counters s d))"
    using s2 s1(7) counter_edge_parity(1) by (cases n) simp_all
  then show ?case unfolding u using s1 s2 counter_edge_parity(2) by (simp add: comp_def algebra_simps)
qed

text \<open>
  C26: After any number of polls the count has grown by exactly the number of changes in the
  sequence of values read from the pin (modulo \<open>2 ^ 32\<close>), its parity is the last value read, as the
  comment in \<^verbatim>\<open>counter_event\<close> states, and the polls stay on the grid of \<^verbatim>\<open>poll_ticks\<close>.
\<close>

theorem counter_counts_edges:
  "\<exists>s'. counter_events d (Suc n) s = Some s' \<and>
     ct_count (counters s' d) = ct_count (counters s d) +
       of_nat (edges (odd (ct_count (counters s d)))
         (map (\<lambda>i. hw_pin s (hw_reads s + i) (ct_pin (counters s d))) [0..<Suc n])) \<and>
     odd (ct_count (counters s' d)) = hw_pin s (hw_reads s + n) (ct_pin (counters s d)) \<and>
     t_wake s' (ct_timer d) = t_wake s (ct_timer d) + of_nat (Suc n) * poll_ticks (counters s d)"
  using counter_events_spec [of d "Suc n" s] by (simp del: counter_events.simps upt_Suc of_nat_Suc)

end
