(* ===== verification/Pwmcmds.thy ===== *)
theory Pwmcmds
  imports Stepper_Props
begin

text \<open>
  The hardware PWM outputs of the firmware (\<^verbatim>\<open>src/src/pwmcmds.c\<close>): scheduled updates and the maximum
  time an output may stay away from its default value.
\<close>

record pwm_out_s =
  pw_pin :: u32
  pw_max_duration :: u32
  default_value :: u16
  pw_mq :: move_queue_head

record pwm_move =
  pm_waketime :: u32
  pm_value :: u16

record pwmcmds = basecmd +
  sizeof_pwm_out :: nat
  sizeof_pwm_move :: nat
  pwm_outs :: "nat \<Rightarrow> pwm_out_s"
  pwm_moves :: "nat \<Rightarrow> pwm_move"

abbreviation (input) pwm_timer :: "nat \<Rightarrow> tmr" where "pwm_timer d \<equiv> Obj_timer d 0"

definition upd_pwm :: "nat \<Rightarrow> (pwm_out_s \<Rightarrow> pwm_out_s) \<Rightarrow> 'z pwmcmds_scheme \<Rightarrow> 'z pwmcmds_scheme" where
  "upd_pwm d f s = s\<lparr>pwm_outs := (pwm_outs s)(d := f (pwm_outs s d))\<rparr>"

definition pwm_end_event :: "'z pwmcmds_scheme \<Rightarrow> (sched_ret, 'z pwmcmds_scheme) outcome" where
  "pwm_end_event s = sched_shutdown ''Missed scheduling of next hard pwm event'' s"

text \<open>The part of \<^verbatim>\<open>pwm_event\<close> that chooses the next event.\<close>

definition pwm_schedule :: "nat \<Rightarrow> u16 \<Rightarrow> 'z pwmcmds_scheme \<Rightarrow> (sched_ret, 'z pwmcmds_scheme) outcome" where
  "pwm_schedule d val s =
     (let p = pwm_outs s d in
      if move_queue_empty (pw_mq p)
      then if val = default_value p \<or> pw_max_duration p = 0 then Ok SF_DONE s
           else let s = set_wake (pwm_timer d) (t_wake s (pwm_timer d) + pw_max_duration p) s
                in Ok SF_RESCHEDULE (set_func (pwm_timer d) (Some Pwm_end_event) s)
      else case move_queue_first (pw_mq p) of
             None \<Rightarrow> Fault
           | Some nn \<Rightarrow>
               let wake = pm_waketime (pwm_moves s nn) in
               if val \<noteq> default_value p \<and> pw_max_duration p \<noteq> 0 \<and>
                  timer_is_before (t_wake s (pwm_timer d) + pw_max_duration p) wake
               then sched_shutdown ''Scheduled pwm event will exceed max_duration'' s
               else Ok SF_RESCHEDULE (set_wake (pwm_timer d) wake s))"

definition pwm_event :: "nat \<Rightarrow> 'z pwmcmds_scheme \<Rightarrow> (sched_ret, 'z pwmcmds_scheme) outcome" where
  "pwm_event d s =
     (case move_queue_pop (pw_mq (pwm_outs s d)) s of
        None \<Rightarrow> Fault
      | Some (mn, mh) \<Rightarrow>
          let s = upd_pwm d (\<lambda>p. p\<lparr>pw_mq := mh\<rparr>) s;
              val = pm_value (pwm_moves s mn);
              s = emit (Gpio_pwm_write (pw_pin (pwm_outs s d)) val) s;
              s = move_free mn s
          in pwm_schedule d val s)"

section \<open>Commands\<close>

definition command_config_pwm_out :: "u32 list \<Rightarrow> 'z pwmcmds_scheme \<Rightarrow> (unit, 'z pwmcmds_scheme) outcome" where
  "command_config_pwm_out args s =
     (let s = emit (Gpio_pwm_setup (args ! 1) (args ! 2) (args ! 3)) s in
      andthen (oid_alloc (args ! 0) Pwm_out_oid (sizeof_pwm_out s) s)
        (\<lambda>d s.
          let s = zero_timer (pwm_timer d) s;
              s = upd_pwm d (\<lambda>_. \<lparr>pw_pin = args ! 1, pw_max_duration = args ! 5, default_value = ucast (args ! 4),
                    pw_mq = \<lparr>mq_first = None, mq_last = None\<rparr>\<rparr>) s;
              s = set_func (pwm_timer d) (Some Pwm_event) s
          in andthen (move_queue_setup (sizeof_pwm_move s) s)
               (\<lambda>mh s. Ok () (upd_pwm d (\<lambda>p. p\<lparr>pw_mq := mh\<rparr>) s))))"

text \<open>What \<^verbatim>\<open>queue_pwm_out\<close> does when the queue was empty.\<close>

definition queue_pwm_start :: "nat \<Rightarrow> u32 \<Rightarrow> 'z pwmcmds_scheme \<Rightarrow> (unit, 'z pwmcmds_scheme) outcome" where
  "queue_pwm_start d time s =
     andthen (sched_del_timer (pwm_timer d) s)
       (\<lambda>_ s.
         if t_func s (pwm_timer d) = Some Pwm_end_event \<and> timer_is_before (t_wake s (pwm_timer d)) time
         then sched_shutdown ''Scheduled pwm event will exceed max_duration'' s
         else let s = set_func (pwm_timer d) (Some Pwm_event) s;
                  s = set_wake (pwm_timer d) time s
              in sched_add_timer (pwm_timer d) s)"

definition command_queue_pwm_out :: "u32 list \<Rightarrow> 'z pwmcmds_scheme \<Rightarrow> (unit, 'z pwmcmds_scheme) outcome" where
  "command_queue_pwm_out args s =
     andthen (oid_lookup (args ! 0) Pwm_out_oid s)
       (\<lambda>d s. andthen (move_alloc s)
         (\<lambda>m s.
           let s = s\<lparr>pwm_moves := (pwm_moves s)(m := \<lparr>pm_waketime = args ! 1, pm_value = ucast (args ! 2)\<rparr>)\<rparr>;
               s = irq_disable s
           in case move_queue_push m (pw_mq (pwm_outs s d)) s of
                None \<Rightarrow> Fault
              | Some (need_add_timer, mh, s) \<Rightarrow>
                  let s = irq_enable (upd_pwm d (\<lambda>p. p\<lparr>pw_mq := mh\<rparr>) s) in
                  if \<not> need_add_timer then Ok () s
                  else queue_pwm_start d (pm_waketime (pwm_moves s m)) s))"

fun pwm_shutdown_list :: "(u8 \<times> nat) list \<Rightarrow> 'z pwmcmds_scheme \<Rightarrow> 'z pwmcmds_scheme" where
  "pwm_shutdown_list [] s = s"
| "pwm_shutdown_list ((i, d) # ds) s =
     (let s = emit (Gpio_pwm_write (pw_pin (pwm_outs s d)) (default_value (pwm_outs s d))) s;
          s = set_func (pwm_timer d) (Some Pwm_event) s;
          s = upd_pwm d (\<lambda>p. p\<lparr>pw_mq := move_queue_clear (pw_mq p)\<rparr>) s
      in pwm_shutdown_list ds s)"

definition pwm_shutdown :: "'z pwmcmds_scheme \<Rightarrow> 'z pwmcmds_scheme" where
  "pwm_shutdown s = pwm_shutdown_list (foreach_oid Pwm_out_oid s) s"

definition command_set_pwm_out :: "u32 list \<Rightarrow> 'z board_scheme \<Rightarrow> (unit, 'z board_scheme) outcome" where
  "command_set_pwm_out args s = Ok () (emit (Gpio_pwm_setup (args ! 0) (args ! 1) (args ! 2)) s)"

section \<open>The maximum duration\<close>

lemma upd_pwm_frame [simp]:
  "pwm_outs (upd_pwm d f s) = (pwm_outs s)(d := f (pwm_outs s d))" "t_func (upd_pwm d f s) = t_func s"
  "t_wake (upd_pwm d f s) = t_wake s" "pwm_moves (upd_pwm d f s) = pwm_moves s"
  "pwm_outs (emit e s) = pwm_outs s" "pwm_outs (set_wake t w s) = pwm_outs s"
  "pwm_outs (set_func t g s) = pwm_outs s" "pwm_outs (move_free m s) = pwm_outs s"
  "pwm_moves (emit e s) = pwm_moves s" "pwm_moves (move_free m s) = pwm_moves s"
  "out_log (upd_pwm d f s) = out_log s" "out_log (set_func t g s) = out_log s"
  by (simp_all add: upd_pwm_def emit_def set_wake_def set_func_def move_free_def)

lemma pwm_schedule_deadline:
  assumes "pwm_schedule d val s = Ok r s'" "val \<noteq> default_value (pwm_outs s d)" "pw_max_duration (pwm_outs s d) \<noteq> 0"
  shows "r = SF_RESCHEDULE \<and> pwm_outs s' = pwm_outs s \<and>
     \<not> timer_is_before (t_wake s (pwm_timer d) + pw_max_duration (pwm_outs s d)) (t_wake s' (pwm_timer d)) \<and>
     t_func s' (pwm_timer d) =
       (if move_queue_empty (pw_mq (pwm_outs s d)) then Some Pwm_end_event else t_func s (pwm_timer d))"
  using assms
  by (auto simp: pwm_schedule_def Let_def sched_shutdown_def set_wake_def set_func_def timer_is_before_def
      split: if_splits option.splits)

end
