(* ===== verification/Stepcompress.thy ===== *)
theory Stepcompress
  imports Msgblock "HOL-Library.Monad_Syntax"
begin

text \<open>
  The step compression of the host (\<^verbatim>\<open>src/klippy/chelper/stepcompress.c\<close>): step times are
  gathered in a queue and turned into few \<^verbatim>\<open>queue_step\<close> commands, each an arithmetic progression
  of intervals. The array of \<^verbatim>\<open>queue\<close> is a list, the pointers into it are indexes. An overflow of
  a signed C integer is undefined and has no result (\<open>None\<close> or \<open>Fault\<close>); doubles are real numbers.
  The messages of a \<^verbatim>\<open>struct list_head\<close> form a list from head to tail.
\<close>

record step_move =
  mv_interval :: u32
  mv_count :: u16
  mv_add :: u16             \<comment> \<open>\<^verbatim>\<open>int16_t\<close>\<close>

record history_steps =
  hs_first_clock :: u64
  hs_last_clock :: u64
  hs_start_position :: int
  hs_step_count :: int
  hs_interval :: int
  hs_add :: int

record stepcompress =
  sc_queue :: "u32 list"    \<comment> \<open>from \<^verbatim>\<open>queue\<close> to \<^verbatim>\<open>queue_end\<close>\<close>
  queue_pos :: nat
  queue_next :: nat
  max_error :: u32
  mcu_time_offset :: real
  mcu_freq :: real
  last_step_print_time :: real
  last_step_clock :: u64
  msg_queue :: "queue_message list"
  sc_oid :: u32
  queue_step_msgtag :: u32
  set_next_step_dir_msgtag :: u32
  sdir :: int
  invert_sdir :: int
  next_step_clock :: u64
  next_step_dir :: int
  last_position :: int
  history_list :: "history_steps list"

abbreviation (input) ERROR_RET :: int where "ERROR_RET \<equiv> - 989898989"
abbreviation (input) UINT64_MAX :: u64 where "UINT64_MAX \<equiv> 0xffffffffffffffff"
abbreviation (input) CLOCK_DIFF_MAX :: u64 where "CLOCK_DIFF_MAX \<equiv> 0x30000000"
abbreviation (input) QUEUE_START_SIZE :: nat where "QUEUE_START_SIZE \<equiv> 1024"
abbreviation (input) QUADRATIC_DEV :: u32 where "QUADRATIC_DEV \<equiv> 11"

section \<open>Signed arithmetic\<close>

definition i32 :: "int \<Rightarrow> int option" where
  "i32 x = (if - (2 ^ 31) \<le> x \<and> x < 2 ^ 31 then Some x else None)"

text \<open>Division in C rounds towards zero.\<close>

definition cdiv :: "int \<Rightarrow> int \<Rightarrow> int" where
  "cdiv n d = sgn n * sgn d * (\<bar>n\<bar> div \<bar>d\<bar>)"

definition idiv_up :: "int \<Rightarrow> int \<Rightarrow> int option" where
  "idiv_up n d =
     (if n \<ge> 0 then do { a \<leftarrow> i32 (n + d); a \<leftarrow> i32 (a - 1); Some (cdiv a d) } else Some (cdiv n d))"

definition idiv_down :: "int \<Rightarrow> int \<Rightarrow> int option" where
  "idiv_down n d =
     (if n \<ge> 0 then Some (cdiv n d) else do { a \<leftarrow> i32 (n - d); a \<leftarrow> i32 (a + 1); Some (cdiv a d) })"

section \<open>Finding a move\<close>

text \<open>The acceptable range of a step time, relative to the last step, as the bits of \<^verbatim>\<open>struct points\<close>.\<close>

definition minmax_point :: "stepcompress \<Rightarrow> nat \<Rightarrow> u32 \<times> u32" where
  "minmax_point sc pos =
     (let lsc = ucast (last_step_clock sc) :: u32;
          point = sc_queue sc ! pos - lsc;
          prevpoint = (if pos > queue_pos sc then sc_queue sc ! (pos - 1) - lsc else 0);
          err = (point - prevpoint) div 2;
          err = (if err > max_error sc then max_error sc else err)
      in (point - err, point))"

text \<open>\<^verbatim>\<open>n*(n-1)/2\<close>\<close>

definition addfactor_of :: "int \<Rightarrow> int option" where
  "addfactor_of n = do { f \<leftarrow> i32 (n * (n - 1)); Some (cdiv f 2) }"

text \<open>The narrowing of the interval range by one more point of the inner loop.\<close>

definition narrow_interval :: "int \<Rightarrow> int \<Rightarrow> int \<times> int \<Rightarrow> int \<Rightarrow> int \<Rightarrow> (int \<times> int) option" where
  "narrow_interval add nextcount p nmin nmax =
     (let (minp, maxp) = p in
      do {
        f \<leftarrow> addfactor_of nextcount;
        c \<leftarrow> i32 (add * f);
        a \<leftarrow> i32 (nmin * nextcount);
        b \<leftarrow> i32 (minp - c);
        nmin \<leftarrow> (if a < b then idiv_up b nextcount else Some nmin);
        a \<leftarrow> i32 (nmax * nextcount);
        b \<leftarrow> i32 (maxp - c);
        nmax \<leftarrow> (if a > b then idiv_down b nextcount else Some nmax);
        Some (nmin, nmax)
      })"

text \<open>
  The inner loop over \<open>n\<close> available steps: either the sequence covers all of them, or it ends
  before step \<^verbatim>\<open>nextcount\<close>.
\<close>

datatype inner_result =
    Covers int int
  | Broke (nr_count: int) (nr_min: int) (nr_max: int) (nr_interval: int) (nr_point: "int \<times> int")

function inner_loop :: "stepcompress \<Rightarrow> nat \<Rightarrow> int \<Rightarrow> nat \<Rightarrow> int \<Rightarrow> int \<Rightarrow> int \<Rightarrow> inner_result option" where
  "inner_loop sc n add count nmin nmax interval =
     (if count \<ge> n then Some (Covers interval (int count))
      else let (pmin, pmax) = minmax_point sc (queue_pos sc + count);
               p = (sint pmin, sint pmax)
           in case narrow_interval add (int count + 1) p nmin nmax of
                None \<Rightarrow> None
              | Some (nmin, nmax) \<Rightarrow>
                  if nmin > nmax then Some (Broke (int count + 1) nmin nmax interval p)
                  else inner_loop sc n add (Suc count) nmin nmax nmax)"
  by pat_completeness auto
termination by (relation "measure (\<lambda>(sc, n, add, count, nmin, nmax, interval). n - count)") auto

declare inner_loop.simps [simp del]

text \<open>The best sequence found so far (interval, count, add, reach), and the best one with \<^verbatim>\<open>add\<close> 0.\<close>

type_synonym best = "int \<times> int \<times> int \<times> int"

text \<open>Recording a sequence; the last component says that no other \<^verbatim>\<open>add\<close> is tried.\<close>

definition note_best :: "int \<Rightarrow> int \<Rightarrow> int \<Rightarrow> best \<Rightarrow> int \<times> int \<Rightarrow> (best \<times> (int \<times> int) \<times> bool) option" where
  "note_best add count interval best zero =
     (let (bestinterval, bestcount, bestadd, bestreach) = best in
      do {
        f \<leftarrow> addfactor_of count;
        a \<leftarrow> i32 (add * f);
        b \<leftarrow> i32 (interval * count);
        reach \<leftarrow> i32 (a + b);
        Some (if reach > bestreach \<or> reach = bestreach \<and> interval > bestinterval
              then ((interval, count, add, reach), if add = 0 then (interval, count) else zero, count > 0x200)
              else (best, zero, False))
      })"

text \<open>The limits on \<^verbatim>\<open>add\<close> and on the interval for the next attempt.\<close>

definition limit_add :: "int \<Rightarrow> int \<Rightarrow> u32 \<Rightarrow> int \<times> int \<Rightarrow> (int \<times> int) option" where
  "limit_add add count max_err rng =
     (let (minadd, maxadd) = rng in
      if count > 1
      then do {
        cc \<leftarrow> i32 (count * count);
        let errdelta = sint ((max_err * QUADRATIC_DEV) div of_int cc);
        lo \<leftarrow> i32 (add - errdelta);
        hi \<leftarrow> i32 (add + errdelta);
        Some (if minadd < lo then lo else minadd, if maxadd > hi then hi else maxadd)
      }
      else Some rng)"

text \<open>Cutting the range of \<^verbatim>\<open>add\<close> at the value tried, and the interval range with it.\<close>

definition cut_range ::
  "int \<Rightarrow> bool \<Rightarrow> int \<times> int \<Rightarrow> int \<times> int \<Rightarrow> int \<times> int \<Rightarrow> ((int \<times> int) \<times> int \<times> int) option"
where
  "cut_range add too_short next_range rng outer =
     (if too_short then do { m \<leftarrow> i32 (add + 1); Some ((m, snd rng), (fst outer, snd next_range)) }
      else do { m \<leftarrow> i32 (add - 1); Some ((fst rng, m), (fst next_range, snd outer)) })"

text \<open>Limiting the range of \<^verbatim>\<open>add\<close> by the next point.\<close>

definition tighten_add :: "int \<Rightarrow> int \<Rightarrow> int \<times> int \<Rightarrow> int \<times> int \<Rightarrow> int \<times> int \<Rightarrow> (int \<times> int) option" where
  "tighten_add f nc p outer rng =
     do {
       c \<leftarrow> i32 (snd outer * nc);
       x \<leftarrow> i32 (fst rng * f);
       y \<leftarrow> i32 (fst p - c);
       minadd \<leftarrow> (if x < y then idiv_up y f else Some (fst rng));
       c \<leftarrow> i32 (fst outer * nc);
       x \<leftarrow> i32 (snd rng * f);
       y \<leftarrow> i32 (snd p - c);
       maxadd \<leftarrow> (if x > y then idiv_down y f else Some (snd rng));
       Some (minadd, maxadd)
     }"

definition next_limits ::
  "stepcompress \<Rightarrow> int \<Rightarrow> int \<times> int \<Rightarrow> int \<times> int \<Rightarrow> inner_result \<Rightarrow> ((int \<times> int) \<times> int \<times> int) option"
where
  "next_limits sc add rng outer b =
     do {
       f \<leftarrow> addfactor_of (nr_count b);
       x \<leftarrow> i32 (add * f);
       y \<leftarrow> i32 (nr_interval b * nr_count b);
       nextreach \<leftarrow> i32 (x + y);
       (rng, outer) \<leftarrow> cut_range add (nextreach < fst (nr_point b)) (nr_min b, nr_max b) rng outer;
       rng \<leftarrow> limit_add add (nr_count b - 1) (max_error sc) rng;
       rng \<leftarrow> tighten_add f (nr_count b) (nr_point b) outer rng;
       Some (rng, outer)
     }"

definition choose_best :: "best \<Rightarrow> int \<times> int \<Rightarrow> int \<times> int \<times> int" where
  "choose_best best zero =
     (let (bestinterval, bestcount, bestadd, bestreach) = best; (zerointerval, zerocount) = zero in
      if zerocount + cdiv zerocount 16 \<ge> bestcount then (zerointerval, zerocount, 0)
      else (bestinterval, bestcount, bestadd))"

text \<open>
  The outer loop. The result is \<open>None\<close> for a loop that never ends, and \<open>Some None\<close> for an
  overflow.
\<close>

partial_function (option) bisect_loop ::
  "stepcompress \<Rightarrow> nat \<Rightarrow> int \<Rightarrow> int \<times> int \<Rightarrow> int \<times> int \<Rightarrow> best \<Rightarrow> int \<times> int \<Rightarrow> (int \<times> int \<times> int) option option"
where
  "bisect_loop sc n add rng outer best zero =
     (case inner_loop sc n add 1 (fst outer) (snd outer) (snd outer) of
        None \<Rightarrow> Some None
      | Some (Covers interval count) \<Rightarrow> Some (Some (interval, count, add))
      | Some (Broke nc nmin nmax interval p) \<Rightarrow>
          (case note_best add (nc - 1) interval best zero of
             None \<Rightarrow> Some None
           | Some (best, zero, stop) \<Rightarrow>
               if stop then Some (Some (choose_best best zero))
               else (case next_limits sc add rng outer (Broke nc nmin nmax interval p) of
                       None \<Rightarrow> Some None
                     | Some (rng, outer) \<Rightarrow>
                         if fst rng > snd rng then Some (Some (choose_best best zero))
                         else (case i32 (snd rng - fst rng) of
                                 None \<Rightarrow> Some None
                               | Some w \<Rightarrow> bisect_loop sc n (snd rng - cdiv w 4) rng outer best zero))))"

text \<open>The number of steps a move may cover, \<^verbatim>\<open>qlast - queue_pos\<close>.\<close>

definition bisect_avail :: "stepcompress \<Rightarrow> nat" where
  "bisect_avail sc = min (queue_next sc - queue_pos sc) 65535"

definition compress_bisect_add :: "stepcompress \<Rightarrow> step_move option option" where
  "compress_bisect_add sc =
     (let (pmin, pmax) = minmax_point sc (queue_pos sc) in
      map_option (map_option (\<lambda>(interval, count, add).
          \<lparr>mv_interval = of_int interval, mv_count = of_int count, mv_add = of_int add\<rparr>))
        (bisect_loop sc (bisect_avail sc) 0 (- 0x8000, 0x7fff) (sint pmin, sint pmax)
           (0, 1, 1, - (2 ^ 31)) (0, 0)))"

section \<open>Checking a move\<close>

text \<open>
  The loop of \<^verbatim>\<open>check_line\<close> from point \<open>i\<close> for \<open>n\<close> more points: whether all are acceptable, \<open>None\<close>
  for a read outside the array.
\<close>

fun check_points :: "stepcompress \<Rightarrow> u16 \<Rightarrow> nat \<Rightarrow> nat \<Rightarrow> u32 \<Rightarrow> u32 \<Rightarrow> bool option" where
  "check_points sc add 0 i interval p = Some True"
| "check_points sc add (Suc n) i interval p =
     (if queue_pos sc + i \<ge> length (sc_queue sc) then None
      else let (minp, maxp) = minmax_point sc (queue_pos sc + i);
               p = p + interval
           in if p < minp \<or> p > maxp then Some False
              else if interval \<ge> 0x80000000 then Some False
              else check_points sc add n (Suc i) (interval + scast add) p)"

definition check_line :: "stepcompress \<Rightarrow> step_move \<Rightarrow> int option" where
  "check_line sc move =
     (if mv_count move = 0 \<or> mv_interval move = 0 \<and> mv_add move = 0 \<and> mv_count move > 1 \<or>
         mv_interval move \<ge> 0x80000000
      then Some ERROR_RET
      else map_option (\<lambda>ok. if ok then 0 else ERROR_RET)
             (check_points sc (mv_add move) (unat (mv_count move)) 0 (mv_interval move) 0))"

section \<open>The step compressor\<close>

definition stepcompress_alloc :: "queue_message list \<Rightarrow> stepcompress" where
  "stepcompress_alloc msgs =
     \<lparr>sc_queue = [], queue_pos = 0, queue_next = 0, max_error = 0, mcu_time_offset = 0, mcu_freq = 0,
      last_step_print_time = 0, last_step_clock = 0, msg_queue = msgs, sc_oid = 0, queue_step_msgtag = 0,
      set_next_step_dir_msgtag = 0, sdir = - 1, invert_sdir = 0, next_step_clock = 0, next_step_dir = 0,
      last_position = 0, history_list = []\<rparr>"

definition stepcompress_fill :: "u32 \<Rightarrow> u32 \<Rightarrow> u32 \<Rightarrow> u32 \<Rightarrow> stepcompress \<Rightarrow> stepcompress" where
  "stepcompress_fill oid err qs_tag dir_tag sc =
     sc\<lparr>sc_oid := oid, max_error := err, queue_step_msgtag := qs_tag, set_next_step_dir_msgtag := dir_tag\<rparr>"

definition stepcompress_set_invert_sdir :: "u32 \<Rightarrow> stepcompress \<Rightarrow> stepcompress" where
  "stepcompress_set_invert_sdir invert sc =
     (let invert = (if invert \<noteq> 0 then 1 else 0) in
      if invert \<noteq> invert_sdir sc
      then let sc = sc\<lparr>invert_sdir := invert\<rparr> in
        if sdir sc \<ge> 0 then sc\<lparr>sdir := sdir sc XOR 1\<rparr> else sc
      else sc)"

text \<open>The loop takes entries off the end of the history, the oldest ones.\<close>

definition stepcompress_history_expire :: "u64 \<Rightarrow> stepcompress \<Rightarrow> stepcompress" where
  "stepcompress_history_expire end_clock sc =
     sc\<lparr>history_list := rev (dropWhile (\<lambda>hs. hs_last_clock hs \<le> end_clock) (rev (history_list sc)))\<rparr>"

definition stepcompress_get_oid :: "stepcompress \<Rightarrow> u32" where
  "stepcompress_get_oid sc = sc_oid sc"

definition stepcompress_get_step_dir :: "stepcompress \<Rightarrow> int" where
  "stepcompress_get_step_dir sc = next_step_dir sc"

definition calc_last_step_print_time :: "stepcompress \<Rightarrow> stepcompress" where
  "calc_last_step_print_time sc =
     (let lsc = real (unat (last_step_clock sc))
      in sc\<lparr>last_step_print_time := mcu_time_offset sc + (lsc - 1 / 2) / mcu_freq sc\<rparr>)"

definition stepcompress_set_time :: "real \<Rightarrow> real \<Rightarrow> stepcompress \<Rightarrow> stepcompress" where
  "stepcompress_set_time time_offset freq sc =
     calc_last_step_print_time (sc\<lparr>mcu_time_offset := time_offset, mcu_freq := freq\<rparr>)"

section \<open>Generating commands\<close>

text \<open>
  The clock ticks from the first to the last step of a move: the product of \<^verbatim>\<open>add\<close> is signed, the
  rest is unsigned.
\<close>

definition move_ticks :: "step_move \<Rightarrow> u32 option" where
  "move_ticks move =
     do {
       f \<leftarrow> addfactor_of (int (unat (mv_count move)));
       a \<leftarrow> i32 (sint (mv_add move) * f);
       Some (of_int a + mv_interval move * (of_nat (unat (mv_count move)) - 1))
     }"

definition move_message :: "stepcompress \<Rightarrow> step_move \<Rightarrow> u32 list" where
  "move_message sc move =
     [queue_step_msgtag sc, sc_oid sc, mv_interval move, ucast (mv_count move), scast (mv_add move)]"

definition move_history :: "stepcompress \<Rightarrow> u64 \<Rightarrow> u64 \<Rightarrow> step_move \<Rightarrow> history_steps" where
  "move_history sc first_clock last_clock move =
     \<lparr>hs_first_clock = first_clock, hs_last_clock = last_clock, hs_start_position = last_position sc,
      hs_step_count = (if sdir sc \<noteq> 0 then int (unat (mv_count move)) else - int (unat (mv_count move))),
      hs_interval = sint (mv_interval move), hs_add = sint (mv_add move)\<rparr>"

definition add_move :: "u64 \<Rightarrow> step_move \<Rightarrow> stepcompress \<Rightarrow> stepcompress option" where
  "add_move first_clock move sc =
     do {
       ticks \<leftarrow> move_ticks move;
       let last_clock = first_clock + ucast ticks;
       qm \<leftarrow> message_alloc_and_encode (move_message sc move);
       let qm = qm\<lparr>min_clock := last_step_clock sc, req_clock :=
         (if mv_count move = 1 \<and> first_clock \<ge> last_step_clock sc + CLOCK_DIFF_MAX then first_clock
          else last_step_clock sc)\<rparr>;
       let hs = move_history sc first_clock last_clock move;
       Some (sc\<lparr>msg_queue := msg_queue sc @ [qm], last_step_clock := last_clock,
         last_position := last_position sc + hs_step_count hs, history_list := hs # history_list sc\<rparr>)
     }"

text \<open>The loop of \<^verbatim>\<open>queue_flush\<close>; \<open>None\<close> is a loop that never ends.\<close>

partial_function (option) flush_loop :: "u64 \<Rightarrow> stepcompress \<Rightarrow> (int, stepcompress) outcome option" where
  "flush_loop move_clock sc =
     (if \<not> last_step_clock sc < move_clock then Some (Ok 0 (calc_last_step_print_time sc))
      else case compress_bisect_add sc of
        None \<Rightarrow> None
      | Some None \<Rightarrow> Some Fault
      | Some (Some move) \<Rightarrow>
          (case check_line sc move of
             None \<Rightarrow> Some Fault
           | Some ret \<Rightarrow>
               if ret \<noteq> 0 then Some (Ok ret sc)
               else case add_move (last_step_clock sc + ucast (mv_interval move)) move sc of
                 None \<Rightarrow> Some Fault
               | Some sc \<Rightarrow>
                   if queue_pos sc + unat (mv_count move) \<ge> queue_next sc
                   then Some (Ok 0 (calc_last_step_print_time (sc\<lparr>queue_pos := 0, queue_next := 0\<rparr>)))
                   else flush_loop move_clock (sc\<lparr>queue_pos := queue_pos sc + unat (mv_count move)\<rparr>)))"

definition queue_flush :: "u64 \<Rightarrow> stepcompress \<Rightarrow> (int, stepcompress) outcome" where
  "queue_flush move_clock sc =
     (if queue_pos sc \<ge> queue_next sc then Ok 0 sc
      else case flush_loop move_clock sc of None \<Rightarrow> Fault | Some r \<Rightarrow> r)"

definition stepcompress_flush_far :: "u64 \<Rightarrow> stepcompress \<Rightarrow> (int, stepcompress) outcome" where
  "stepcompress_flush_far abs_step_clock sc =
     (let move = \<lparr>mv_interval = ucast (abs_step_clock - last_step_clock sc), mv_count = 1, mv_add = 0\<rparr> in
      case add_move abs_step_clock move sc of
        None \<Rightarrow> Fault
      | Some sc \<Rightarrow> Ok 0 (calc_last_step_print_time sc))"

text \<open>Continuing after a call that returned without error.\<close>

definition if_ok :: "(int, 's) outcome \<Rightarrow> ('s \<Rightarrow> (int, 's) outcome) \<Rightarrow> (int, 's) outcome" where
  "if_ok r k = andthen r (\<lambda>ret sc. if ret \<noteq> 0 then Ok ret sc else k sc)"

definition set_next_step_dir :: "int \<Rightarrow> stepcompress \<Rightarrow> (int, stepcompress) outcome" where
  "set_next_step_dir dir sc =
     (if sdir sc = dir then Ok 0 sc
      else if_ok (queue_flush UINT64_MAX sc)
        (\<lambda>sc.
          let sc = sc\<lparr>sdir := dir\<rparr> in
          case message_alloc_and_encode
                 [set_next_step_dir_msgtag sc, sc_oid sc, of_int (dir XOR invert_sdir sc)] of
            None \<Rightarrow> Fault
          | Some qm \<Rightarrow>
              Ok 0 (sc\<lparr>msg_queue := msg_queue sc @ [qm\<lparr>req_clock := last_step_clock sc\<rparr>]\<rparr>)))"

text \<open>Storing a step time at \<^verbatim>\<open>queue_next\<close>, a fault outside the array.\<close>

definition store_step :: "u64 \<Rightarrow> stepcompress \<Rightarrow> (int, stepcompress) outcome" where
  "store_step clock sc =
     (if queue_next sc \<ge> length (sc_queue sc) then Fault
      else Ok 0 (sc\<lparr>sc_queue := (sc_queue sc)[queue_next sc := ucast clock], queue_next := Suc (queue_next sc)\<rparr>))"

definition queue_append_far :: "stepcompress \<Rightarrow> (int, stepcompress) outcome" where
  "queue_append_far sc =
     (let step_clock = next_step_clock sc in
      if_ok (queue_flush (step_clock - CLOCK_DIFF_MAX + 1) (sc\<lparr>next_step_clock := 0\<rparr>))
        (\<lambda>sc. if step_clock \<ge> last_step_clock sc + CLOCK_DIFF_MAX then stepcompress_flush_far step_clock sc
              else store_step step_clock sc))"

function grow_alloc :: "nat \<Rightarrow> nat \<Rightarrow> nat" where
  "grow_alloc in_use alloc = (if 0 < alloc \<and> in_use \<ge> alloc then grow_alloc in_use (2 * alloc) else alloc)"
  by pat_completeness auto
termination by (relation "measure (\<lambda>(in_use, alloc). Suc in_use - alloc)") auto

declare grow_alloc.simps [simp del]

text \<open>Making room; the cells \<^verbatim>\<open>realloc\<close> adds have no defined value and are not read before they are written.\<close>

definition queue_make_room :: "stepcompress \<Rightarrow> stepcompress" where
  "queue_make_room sc =
     (if queue_next sc < length (sc_queue sc) then sc
      else let in_use = queue_next sc - queue_pos sc;
               sc = (if queue_pos sc > 0
                     then sc\<lparr>sc_queue := take in_use (drop (queue_pos sc) (sc_queue sc)) @ drop in_use (sc_queue sc)\<rparr>
                     else let alloc = length (sc_queue sc);
                              alloc = (if alloc = 0 then QUEUE_START_SIZE else alloc);
                              alloc = grow_alloc in_use alloc
                          in sc\<lparr>sc_queue := sc_queue sc @ replicate (alloc - length (sc_queue sc)) 0\<rparr>)
           in sc\<lparr>queue_pos := 0, queue_next := in_use\<rparr>)"

definition queue_append_extend :: "stepcompress \<Rightarrow> (int, stepcompress) outcome" where
  "queue_append_extend sc =
     if_ok
       (if queue_next sc - queue_pos sc > 65535 + 2000
        then let flush = sc_queue sc ! (queue_next sc - 65535) - ucast (last_step_clock sc)
             in queue_flush (last_step_clock sc + ucast flush) sc
        else Ok 0 sc)
       (\<lambda>sc.
         if_ok (store_step (next_step_clock sc) (queue_make_room sc)) (\<lambda>sc. Ok 0 (sc\<lparr>next_step_clock := 0\<rparr>)))"

definition queue_append :: "stepcompress \<Rightarrow> (int, stepcompress) outcome" where
  "queue_append sc =
     if_ok (if next_step_dir sc \<noteq> sdir sc then set_next_step_dir (next_step_dir sc) sc else Ok 0 sc)
       (\<lambda>sc.
         if next_step_clock sc \<ge> last_step_clock sc + CLOCK_DIFF_MAX then queue_append_far sc
         else if queue_next sc \<ge> length (sc_queue sc) then queue_append_extend sc
         else if_ok (store_step (next_step_clock sc) sc) (\<lambda>sc. Ok 0 (sc\<lparr>next_step_clock := 0\<rparr>)))"

section \<open>The interface\<close>

text \<open>The clock of a step time; the conversion to an unsigned integer drops the fraction.\<close>

definition append_clock :: "real \<Rightarrow> real \<Rightarrow> stepcompress \<Rightarrow> u64" where
  "append_clock print_time step_time sc =
     (let offset = print_time - last_step_print_time sc;
          rel_sc = (step_time + offset) * mcu_freq sc
      in last_step_clock sc + of_int (trunc_real rel_sc))"

definition stepcompress_append :: "int \<Rightarrow> real \<Rightarrow> real \<Rightarrow> stepcompress \<Rightarrow> (int, stepcompress) outcome" where
  "stepcompress_append dir print_time step_time sc =
     (let step_clock = append_clock print_time step_time sc in
      if next_step_clock sc \<noteq> 0 \<and> dir \<noteq> next_step_dir sc \<and>
         real_of_int (sint (step_clock - next_step_clock sc)) < 750 / 1000000 * mcu_freq sc
      then Ok 0 (sc\<lparr>next_step_clock := 0, next_step_dir := dir\<rparr>)
      else if_ok (if next_step_clock sc \<noteq> 0 then queue_append sc else Ok 0 sc)
             (\<lambda>sc. Ok 0 (sc\<lparr>next_step_clock := step_clock, next_step_dir := dir\<rparr>)))"

definition stepcompress_commit :: "stepcompress \<Rightarrow> (int, stepcompress) outcome" where
  "stepcompress_commit sc = (if next_step_clock sc \<noteq> 0 then queue_append sc else Ok 0 sc)"

definition stepcompress_flush :: "u64 \<Rightarrow> stepcompress \<Rightarrow> (int, stepcompress) outcome" where
  "stepcompress_flush move_clock sc =
     if_ok (if next_step_clock sc \<noteq> 0 \<and> move_clock \<ge> next_step_clock sc then queue_append sc else Ok 0 sc)
       (queue_flush move_clock)"

definition stepcompress_reset :: "u64 \<Rightarrow> stepcompress \<Rightarrow> (int, stepcompress) outcome" where
  "stepcompress_reset clock sc =
     if_ok (stepcompress_flush UINT64_MAX sc)
       (\<lambda>sc. Ok 0 (calc_last_step_print_time (sc\<lparr>last_step_clock := clock, sdir := - 1\<rparr>)))"

definition stepcompress_set_last_position :: "u64 \<Rightarrow> int \<Rightarrow> stepcompress \<Rightarrow> (int, stepcompress) outcome" where
  "stepcompress_set_last_position clock pos sc =
     if_ok (stepcompress_flush UINT64_MAX sc)
       (\<lambda>sc.
         let hs = \<lparr>hs_first_clock = clock, hs_last_clock = clock, hs_start_position = pos,
                    hs_step_count = 0, hs_interval = 0, hs_add = 0\<rparr>
         in Ok 0 (sc\<lparr>last_position := pos, history_list := hs # history_list sc\<rparr>))"

text \<open>The number of steps of a history entry made by a clock inside it.\<close>

definition history_offset :: "history_steps \<Rightarrow> u64 \<Rightarrow> int" where
  "history_offset hs clock =
     (let interval = hs_interval hs; add = hs_add hs;
          ticks = sint (ucast (clock - hs_first_clock hs) :: u32) + interval
      in if add = 0 then cdiv ticks interval
         else let a = 1 / 2 * real_of_int add; b = real_of_int interval - 1 / 2 * real_of_int add; c = - real_of_int ticks
              in trunc_real ((sqrt (b * b - 4 * a * c) - b) / (2 * a)))"

fun find_past_loop :: "history_steps list \<Rightarrow> u64 \<Rightarrow> int \<Rightarrow> int" where
  "find_past_loop [] clock pos = pos"
| "find_past_loop (hs # hss) clock pos =
     (if clock < hs_first_clock hs then find_past_loop hss clock (hs_start_position hs)
      else if clock \<ge> hs_last_clock hs then hs_start_position hs + hs_step_count hs
      else if hs_step_count hs < 0 then hs_start_position hs - history_offset hs clock
      else hs_start_position hs + history_offset hs clock)"

definition stepcompress_find_past_position :: "u64 \<Rightarrow> stepcompress \<Rightarrow> int" where
  "stepcompress_find_past_position clock sc = find_past_loop (history_list sc) clock (last_position sc)"

text \<open>The entries stored in \<^verbatim>\<open>p\<close>, at most \<open>n\<close>; their number is the result of the C function.\<close>

fun extract_loop :: "history_steps list \<Rightarrow> nat \<Rightarrow> u64 \<Rightarrow> u64 \<Rightarrow> history_steps list" where
  "extract_loop [] n start_clock end_clock = []"
| "extract_loop (hs # hss) n start_clock end_clock =
     (if start_clock \<ge> hs_last_clock hs \<or> n = 0 then []
      else if end_clock \<le> hs_first_clock hs then extract_loop hss n start_clock end_clock
      else hs # extract_loop hss (n - 1) start_clock end_clock)"

definition stepcompress_extract_old :: "nat \<Rightarrow> u64 \<Rightarrow> u64 \<Rightarrow> stepcompress \<Rightarrow> history_steps list" where
  "stepcompress_extract_old max_n start_clock end_clock sc = extract_loop (history_list sc) max_n start_clock end_clock"

end
