(* ===== verification/Stepcompress_Props.thy ===== *)
theory Stepcompress_Props
  imports Stepcompress Stepper_Props
begin

text \<open>
  The properties of the step compression (\<^verbatim>\<open>src/klippy/chelper/stepcompress.c\<close>): the search and the
  flush always end, and the commands they produce make the micro-controller step at the requested
  times up to the configured error.
\<close>

section \<open>Checked moves\<close>

lemma word_between:
  fixes a e p :: u32
  assumes "a - e \<le> p" "p \<le> a"
  shows "a - p \<le> e"
  using assms by unat_arith

lemma minmax_point_range:
  "\<exists>err. minmax_point sc pos = (sc_queue sc ! pos - ucast (last_step_clock sc) - err, sc_queue sc ! pos - ucast (last_step_clock sc)) \<and>
     err \<le> max_error sc"
proof -
  have c: "(if e > m then m else e) \<le> m" for e m :: u32 by (simp add: linorder_not_less)
  show ?thesis unfolding minmax_point_def Let_def using c by blast
qed

lemma check_points_sound:
  assumes "check_points sc add n i (iv + of_nat i * scast add) p = Some True"
    and "p + (iv + of_nat i * scast add) = step_clock 0 iv add i"
  shows "\<forall>j. i \<le> j \<and> j < i + n \<longrightarrow> queue_pos sc + j < length (sc_queue sc) \<and>
     sc_queue sc ! (queue_pos sc + j) - ucast (last_step_clock sc) - step_clock 0 iv add j \<le> max_error sc"
  using assms
proof (induction n arbitrary: i p)
  case 0
  then show ?case by auto
next
  case (Suc n)
  let ?pt = "sc_queue sc ! (queue_pos sc + i) - ucast (last_step_clock sc)"
  obtain err where m: "minmax_point sc (queue_pos sc + i) = (?pt - err, ?pt)" "err \<le> max_error sc"
    using minmax_point_range by blast
  let ?p = "step_clock 0 iv add i"
  have a: "queue_pos sc + i < length (sc_queue sc)" "?pt - err \<le> ?p" "?p \<le> ?pt"
    and r: "check_points sc add n (Suc i) (iv + of_nat i * scast add + scast add) ?p = Some True"
    using Suc.prems m by (auto simp: Let_def split: if_splits)
  have n: "iv + of_nat i * scast add + scast add = iv + of_nat (Suc i) * (scast add :: u32)"
    by (simp add: algebra_simps)
  have "?p + (iv + of_nat (Suc i) * scast add) = step_clock 0 iv add (Suc i)"
    by (simp only: step_clock_Suc)
  from Suc.IH [OF r [unfolded n] this] have
    "\<forall>j. Suc i \<le> j \<and> j < Suc i + n \<longrightarrow> queue_pos sc + j < length (sc_queue sc) \<and>
     sc_queue sc ! (queue_pos sc + j) - ucast (last_step_clock sc) - step_clock 0 iv add j \<le> max_error sc" .
  moreover have "?pt - ?p \<le> max_error sc" using word_between [OF a(2,3)] m(2) by (rule order_trans)
  ultimately show ?case using a(1) by (metis Suc_leI add_Suc_shift le_neq_implies_less)
qed

lemma step_clock_base: "step_clock w iv add k = w + step_clock 0 iv add k"
  by (simp add: step_clock_def)

lemma check_line_sound:
  assumes "check_line sc move = Some 0"
  shows "mv_count move \<noteq> 0 \<and>
     (\<forall>j<unat (mv_count move). queue_pos sc + j < length (sc_queue sc) \<and>
       sc_queue sc ! (queue_pos sc + j) -
         step_clock (ucast (last_step_clock sc)) (mv_interval move) (mv_add move) j \<le> max_error sc)"
proof -
  have c: "check_points sc (mv_add move) (unat (mv_count move)) 0 (mv_interval move) 0 = Some True" "mv_count move \<noteq> 0"
    using assms by (auto simp: check_line_def split: if_splits)
  have e: "x - step_clock (ucast (last_step_clock sc)) (mv_interval move) (mv_add move) j =
      x - ucast (last_step_clock sc) - step_clock 0 (mv_interval move) (mv_add move) j" for x j
    unfolding step_clock_base [of "ucast (last_step_clock sc)"] by simp
  show ?thesis
    using check_points_sound [of sc "mv_add move" "unat (mv_count move)" 0 "mv_interval move" 0] c
    unfolding e by (simp add: step_clock_0)
qed

section \<open>The clock of the last step\<close>

lemma ucast_up_down: "ucast (ucast (w :: u32) :: u64) = w"
  by (rule word32_eqI) (auto simp: bit_simps)

lemma addfactor_of_Some:
  assumes "addfactor_of (int n) = Some f"
  shows "f = int (n * (n - 1) div 2)"
  using assms
  by (cases n) (auto simp: addfactor_of_def i32_def cdiv_def sgn_if zdiv_int algebra_simps split: if_splits)

lemma move_ticks_last:
  assumes "move_ticks move = Some t" "mv_count move \<noteq> 0"
  shows "ucast (lsc + ucast (mv_interval move) + ucast t :: u64) =
     step_clock (ucast lsc) (mv_interval move) (mv_add move) (unat (mv_count move) - 1)"
proof -
  let ?n = "unat (mv_count move)"
  obtain f where f: "addfactor_of (int ?n) = Some f"
    and t: "t = of_int (sint (mv_add move) * f) + mv_interval move * (of_nat ?n - 1)"
    using assms(1) by (auto simp: move_ticks_def i32_def bind_eq_Some_conv split: if_splits)
  obtain k where k: "?n = Suc k" using assms(2) by (metis not0_implies_Suc unat_eq_zero)
  have "f = int (Suc k * k div 2)" using addfactor_of_Some [OF f] k by simp
  then have t': "t = scast (mv_add move) * of_nat (k * Suc k div 2) + mv_interval move * of_nat k"
    unfolding t k by (simp add: mult.commute)
  have "ucast (lsc + ucast (mv_interval move) + ucast t :: u64) = ucast lsc + mv_interval move + t"
    by (simp add: ucast_add_down ucast_up_down)
  then show ?thesis unfolding t' k step_clock_def by (simp add: algebra_simps)
qed

section \<open>The search ends\<close>

lemma cdiv_pos: "0 < d \<Longrightarrow> cdiv n d = (if n \<ge> 0 then n div d else - ((- n) div d))"
  by (auto simp: cdiv_def sgn_if)

lemma idiv_up_ge:
  assumes "idiv_up y f = Some r" "0 < f"
  shows "y \<le> r * f"
proof (cases "y \<ge> 0")
  case True
  then have r: "r = (y + f - 1) div f"
    using assms by (auto simp: idiv_up_def i32_def cdiv_pos bind_eq_Some_conv split: if_splits)
  have "y + f - 1 < (r + 1) * f" unfolding r
    using assms(2) by (metis add.commute div_mult_mod_eq mult.commute pos_mod_bound zless_add1_eq add_strict_left_mono distrib_left mult_1_right)
  then show ?thesis by (simp add: algebra_simps)
next
  case False
  then have r: "r = - ((- y) div f)" using assms by (auto simp: idiv_up_def cdiv_pos)
  have "(- y) div f * f \<le> - y" using assms(2) by (metis div_mult_mod_eq le_add_same_cancel1 pos_mod_sign)
  then show ?thesis by (simp add: r)
qed

lemma idiv_down_le:
  assumes "idiv_down y f = Some r" "0 < f"
  shows "r * f \<le> y"
proof (cases "y \<ge> 0")
  case True
  then have r: "r = y div f" using assms by (auto simp: idiv_down_def cdiv_pos)
  show ?thesis unfolding r using assms(2) by (metis div_mult_mod_eq le_add_same_cancel1 pos_mod_sign)
next
  case False
  then have r: "r = - ((f - y - 1) div f)"
    using assms by (auto simp: idiv_down_def i32_def cdiv_pos bind_eq_Some_conv algebra_simps split: if_splits)
  have "f - y - 1 < ((f - y - 1) div f + 1) * f"
    using assms(2) by (metis add.commute div_mult_mod_eq mult.commute pos_mod_bound add_strict_left_mono distrib_left mult_1_right)
  then show ?thesis by (simp add: r algebra_simps)
qed

lemma addfactor_pos: "addfactor_of nc = Some f \<Longrightarrow> 2 \<le> nc \<Longrightarrow> 0 < f"
proof -
  assume a: "addfactor_of nc = Some f" "2 \<le> nc"
  have "2 * 1 \<le> nc * (nc - 1)" using a(2) by (intro mult_mono) auto
  then show "0 < f" using a by (auto simp: addfactor_of_def i32_def cdiv_pos split: if_splits)
qed

lemma limit_add_range:
  "limit_add add count e (lo, hi) = Some (lo', hi') \<Longrightarrow> lo \<le> lo' \<and> hi' \<le> hi"
  by (auto simp: limit_add_def i32_def bind_eq_Some_conv Let_def split: if_splits)

lemma idiv_up_greater: "idiv_up y f = Some r \<Longrightarrow> 0 < f \<Longrightarrow> m * f < y \<Longrightarrow> m \<le> r"
  using idiv_up_ge [of y f r] by (meson less_le_trans mult_less_cancel_right_pos less_imp_le)

lemma idiv_down_less: "idiv_down y f = Some r \<Longrightarrow> 0 < f \<Longrightarrow> y < m * f \<Longrightarrow> r \<le> m"
  using idiv_down_le [of y f r] by (meson le_less_trans mult_less_cancel_right_pos less_imp_le)

lemma tighten_add_range:
  assumes "tighten_add f nc p outer (lo, hi) = Some (lo', hi')" "0 < f"
  shows "lo \<le> lo' \<and> hi' \<le> hi"
proof -
  have "lo' = lo \<or> (\<exists>y. lo * f < y \<and> idiv_up y f = Some lo')" "hi' = hi \<or> (\<exists>y. y < hi * f \<and> idiv_down y f = Some hi')"
    using assms(1) by (auto simp: tighten_add_def bind_eq_Some_conv i32_def split: if_splits)
  then show ?thesis using idiv_up_greater idiv_down_less assms(2) by blast
qed

text \<open>Every attempt cuts the range of \<^verbatim>\<open>add\<close> at the value just tried.\<close>

lemma next_limits_shrink:
  assumes "next_limits sc add (lo, hi) outer b = Some ((lo', hi'), outer')" "2 \<le> nr_count b" "lo \<le> add" "add \<le> hi"
  shows "lo \<le> lo' \<and> hi' \<le> hi \<and> (add < lo' \<or> hi' < add)"
proof -
  from assms(1) obtain f l1 h1 o1 l2 h2 x r where f: "addfactor_of (nr_count b) = Some f"
    and c: "cut_range add x r (lo, hi) outer = Some ((l1, h1), o1)"
    and 2: "limit_add add (nr_count b - 1) (max_error sc) (l1, h1) = Some (l2, h2)"
    and t: "tighten_add f (nr_count b) (nr_point b) o1 (l2, h2) = Some (lo', hi')"
    by (clarsimp simp: next_limits_def bind_eq_Some_conv)
  have 1: "l1 = add + 1 \<and> h1 = hi \<or> l1 = lo \<and> h1 = add - 1"
    using c by (auto simp: cut_range_def i32_def bind_eq_Some_conv split: if_splits)
  have "0 < f" using addfactor_pos [OF f assms(2)] .
  from tighten_add_range [OF t this] 1 limit_add_range [OF 2] assms(3,4) show ?thesis by auto
qed

lemma inner_loop_result:
  assumes "inner_loop sc n add count nmin nmax ivl = Some r" "1 \<le> count" "count \<le> n"
  shows "case r of Covers i c \<Rightarrow> 1 \<le> c \<and> c \<le> int n | Broke nc a b i p \<Rightarrow> 2 \<le> nc \<and> nc \<le> int n"
  using assms
proof (induction sc n add count nmin nmax ivl rule: inner_loop.induct)
  case (1 sc n add count nmin nmax ivl)
  show ?case
  proof (cases "count \<ge> n")
    case True
    with "1.prems" show ?thesis by (auto simp: inner_loop.simps [of sc n add count])
  next
    case False
    obtain pmin pmax where m: "minmax_point sc (queue_pos sc + count) = (pmin, pmax)" by fastforce
    then obtain a b where nr: "narrow_interval add (int count + 1) (sint pmin, sint pmax) nmin nmax = Some (a, b)"
      using "1.prems"(1) False by (auto simp: inner_loop.simps [of sc n add count] Let_def split: option.splits)
    show ?thesis
    proof (cases "a > b")
      case True
      with "1.prems" False m nr show ?thesis by (auto simp: inner_loop.simps [of sc n add count] Let_def)
    next
      case f: False
      with "1.prems"(1) False m nr have "inner_loop sc n add (Suc count) a b b = Some r"
        by (simp add: inner_loop.simps [of sc n add count] Let_def)
      with "1.IH" [OF False m [symmetric] refl refl nr refl f] False show ?thesis by simp
    qed
  qed
qed

lemma next_add_in_range:
  assumes "lo \<le> hi"
  shows "lo \<le> hi - cdiv (hi - lo) 4 \<and> hi - cdiv (hi - lo) 4 \<le> hi"
  using assms by (simp add: cdiv_pos) linarith

text \<open>The counts that the search handles are within the available steps.\<close>

definition count_ok :: "nat \<Rightarrow> int \<Rightarrow> bool" where
  "count_ok n c \<longleftrightarrow> 0 \<le> c \<and> c \<le> int n"

definition best_ok :: "nat \<Rightarrow> best \<Rightarrow> int \<times> int \<Rightarrow> bool" where
  "best_ok n best zero \<longleftrightarrow> count_ok n (fst (snd best)) \<and> count_ok n (snd zero)"

definition found_ok :: "nat \<Rightarrow> (int \<times> int \<times> int) option \<Rightarrow> bool" where
  "found_ok n r \<longleftrightarrow> (\<forall>i c a. r = Some (i, c, a) \<longrightarrow> count_ok n c)"

lemma note_best_ok:
  assumes "note_best add count ivl best zero = Some (best', zero', stop)" "best_ok n best zero" "count_ok n count"
  shows "best_ok n best' zero'"
  using assms
  by (auto simp: note_best_def best_ok_def bind_eq_Some_conv Let_def split: if_splits prod.splits)

lemma choose_best_ok: "best_ok n best zero \<Longrightarrow> found_ok n (Some (choose_best best zero))"
  by (auto simp: choose_best_def best_ok_def found_ok_def Let_def split: if_splits prod.splits)

lemma bisect_loop_returns:
  assumes "fst rng \<le> add" "add \<le> snd rng" "1 \<le> n" "best_ok n best zero"
  shows "\<exists>r. bisect_loop sc n add rng outer best zero = Some r \<and> found_ok n r"
  using assms
proof (induction "nat (snd rng - fst rng)" arbitrary: add rng outer best zero rule: less_induct)
  case less
  note unf = bisect_loop.simps [of sc n add rng outer best zero]
  have none: "found_ok n None" by (simp add: found_ok_def)
  show ?case
  proof (cases "\<exists>nc nmin nmax ivl p. inner_loop sc n add 1 (fst outer) (snd outer) (snd outer) =
      Some (Broke nc nmin nmax ivl p)")
    case False
    with none inner_loop_result [of sc n add 1 "fst outer" "snd outer" "snd outer"] less.prems(3) show ?thesis
      unfolding unf by (auto simp: found_ok_def count_ok_def split: option.splits inner_result.splits)
  next
    case True
    then obtain nc nmin nmax ivl p where r: "inner_loop sc n add 1 (fst outer) (snd outer) (snd outer) =
        Some (Broke nc nmin nmax ivl p)" by blast
    have nc: "2 \<le> nc" "nc \<le> int n" using inner_loop_result [OF r] less.prems(3) by simp_all
    show ?thesis
    proof (cases "note_best add (nc - 1) ivl best zero")
      case None
      with r none show ?thesis unfolding unf by simp
    next
      case (Some b)
      obtain best' zero' stop where b: "b = (best', zero', stop)" by (cases b) auto
      have ok: "best_ok n best' zero'"
        using note_best_ok [OF Some [unfolded b]] less.prems(4) nc by (simp add: count_ok_def)
      note found = choose_best_ok [OF ok]
      show ?thesis
      proof (cases "\<exists>lo hi outer'. \<not> stop \<and> lo \<le> hi \<and>
          next_limits sc add rng outer (Broke nc nmin nmax ivl p) = Some ((lo, hi), outer')")
        case False
        with r Some b none found show ?thesis unfolding unf by (auto split: option.splits)
      next
        case True
        then obtain lo hi outer' where l: "\<not> stop" "lo \<le> hi"
          "next_limits sc add rng outer (Broke nc nmin nmax ivl p) = Some ((lo, hi), outer')" by blast
        have sh: "fst rng \<le> lo \<and> hi \<le> snd rng \<and> (add < lo \<or> hi < add)"
          using next_limits_shrink [of sc add "fst rng" "snd rng" outer "Broke nc nmin nmax ivl p" lo hi outer'] l nc less.prems
          by simp
        then have "nat (snd (lo, hi) - fst (lo, hi)) < nat (snd rng - fst rng)" using l(2) less.prems by auto
        from less.hyps [OF this, of "hi - cdiv (hi - lo) 4" best' zero' outer'] next_add_in_range [OF l(2)] less.prems(3) ok
        obtain r' where "bisect_loop sc n (hi - cdiv (hi - lo) 4) (lo, hi) outer' best' zero' = Some r'" "found_ok n r'"
          by auto
        with r Some b l none show ?thesis unfolding unf by (auto simp: i32_def)
      qed
    qed
  qed
qed

lemma compress_bisect_add_returns:
  assumes "queue_pos sc < queue_next sc"
  shows "\<exists>r. compress_bisect_add sc = Some r \<and>
     (\<forall>move. r = Some move \<longrightarrow> queue_pos sc + unat (mv_count move) \<le> queue_next sc)"
proof -
  obtain pmin pmax where m: "minmax_point sc (queue_pos sc) = (pmin, pmax)" by fastforce
  have n: "1 \<le> bisect_avail sc" "bisect_avail sc \<le> 65535" using assms by (auto simp: bisect_avail_def)
  have "best_ok (bisect_avail sc) (0, 1, 1, - (2 ^ 31)) (0, 0)" using n by (simp add: best_ok_def count_ok_def)
  from bisect_loop_returns [OF _ _ n(1) this, of "(- 0x8000, 0x7fff)" 0 sc "(sint pmin, sint pmax)"]
  obtain r where r: "bisect_loop sc (bisect_avail sc) 0 (- 0x8000, 0x7fff) (sint pmin, sint pmax)
      (0, 1, 1, - (2 ^ 31)) (0, 0) = Some r" "found_ok (bisect_avail sc) r" by auto
  have "queue_pos sc + unat (of_int c :: u16) \<le> queue_next sc" if "r = Some (i, c, a)" for i c a
  proof -
    have c: "0 \<le> c" "c \<le> int (bisect_avail sc)" using r(2) that by (auto simp: found_ok_def count_ok_def)
    then obtain k where k: "c = int k" "k \<le> bisect_avail sc" by (metis nonneg_int_cases of_nat_le_iff)
    have "unat (of_int c :: u16) = k" using k n(2) by (simp add: unat_of_nat)
    with k(2) assms show ?thesis unfolding bisect_avail_def by linarith
  qed
  with r(1) m show ?thesis by (auto simp: compress_bisect_add_def)
qed

section \<open>Flushing\<close>

text \<open>The step times waiting in the queue.\<close>

definition pend :: "stepcompress \<Rightarrow> u32 list" where
  "pend sc = take (queue_next sc - queue_pos sc) (drop (queue_pos sc) (sc_queue sc))"

text \<open>
  The clocks at which the micro-controller makes the steps of a sequence of moves, when its clock
  of the last step is \<open>w\<close>.
\<close>

fun moves_steps :: "u32 \<Rightarrow> step_move list \<Rightarrow> u32 list" where
  "moves_steps w [] = []"
| "moves_steps w (m # ms) =
     map (step_clock w (mv_interval m) (mv_add m)) [0..<unat (mv_count m)] @
     moves_steps (step_clock w (mv_interval m) (mv_add m) (unat (mv_count m) - 1)) ms"

text \<open>The signed number of steps in the direction of the stepper.\<close>

definition signed_steps :: "stepcompress \<Rightarrow> nat \<Rightarrow> int" where
  "signed_steps sc n = (if sdir sc \<noteq> 0 then int n else - int n)"

text \<open>What a flush has done when the moves \<open>mvs\<close> were sent in the messages \<open>qms\<close>.\<close>

definition flushed :: "stepcompress \<Rightarrow> step_move list \<Rightarrow> queue_message list \<Rightarrow> stepcompress \<Rightarrow> bool" where
  "flushed sc mvs qms sc' \<longleftrightarrow>
     (\<exists>req. pend sc = req @ pend sc' \<and>
        list_all2 (\<lambda>r a. r - a \<le> max_error sc) req (moves_steps (ucast (last_step_clock sc)) mvs) \<and>
        last_position sc' = last_position sc + signed_steps sc (length req)) \<and>
     ucast (last_step_clock sc') = last (ucast (last_step_clock sc) # moves_steps (ucast (last_step_clock sc)) mvs) \<and>
     msg_queue sc' = msg_queue sc @ qms \<and> map qm_bytes qms = map (\<lambda>m. vlq_bytes (move_message sc m)) mvs"

text \<open>The fields a flush does not touch.\<close>

definition same_setup :: "stepcompress \<Rightarrow> stepcompress \<Rightarrow> bool" where
  "same_setup sc sc' \<longleftrightarrow> max_error sc' = max_error sc \<and> sdir sc' = sdir sc \<and> sc_oid sc' = sc_oid sc \<and>
     queue_step_msgtag sc' = queue_step_msgtag sc \<and> sc_queue sc' = sc_queue sc \<and> queue_next sc' \<le> queue_next sc"

lemma flushed_Nil: "flushed sc [] [] sc"
  by (simp add: flushed_def signed_steps_def)

lemma vlq_bytes_five: "length (vlq_bytes [a, b, c, d, e]) \<le> 59"
  using encode_int_length [of a] encode_int_length [of b] encode_int_length [of c] encode_int_length [of d]
    encode_int_length [of e] by simp

lemma add_move_Some:
  assumes "add_move (last_step_clock sc + ucast (mv_interval move)) move sc = Some sc'" "mv_count move \<noteq> 0"
  shows "\<exists>qm. msg_queue sc' = msg_queue sc @ [qm] \<and> qm_bytes qm = vlq_bytes (move_message sc move) \<and>
     ucast (last_step_clock sc') =
       step_clock (ucast (last_step_clock sc)) (mv_interval move) (mv_add move) (unat (mv_count move) - 1) \<and>
     last_position sc' = last_position sc + signed_steps sc (unat (mv_count move)) \<and>
     same_setup sc sc' \<and> queue_pos sc' = queue_pos sc \<and> queue_next sc' = queue_next sc"
proof -
  obtain t qm mc rc where t: "move_ticks move = Some t" and qm: "message_alloc_and_encode (move_message sc move) = Some qm"
    and sc': "last_step_clock sc' = last_step_clock sc + ucast (mv_interval move) + ucast t"
      "msg_queue sc' = msg_queue sc @ [qm\<lparr>min_clock := mc, req_clock := rc\<rparr>]"
      "last_position sc' = last_position sc + signed_steps sc (unat (mv_count move))"
      "same_setup sc sc'" "queue_pos sc' = queue_pos sc" "queue_next sc' = queue_next sc"
    using assms(1)
    by (clarsimp simp: add_move_def bind_eq_Some_conv Let_def move_history_def signed_steps_def same_setup_def)
  have "qm_bytes qm = vlq_bytes (move_message sc move)"
    using message_encode_spec [of "move_message sc move"] qm vlq_bytes_five unfolding move_message_def by (metis option.inject)
  with sc' move_ticks_last [OF t assms(2), of "last_step_clock sc"] show ?thesis
    by (auto simp: qm_bytes_def)
qed

lemma pend_split:
  assumes "queue_pos sc + n \<le> queue_next sc"
  shows "pend sc = take n (drop (queue_pos sc) (sc_queue sc)) @ pend (sc\<lparr>queue_pos := queue_pos sc + n\<rparr>)"
proof -
  have "queue_next sc - queue_pos sc = n + (queue_next sc - (queue_pos sc + n))" using assms by simp
  then show ?thesis unfolding pend_def by (simp only: take_add) (simp add: drop_drop add.commute)
qed

text \<open>One move of a flush.\<close>

lemma flush_step:
  assumes "check_line sc move = Some 0" "queue_pos sc + unat (mv_count move) \<le> queue_next sc"
    and "add_move (last_step_clock sc + ucast (mv_interval move)) move sc = Some sc1"
  shows "\<exists>qm. flushed sc [move] [qm] (sc1\<lparr>queue_pos := queue_pos sc + unat (mv_count move)\<rparr>)"
proof -
  let ?n = "unat (mv_count move)" and ?w = "ucast (last_step_clock sc) :: u32"
  let ?step = "step_clock ?w (mv_interval move) (mv_add move)"
  have c: "mv_count move \<noteq> 0" and q: "\<forall>j<?n. queue_pos sc + j < length (sc_queue sc) \<and>
      sc_queue sc ! (queue_pos sc + j) - ?step j \<le> max_error sc"
    using check_line_sound [OF assms(1)] by auto
  obtain qm where a: "msg_queue sc1 = msg_queue sc @ [qm]" "qm_bytes qm = vlq_bytes (move_message sc move)"
    "ucast (last_step_clock sc1) = ?step (?n - 1)" "last_position sc1 = last_position sc + signed_steps sc ?n"
    "same_setup sc sc1" "queue_pos sc1 = queue_pos sc" "queue_next sc1 = queue_next sc"
    using add_move_Some [OF assms(3) c] by blast
  obtain k where k: "?n = Suc k" using c by (metis not0_implies_Suc unat_eq_zero)
  have "queue_pos sc + k < length (sc_queue sc)" using q k by simp
  then have len: "length (take ?n (drop (queue_pos sc) (sc_queue sc))) = ?n" using k by simp
  have "list_all2 (\<lambda>r a. r - a \<le> max_error sc) (take ?n (drop (queue_pos sc) (sc_queue sc))) (moves_steps ?w [move])"
    using q len by (auto simp: list_all2_conv_all_nth)
  moreover have "pend (sc1\<lparr>queue_pos := queue_pos sc + ?n\<rparr>) = pend (sc\<lparr>queue_pos := queue_pos sc + ?n\<rparr>)"
    using a by (simp add: pend_def same_setup_def)
  moreover have "ucast (last_step_clock sc1) = last (?w # moves_steps ?w [move])" using a(3) k by simp
  ultimately show ?thesis using a pend_split [OF assms(2)] len
    unfolding flushed_def by (intro exI [of _ qm]) auto
qed

lemma flushed_Cons:
  assumes "flushed sc [move] [qm] sc1" "flushed sc1 mvs qms sc2" "same_setup sc sc1" "mv_count move \<noteq> 0"
  shows "flushed sc (move # mvs) (qm # qms) sc2"
proof -
  let ?w = "ucast (last_step_clock sc) :: u32" and ?w1 = "ucast (last_step_clock sc1) :: u32"
  obtain k where k: "unat (mv_count move) = Suc k" using assms(4) by (metis not0_implies_Suc unat_eq_zero)
  from assms(1) obtain r1 where 1: "pend sc = r1 @ pend sc1"
    "list_all2 (\<lambda>r a. r - a \<le> max_error sc) r1 (moves_steps ?w [move])" "?w1 = last (?w # moves_steps ?w [move])"
    "last_position sc1 = last_position sc + signed_steps sc (length r1)" "msg_queue sc1 = msg_queue sc @ [qm]"
    "qm_bytes qm = vlq_bytes (move_message sc move)" unfolding flushed_def by auto
  from assms(2) obtain r2 where 2: "pend sc1 = r2 @ pend sc2"
    "list_all2 (\<lambda>r a. r - a \<le> max_error sc1) r2 (moves_steps ?w1 mvs)"
    "ucast (last_step_clock sc2) = last (?w1 # moves_steps ?w1 mvs)"
    "last_position sc2 = last_position sc1 + signed_steps sc1 (length r2)" "msg_queue sc2 = msg_queue sc1 @ qms"
    "map qm_bytes qms = map (\<lambda>m. vlq_bytes (move_message sc1 m)) mvs" unfolding flushed_def by auto
  have w: "moves_steps ?w (move # mvs) = moves_steps ?w [move] @ moves_steps ?w1 mvs" using 1(3) k by simp
  have "list_all2 (\<lambda>r a. r - a \<le> max_error sc) (r1 @ r2) (moves_steps ?w (move # mvs))"
    unfolding w using 1(2) 2(2) assms(3) by (auto simp: same_setup_def intro: list_all2_appendI)
  moreover have "ucast (last_step_clock sc2) = last (?w # moves_steps ?w (move # mvs))"
    unfolding w 2(3) using 1(3) by (cases "moves_steps ?w1 mvs = []") auto
  moreover have "last_position sc2 = last_position sc + signed_steps sc (length (r1 @ r2))"
    using 1(4) 2(4) assms(3) by (auto simp: signed_steps_def same_setup_def)
  moreover have "move_message sc1 = move_message sc" using assms(3) by (auto simp: move_message_def same_setup_def)
  ultimately show ?thesis using 1 2 unfolding flushed_def by (intro conjI exI [of _ "r1 @ r2"]) simp_all
qed

lemma flushed_print_time [simp]:
  "flushed sc mvs qms (calc_last_step_print_time sc') = flushed sc mvs qms sc'"
  "sc_queue (calc_last_step_print_time sc') = sc_queue sc'" "queue_next (calc_last_step_print_time sc') = queue_next sc'"
  "pend (calc_last_step_print_time sc') = pend sc'" "last_step_clock (calc_last_step_print_time sc') = last_step_clock sc'"
  by (simp_all add: flushed_def pend_def calc_last_step_print_time_def Let_def)

lemma flushed_reset:
  assumes "queue_pos sc' + n \<ge> queue_next sc'"
  shows "flushed sc mvs qms (sc'\<lparr>queue_pos := 0, queue_next := 0\<rparr>) = flushed sc mvs qms (sc'\<lparr>queue_pos := queue_pos sc' + n\<rparr>)"
  using assms by (simp add: flushed_def pend_def)

text \<open>The result of a flush up to a clock.\<close>

definition flush_result :: "u64 \<Rightarrow> stepcompress \<Rightarrow> (int, stepcompress) outcome \<Rightarrow> bool" where
  "flush_result mc sc r \<longleftrightarrow> (\<forall>m sc'. r \<noteq> Shutdown m sc') \<and>
     (\<forall>ret sc'. r = Ok ret sc' \<longrightarrow> (\<exists>mvs qms. flushed sc mvs qms sc') \<and>
        (ret = 0 \<longrightarrow> pend sc' = [] \<or> mc \<le> last_step_clock sc') \<and>
        sc_queue sc' = sc_queue sc \<and> (queue_next sc' = queue_next sc \<or> pend sc' = []))"

lemma flush_result_Cons:
  assumes "flush_result mc sc2 r" "flushed sc [move] [qm] sc2" "same_setup sc sc2" "mv_count move \<noteq> 0"
    and "queue_next sc2 = queue_next sc"
  shows "flush_result mc sc r"
  unfolding flush_result_def
proof (intro conjI allI impI)
  show "r \<noteq> Shutdown m sc'" for m sc' using assms(1) by (simp add: flush_result_def)
next
  fix ret sc' assume r: "r = Ok ret sc'"
  have f: "\<exists>mvs qms. flushed sc2 mvs qms sc'" "ret = 0 \<longrightarrow> pend sc' = [] \<or> mc \<le> last_step_clock sc'"
    "sc_queue sc' = sc_queue sc2" "queue_next sc' = queue_next sc2 \<or> pend sc' = []"
    using assms(1) r unfolding flush_result_def by blast+
  show "\<exists>mvs qms. flushed sc mvs qms sc'" using f(1) flushed_Cons [OF assms(2) _ assms(3,4)] by blast
  show "sc_queue sc' = sc_queue sc" "queue_next sc' = queue_next sc \<or> pend sc' = []"
    using f(3,4) assms(3,5) by (simp_all add: same_setup_def)
  show "pend sc' = [] \<or> mc \<le> last_step_clock sc'" if "ret = 0" using f(2) that by blast
qed

lemma flush_loop_returns:
  assumes "queue_pos sc < queue_next sc"
  shows "\<exists>r. flush_loop mc sc = Some r \<and> flush_result mc sc r"
  using assms
proof (induction "queue_next sc - queue_pos sc" arbitrary: sc rule: less_induct)
  case less
  note unf = flush_loop.simps [of mc sc]
  have fault: "flush_result mc sc Fault" by (simp add: flush_result_def)
  have here: "\<exists>mvs qms. flushed sc mvs qms sc" using flushed_Nil by blast
  show ?case
  proof (cases "last_step_clock sc < mc")
    case False
    with here show ?thesis unfolding unf by (auto simp: flush_result_def)
  next
    case True
    obtain r where r: "compress_bisect_add sc = Some r"
      "\<forall>move. r = Some move \<longrightarrow> queue_pos sc + unat (mv_count move) \<le> queue_next sc"
      using compress_bisect_add_returns [OF less.prems] by blast
    show ?thesis
    proof (cases "\<exists>move sc1. r = Some move \<and> check_line sc move = Some 0 \<and>
        add_move (last_step_clock sc + ucast (mv_interval move)) move sc = Some sc1")
      case False
      with True r(1) fault here show ?thesis unfolding unf
        by (auto simp: flush_result_def check_line_def split: option.splits)
    next
      case t: True
      then obtain move sc1 where m: "r = Some move" "check_line sc move = Some 0"
        "add_move (last_step_clock sc + ucast (mv_interval move)) move sc = Some sc1" by blast
      have c: "mv_count move \<noteq> 0" using check_line_sound [OF m(2)] by blast
      note a = add_move_Some [OF m(3) c]
      let ?sc2 = "sc1\<lparr>queue_pos := queue_pos sc + unat (mv_count move)\<rparr>"
      obtain qm where f: "flushed sc [move] [qm] ?sc2" using flush_step [OF m(2) _ m(3)] r(2) m(1) by blast
      have q: "queue_pos sc1 = queue_pos sc" "queue_next sc1 = queue_next sc" "same_setup sc ?sc2"
        using a by (auto simp: same_setup_def)
      show ?thesis
      proof (cases "queue_pos sc1 + unat (mv_count move) \<ge> queue_next sc1")
        case l: True
        have "flushed sc [move] [qm] (sc1\<lparr>queue_pos := 0, queue_next := 0\<rparr>)"
          unfolding flushed_reset [OF l] using f q(1) by simp
        moreover have "pend (sc1\<lparr>queue_pos := 0, queue_next := 0\<rparr>) = []" by (simp add: pend_def)
        ultimately show ?thesis unfolding unf using True r(1) m l q(3) by (auto simp: flush_result_def same_setup_def)
      next
        case l: False
        have "0 < unat (mv_count move)" using c by (simp add: unat_gt_0)
        then have "queue_next ?sc2 - queue_pos ?sc2 < queue_next sc - queue_pos sc" using l q by simp
        from less.hyps [OF this] l q obtain r2 where r2: "flush_loop mc ?sc2 = Some r2" "flush_result mc ?sc2 r2" by auto
        have "flush_result mc sc r2"
          by (rule flush_result_Cons [OF r2(2) f q(3) c]) (simp add: q(2))
        with r2(1) show ?thesis unfolding unf using True r(1) m l q(1) by simp
      qed
    qed
  qed
qed

lemma queue_flush_result: "flush_result mc sc (queue_flush mc sc)"
proof (cases "queue_pos sc < queue_next sc")
  case True
  with flush_loop_returns [OF True, of mc] show ?thesis by (auto simp: queue_flush_def)
next
  case False
  then have "pend sc = []" by (simp add: pend_def)
  with False flushed_Nil [of sc] show ?thesis by (auto simp: queue_flush_def flush_result_def)
qed

section \<open>Properties\<close>

text \<open>
  C4: When \<^verbatim>\<open>queue_flush\<close> returns, it has taken a prefix of the queued step times and sent, in
  order, one \<^verbatim>\<open>queue_step\<close> message per move, such that the steps the micro-controller makes for
  these moves (\<open>step_clock\<close>, the times the stepper code keeps) are as many as the step times taken, and
  each is at most \<^verbatim>\<open>max_error\<close> ticks before the time requested and never after it. The clock of
  the last step and the position follow these steps exactly, so no error accumulates from move to
  move, and a flush without error leaves nothing before \<^verbatim>\<open>move_clock\<close> behind.
  Hypothesis: the flush returns, with or without an error, instead of running into an overflow.
\<close>

theorem queue_flush_step_times:
  assumes "queue_flush mc sc = Ok ret sc'"
  shows "\<exists>mvs qms req. pend sc = req @ pend sc' \<and>
     list_all2 (\<lambda>r a. r - a \<le> max_error sc) req (moves_steps (ucast (last_step_clock sc)) mvs) \<and>
     ucast (last_step_clock sc') = last (ucast (last_step_clock sc) # moves_steps (ucast (last_step_clock sc)) mvs) \<and>
     last_position sc' = last_position sc + signed_steps sc (length req) \<and>
     msg_queue sc' = msg_queue sc @ qms \<and> map qm_bytes qms = map (\<lambda>m. vlq_bytes (move_message sc m)) mvs \<and>
     (ret = 0 \<longrightarrow> pend sc' = [] \<or> mc \<le> last_step_clock sc')"
  using queue_flush_result [of mc sc] assms unfolding flush_result_def flushed_def by blast

text \<open>
  C16: The search for a move and the flush always end: every attempt of \<^verbatim>\<open>compress_bisect_add\<close>
  shrinks the range of increments still tried, a move covers at least one and at most the queued
  steps, and every pass of the flush loop takes steps off the queue. Hypothesis: the queue is not
  empty, which \<^verbatim>\<open>queue_flush\<close> checks first.
\<close>

theorem queue_flush_terminates:
  assumes "queue_pos sc < queue_next sc"
  shows "(\<exists>r. compress_bisect_add sc = Some r \<and>
       (\<forall>move. r = Some move \<longrightarrow> queue_pos sc + unat (mv_count move) \<le> queue_next sc)) \<and>
     (\<exists>r. flush_loop mc sc = Some r)"
  using compress_bisect_add_returns [OF assms] flush_loop_returns [OF assms, of mc] by blast

text \<open>
  C18: \<^verbatim>\<open>queue_append_far\<close> stores the step without checking for room. When the array is full and the
  flush before it stops in the middle of the queue, the step is written beyond the end of the
  array. Hypotheses: the array is full, the flush returns without error and leaves steps in the
  queue, and the step is within \<^verbatim>\<open>CLOCK_DIFF_MAX\<close> of the last one then.
\<close>

theorem queue_append_far_overflow:
  assumes "queue_next sc = length (sc_queue sc)"
    and "queue_flush (next_step_clock sc - CLOCK_DIFF_MAX + 1) (sc\<lparr>next_step_clock := 0\<rparr>) = Ok 0 sc'"
    and "pend sc' \<noteq> []" "next_step_clock sc < last_step_clock sc' + CLOCK_DIFF_MAX"
  shows "queue_append_far sc = Fault"
proof -
  have "queue_next sc' = length (sc_queue sc')"
    using queue_flush_result [of "next_step_clock sc - CLOCK_DIFF_MAX + 1" "sc\<lparr>next_step_clock := 0\<rparr>"] assms(1-3)
    by (simp add: flush_result_def)
  moreover have "\<not> last_step_clock sc' + CLOCK_DIFF_MAX \<le> next_step_clock sc" using assms(4) by (meson leD)
  ultimately show ?thesis using assms(2)
    by (simp add: queue_append_far_def if_ok_def Let_def store_step_def)
qed

section \<open>Examples\<close>

text \<open>Step times queued after a last step at clock 0, used by the witnesses.\<close>

definition demo_sc :: "u32 list \<Rightarrow> stepcompress" where
  "demo_sc ts = (stepcompress_fill 3 5 7 8 (stepcompress_alloc []))
     \<lparr>sc_queue := ts, queue_next := length ts, mcu_freq := 1000000, sdir := 1\<rparr>"

lemmas demo_sc_simps = demo_sc_def stepcompress_fill_def stepcompress_alloc_def

lemma demo_compress:
  "compress_bisect_add (demo_sc [100, 200, 300]) = Some (Some \<lparr>mv_interval = 100, mv_count = 3, mv_add = 0\<rparr>)"
  unfolding compress_bisect_add_def
  by (subst bisect_loop.simps) (simp add: demo_sc_simps minmax_point_def bisect_avail_def inner_loop.simps narrow_interval_def addfactor_of_def
      i32_def cdiv_def idiv_up_def idiv_down_def)

text \<open>A move that passes the check is sent whenever its ticks do not overflow.\<close>

lemma flush_one:
  assumes "queue_pos sc < queue_next sc" "last_step_clock sc < mc" "compress_bisect_add sc = Some (Some move)"
    and "check_line sc move = Some 0" "move_ticks move = Some t"
  shows "\<exists>sc1. sc1 = sc\<lparr>msg_queue := msg_queue sc1, last_step_clock := last_step_clock sc + ucast (mv_interval move) + ucast t,
       last_position := last_position sc1, history_list := history_list sc1\<rparr> \<and>
     flush_loop mc sc =
       (if queue_pos sc + unat (mv_count move) \<ge> queue_next sc
        then Some (Ok 0 (calc_last_step_print_time (sc1\<lparr>queue_pos := 0, queue_next := 0\<rparr>)))
        else flush_loop mc (sc1\<lparr>queue_pos := queue_pos sc + unat (mv_count move)\<rparr>))"
proof -
  obtain qm where qm: "message_alloc_and_encode (move_message sc move) = Some qm" using message_encode_spec by blast
  then obtain sc1 where a: "add_move (last_step_clock sc + ucast (mv_interval move)) move sc = Some sc1"
    and s: "sc1 = sc\<lparr>msg_queue := msg_queue sc1, last_step_clock := last_step_clock sc + ucast (mv_interval move) + ucast t,
       last_position := last_position sc1, history_list := history_list sc1\<rparr>"
    using assms(5) by (auto simp: add_move_def Let_def)
  have "queue_pos sc1 = queue_pos sc" "queue_next sc1 = queue_next sc" by (subst s, simp)+
  with a s assms show ?thesis by (intro exI [of _ sc1]) (subst flush_loop.simps, simp)
qed

lemma demo_check: "check_line (demo_sc [100, 200, 300]) \<lparr>mv_interval = 100, mv_count = 3, mv_add = 0\<rparr> = Some 0"
proof -
  have n: "unat (3 :: u16) = Suc (Suc (Suc 0))" by simp
  show ?thesis unfolding check_line_def step_move.simps n
    by (simp add: demo_sc_simps minmax_point_def Let_def)
qed

lemma demo_ticks: "move_ticks \<lparr>mv_interval = 100, mv_count = 3, mv_add = 0\<rparr> = Some 200"
  by (simp add: move_ticks_def addfactor_of_def i32_def cdiv_def)

lemma demo_flush: "\<exists>sc'. queue_flush 1000 (demo_sc [100, 200, 300]) = Ok 0 sc' \<and> pend sc' = []"
  using flush_one [OF _ _ demo_compress demo_check demo_ticks, of 1000]
  by (auto simp: queue_flush_def pend_def) (auto simp: demo_sc_simps calc_last_step_print_time_def Let_def)

theorem queue_flush_step_times_witness:
  "\<exists>sc' mvs. queue_flush 1000 (demo_sc [100, 200, 300]) = Ok 0 sc' \<and>
     list_all2 (\<lambda>r a. r - a \<le> 5) [100, 200, 300] (moves_steps 0 mvs)"
proof -
  obtain sc' where s: "queue_flush 1000 (demo_sc [100, 200, 300]) = Ok 0 sc'" "pend sc' = []" using demo_flush by blast
  have d: "pend (demo_sc [100, 200, 300]) = [100, 200, 300]" "max_error (demo_sc [100, 200, 300]) = 5"
    "last_step_clock (demo_sc [100, 200, 300]) = 0" by (simp_all add: pend_def demo_sc_simps)
  from queue_flush_step_times [OF s(1)] obtain mvs where
    "list_all2 (\<lambda>r a. r - a \<le> 5) [100, 200, 300] (moves_steps 0 mvs)"
    unfolding d s(2) by auto
  with s(1) show ?thesis by blast
qed

theorem queue_flush_terminates_witness:
  "queue_pos (demo_sc [100, 200, 300]) < queue_next (demo_sc [100, 200, 300]) \<and>
   (\<exists>r. flush_loop 1000 (demo_sc [100, 200, 300]) = Some r)"
  using queue_flush_terminates [of "demo_sc [100, 200, 300]" 1000] by (simp add: demo_sc_simps)

text \<open>A full array whose second step is far behind the first.\<close>

definition demo_full :: stepcompress where
  "demo_full = demo_sc [1000, 805306000]\<lparr>next_step_clock := 805306868\<rparr>"

lemma demo_full_compress:
  "compress_bisect_add (demo_full\<lparr>next_step_clock := 0\<rparr>) = Some (Some \<lparr>mv_interval = 1000, mv_count = 1, mv_add = 0\<rparr>)"
  unfolding compress_bisect_add_def
  by (subst bisect_loop.simps) (simp add: demo_full_def demo_sc_simps minmax_point_def bisect_avail_def inner_loop.simps
      narrow_interval_def addfactor_of_def i32_def cdiv_def idiv_up_def idiv_down_def note_best_def next_limits_def
      cut_range_def limit_add_def tighten_add_def choose_best_def)

lemma demo_full_check: "check_line (demo_full\<lparr>next_step_clock := 0\<rparr>) \<lparr>mv_interval = 1000, mv_count = 1, mv_add = 0\<rparr> = Some 0"
  by (simp add: check_line_def demo_full_def demo_sc_simps minmax_point_def)

lemma demo_full_ticks: "move_ticks \<lparr>mv_interval = 1000, mv_count = 1, mv_add = 0\<rparr> = Some 0"
  by (simp add: move_ticks_def addfactor_of_def i32_def cdiv_def)

theorem queue_append_far_overflow_witness:
  "queue_next demo_full = length (sc_queue demo_full) \<and> queue_append_far demo_full = Fault"
proof -
  let ?sc = "demo_full\<lparr>next_step_clock := 0\<rparr>"
  have p: "queue_pos ?sc < queue_next ?sc" "last_step_clock ?sc < 501" by (simp_all add: demo_full_def demo_sc_simps)
  obtain sc1 where s: "sc1 = ?sc\<lparr>msg_queue := msg_queue sc1, last_step_clock := 1000,
       last_position := last_position sc1, history_list := history_list sc1\<rparr>"
    and f: "flush_loop 501 ?sc = flush_loop 501 (sc1\<lparr>queue_pos := 1\<rparr>)"
    using flush_one [OF p demo_full_compress demo_full_check demo_full_ticks]
    by (auto simp: demo_full_def demo_sc_simps)
  have sc1: "last_step_clock sc1 = 1000" "queue_next sc1 = 2" "sc_queue sc1 = [1000, 805306000]"
    by (subst s, simp add: demo_full_def demo_sc_simps)+
  let ?sc' = "calc_last_step_print_time (sc1\<lparr>queue_pos := 1\<rparr>)"
  have "flush_loop 501 (sc1\<lparr>queue_pos := 1\<rparr>) = Some (Ok 0 ?sc')" by (subst flush_loop.simps) (simp add: sc1)
  then have r: "queue_flush (next_step_clock demo_full - CLOCK_DIFF_MAX + 1) ?sc = Ok 0 ?sc'"
    using f p by (simp add: queue_flush_def demo_full_def)
  have "queue_next demo_full = length (sc_queue demo_full)" "pend ?sc' \<noteq> []"
    "next_step_clock demo_full < last_step_clock ?sc' + CLOCK_DIFF_MAX"
    by (simp_all add: demo_full_def demo_sc_simps pend_def sc1 calc_last_step_print_time_def Let_def)
  with queue_append_far_overflow [OF _ r] show ?thesis by blast
qed

end
