(* ===== verification/Pollreactor.thy ===== *)
theory Pollreactor
  imports Complex_Main Prelude
begin

text \<open>
  The event loop of the host's background threads
  (\<^verbatim>\<open>src/klippy/chelper/pollreactor.c\<close>): timers and file descriptors with callbacks. The
  structure given to the callbacks as \<^verbatim>\<open>callback_data\<close> holds the reactor, so its record extends
  \<open>pr_host\<close>. The operating system is an input: the clock, and what each \<^verbatim>\<open>poll\<close> reports. Times of
  type \<^verbatim>\<open>double\<close> are real numbers.
\<close>

section \<open>The reactor\<close>

abbreviation (input) PR_NOW :: real where "PR_NOW \<equiv> 0"
abbreviation (input) PR_NEVER :: real where "PR_NEVER \<equiv> 9999999999999999"

record pollreactor =
  pr_next_timer :: real
  pr_waketime :: "real list"     \<comment> \<open>the field \<^verbatim>\<open>waketime\<close> of the array \<^verbatim>\<open>timers\<close>\<close>
  pr_must_exit :: bool

text \<open>\<open>os_now\<close> lists what the calls of \<^verbatim>\<open>get_monotonic\<close> return, \<open>os_now_reads\<close> counts them.\<close>

record pr_host =
  pr :: pollreactor
  os_now :: "nat \<Rightarrow> real"
  os_now_reads :: nat

definition get_monotonic :: "'z pr_host_scheme \<Rightarrow> real \<times> 'z pr_host_scheme" where
  "get_monotonic s = (os_now s (os_now_reads s), s\<lparr>os_now_reads := Suc (os_now_reads s)\<rparr>)"

definition pollreactor_alloc :: "nat \<Rightarrow> pollreactor" where
  "pollreactor_alloc num_timers =
     \<lparr>pr_next_timer = PR_NEVER, pr_waketime = replicate num_timers PR_NEVER, pr_must_exit = False\<rparr>"

definition pollreactor_add_timer :: "nat \<Rightarrow> 'z pr_host_scheme \<Rightarrow> 'z pr_host_scheme" where
  "pollreactor_add_timer pos s =
     s\<lparr>pr := (pr s)\<lparr>pr_waketime := (pr_waketime (pr s))[pos := PR_NEVER]\<rparr>\<rparr>"

definition pollreactor_get_timer :: "nat \<Rightarrow> 'z pr_host_scheme \<Rightarrow> real" where
  "pollreactor_get_timer pos s = pr_waketime (pr s) ! pos"

text \<open>The two lines that keep \<^verbatim>\<open>next_timer\<close> the earliest time seen.\<close>

definition note_waketime :: "real \<Rightarrow> 'z pr_host_scheme \<Rightarrow> 'z pr_host_scheme" where
  "note_waketime t s =
     (if t < pr_next_timer (pr s) then s\<lparr>pr := (pr s)\<lparr>pr_next_timer := t\<rparr>\<rparr> else s)"

definition pollreactor_update_timer :: "nat \<Rightarrow> real \<Rightarrow> 'z pr_host_scheme \<Rightarrow> 'z pr_host_scheme" where
  "pollreactor_update_timer pos waketime s =
     note_waketime waketime (s\<lparr>pr := (pr s)\<lparr>pr_waketime := (pr_waketime (pr s))[pos := waketime]\<rparr>\<rparr>)"

definition pollreactor_do_exit :: "'z pr_host_scheme \<Rightarrow> 'z pr_host_scheme" where
  "pollreactor_do_exit s = s\<lparr>pr := (pr s)\<lparr>pr_must_exit := True\<rparr>\<rparr>"

definition pollreactor_is_exit :: "'z pr_host_scheme \<Rightarrow> bool" where
  "pollreactor_is_exit s = pr_must_exit (pr s)"

section \<open>Running the callbacks\<close>

type_synonym 's timer_callback = "real \<Rightarrow> 's \<Rightarrow> (real, 's) outcome"
type_synonym 's fd_callback = "real \<Rightarrow> 's \<Rightarrow> (unit, 's) outcome"

text \<open>One timer of the loop: run it when it is due, then note its next time.\<close>

definition check_timer ::
  "('z pr_host_scheme) timer_callback \<Rightarrow> nat \<Rightarrow> real \<Rightarrow> bool \<Rightarrow> 'z pr_host_scheme \<Rightarrow>
     (bool, 'z pr_host_scheme) outcome"
where
  "check_timer callback i eventtime busy s =
     (let t = pr_waketime (pr s) ! i in
      if eventtime \<ge> t
      then andthen (callback eventtime s)
             (\<lambda>t s. Ok True (note_waketime t
                (s\<lparr>pr := (pr s)\<lparr>pr_waketime := (pr_waketime (pr s))[i := t]\<rparr>\<rparr>)))
      else Ok busy (note_waketime t s))"

fun check_timers_loop ::
  "('z pr_host_scheme) timer_callback list \<Rightarrow> nat \<Rightarrow> real \<Rightarrow> bool \<Rightarrow> 'z pr_host_scheme \<Rightarrow>
     (bool, 'z pr_host_scheme) outcome"
where
  "check_timers_loop [] i eventtime busy s = Ok busy s"
| "check_timers_loop (cb # cbs) i eventtime busy s =
     andthen (check_timer cb i eventtime busy s)
       (\<lambda>busy s. check_timers_loop cbs (Suc i) eventtime busy s)"

text \<open>The result is the sleep time in milliseconds.\<close>

definition pollreactor_check_timers ::
  "('z pr_host_scheme) timer_callback list \<Rightarrow> real \<Rightarrow> bool \<Rightarrow> 'z pr_host_scheme \<Rightarrow>
     (int, 'z pr_host_scheme) outcome"
where
  "pollreactor_check_timers timers eventtime busy s =
     andthen
       (if eventtime \<ge> pr_next_timer (pr s)
        then check_timers_loop timers 0 eventtime busy (s\<lparr>pr := (pr s)\<lparr>pr_next_timer := PR_NEVER\<rparr>\<rparr>)
        else Ok busy s)
       (\<lambda>busy s.
          if busy then Ok 0 s
          else let timeout = \<lceil>(pr_next_timer (pr s) - eventtime) * 1000\<rceil>
               in Ok (if timeout < 1 then 1 else if timeout > 1000 then 1000 else timeout) s)"

text \<open>What a call of \<^verbatim>\<open>poll\<close> reports: the positions with events, or an error.\<close>

datatype poll_result = Poll_ready "nat list" | Poll_error

fun run_fd_callbacks ::
  "('z pr_host_scheme) fd_callback list \<Rightarrow> nat list \<Rightarrow> real \<Rightarrow> 'z pr_host_scheme \<Rightarrow>
     (unit, 'z pr_host_scheme) outcome"
where
  "run_fd_callbacks fds [] eventtime s = Ok () s"
| "run_fd_callbacks fds (i # is) eventtime s =
     andthen ((fds ! i) eventtime s) (\<lambda>_ s. run_fd_callbacks fds is eventtime s)"

text \<open>
  The loop of \<^verbatim>\<open>pollreactor_run\<close> for a given sequence of \<^verbatim>\<open>poll\<close> results; it also stops when the
  sequence is used up. The result pairs the event time and \<^verbatim>\<open>busy\<close>.
\<close>

fun pollreactor_loop ::
  "('z pr_host_scheme) timer_callback list \<Rightarrow> ('z pr_host_scheme) fd_callback list \<Rightarrow>
     poll_result list \<Rightarrow> real \<Rightarrow> bool \<Rightarrow> 'z pr_host_scheme \<Rightarrow> (real \<times> bool, 'z pr_host_scheme) outcome"
where
  "pollreactor_loop timers fds [] eventtime busy s = Ok (eventtime, busy) s"
| "pollreactor_loop timers fds (p # ps) eventtime busy s =
     (if pr_must_exit (pr s) then Ok (eventtime, busy) s
      else andthen (pollreactor_check_timers timers eventtime busy s)
        (\<lambda>timeout s.
           let (eventtime, s) = get_monotonic s in
           case p of
             Poll_error \<Rightarrow> pollreactor_loop timers fds ps eventtime False (pollreactor_do_exit s)
           | Poll_ready [] \<Rightarrow> pollreactor_loop timers fds ps eventtime False s
           | Poll_ready is \<Rightarrow>
               andthen (run_fd_callbacks fds is eventtime s)
                 (\<lambda>_ s. pollreactor_loop timers fds ps eventtime True s)))"

definition pollreactor_run ::
  "('z pr_host_scheme) timer_callback list \<Rightarrow> ('z pr_host_scheme) fd_callback list \<Rightarrow>
     poll_result list \<Rightarrow> 'z pr_host_scheme \<Rightarrow> (real \<times> bool, 'z pr_host_scheme) outcome"
where
  "pollreactor_run timers fds polls s =
     (let (eventtime, s) = get_monotonic s in pollreactor_loop timers fds polls eventtime True s)"

section \<open>No timer is missed\<close>

text \<open>
  The loop looks at the timers only when \<^verbatim>\<open>next_timer\<close> is due, so \<^verbatim>\<open>next_timer\<close> must never be later
  than a timer.
\<close>

definition timers_seen :: "pollreactor \<Rightarrow> bool" where
  "timers_seen p \<longleftrightarrow> (\<forall>k<length (pr_waketime p). pr_next_timer p \<le> pr_waketime p ! k)"

text \<open>What a callback may do to the reactor: every timer it changes is noted.\<close>

definition pr_noted :: "pollreactor \<Rightarrow> pollreactor \<Rightarrow> bool" where
  "pr_noted p p' \<longleftrightarrow>
     length (pr_waketime p') = length (pr_waketime p) \<and> pr_next_timer p' \<le> pr_next_timer p \<and>
     (\<forall>k<length (pr_waketime p).
        pr_waketime p' ! k = pr_waketime p ! k \<or> pr_next_timer p' \<le> pr_waketime p' ! k)"

lemma pr_noted_refl [simp, intro]: "pr_noted p p"
  by (simp add: pr_noted_def)

lemma pr_noted_trans [trans]: "pr_noted p q \<Longrightarrow> pr_noted q r \<Longrightarrow> pr_noted p r"
  unfolding pr_noted_def by (metis order_trans)

lemma pr_noted_update: "pr_noted (pr s) (pr (pollreactor_update_timer pos t s))"
  by (auto simp: pr_noted_def pollreactor_update_timer_def note_waketime_def nth_update)

lemma pr_noted_exit: "pr_noted (pr s) (pr (pollreactor_do_exit s))"
  by (simp add: pr_noted_def pollreactor_do_exit_def)

lemma timers_seen_noted: "timers_seen p \<Longrightarrow> pr_noted p p' \<Longrightarrow> timers_seen p'"
  unfolding timers_seen_def pr_noted_def by (fastforce dest: order_trans)

text \<open>The same for the timers before position \<open>i\<close>.\<close>

definition seen_below :: "nat \<Rightarrow> pollreactor \<Rightarrow> bool" where
  "seen_below i p \<longleftrightarrow> (\<forall>k<length (pr_waketime p). k < i \<longrightarrow> pr_next_timer p \<le> pr_waketime p ! k)"

lemma seen_below_noted: "seen_below i p \<Longrightarrow> pr_noted p p' \<Longrightarrow> seen_below i p'"
  unfolding seen_below_def pr_noted_def by (fastforce dest: order_trans)

locale reactor_client =
  fixes timers :: "('z pr_host_scheme) timer_callback list"
    and fds :: "('z pr_host_scheme) fd_callback list"
  assumes timer_noted: "cb \<in> set timers \<Longrightarrow> cb t s = Ok r s' \<Longrightarrow> pr_noted (pr s) (pr s')"
    and fd_noted: "fd \<in> set fds \<Longrightarrow> fd t s = Ok u s' \<Longrightarrow> pr_noted (pr s) (pr s')"
begin

lemma check_timer_seen:
  assumes "cb \<in> set timers" "check_timer cb i et busy s = Ok b s'" "seen_below i (pr s)"
  shows "seen_below (Suc i) (pr s') \<and> length (pr_waketime (pr s')) = length (pr_waketime (pr s))"
proof (cases "et \<ge> pr_waketime (pr s) ! i")
  case True
  with assms(2) obtain t s1 where cb: "cb et s = Ok t s1"
    and s': "s' = note_waketime t (s1\<lparr>pr := (pr s1)\<lparr>pr_waketime := (pr_waketime (pr s1))[i := t]\<rparr>\<rparr>)"
    by (auto simp: check_timer_def Let_def andthen_Ok_iff)
  have n: "pr_noted (pr s) (pr s1)" using timer_noted [OF assms(1) cb] .
  from seen_below_noted [OF assms(3) this] n show ?thesis
    by (auto simp: s' seen_below_def note_waketime_def nth_list_update less_Suc_eq pr_noted_def)
next
  case False
  with assms(2) have s': "s' = note_waketime (pr_waketime (pr s) ! i) s"
    by (simp add: check_timer_def)
  show ?thesis
    using assms(3) order_trans [of "pr_waketime (pr s) ! i" "pr_next_timer (pr s)"]
    by (auto simp: s' seen_below_def note_waketime_def less_Suc_eq)
qed

lemma check_timers_loop_seen:
  assumes "set cbs \<subseteq> set timers" "check_timers_loop cbs i et busy s = Ok b s'" "seen_below i (pr s)"
  shows "seen_below (i + length cbs) (pr s') \<and> length (pr_waketime (pr s')) = length (pr_waketime (pr s))"
  using assms
proof (induction cbs arbitrary: i busy s)
  case Nil
  then show ?case by simp
next
  case (Cons cb cbs)
  then obtain b1 s1 where c: "check_timer cb i et busy s = Ok b1 s1"
    and l: "check_timers_loop cbs (Suc i) et b1 s1 = Ok b s'"
    by (auto simp: andthen_Ok_iff)
  from check_timer_seen [OF _ c] Cons.prems have "seen_below (Suc i) (pr s1)"
    "length (pr_waketime (pr s1)) = length (pr_waketime (pr s))" by auto
  with Cons.IH [OF _ l] Cons.prems(1) show ?case by auto
qed

lemma check_timers_seen:
  assumes "pollreactor_check_timers timers et busy s = Ok n s'" "timers_seen (pr s)"
    and "length (pr_waketime (pr s)) = length timers"
  shows "timers_seen (pr s') \<and> length (pr_waketime (pr s')) = length timers"
proof -
  from assms(1) obtain b where
    "(if et \<ge> pr_next_timer (pr s)
      then check_timers_loop timers 0 et busy (s\<lparr>pr := (pr s)\<lparr>pr_next_timer := PR_NEVER\<rparr>\<rparr>)
      else Ok busy s) = Ok b s'"
    by (auto simp: pollreactor_check_timers_def andthen_Ok_iff Let_def split: if_splits)
  with check_timers_loop_seen [of timers 0 et busy "s\<lparr>pr := (pr s)\<lparr>pr_next_timer := PR_NEVER\<rparr>\<rparr>" b s'] assms(2,3)
  show ?thesis by (auto simp: seen_below_def timers_seen_def split: if_splits)
qed

lemma fd_callbacks_noted:
  assumes "run_fd_callbacks fds is et s = Ok u s'" "set is \<subseteq> {..<length fds}"
  shows "pr_noted (pr s) (pr s')"
  using assms
proof (induction "is" arbitrary: s)
  case (Cons i "is")
  then obtain s1 where f: "(fds ! i) et s = Ok () s1" "run_fd_callbacks fds is et s1 = Ok u s'"
    by (auto simp: andthen_Ok_iff)
  have "pr_noted (pr s) (pr s1)" using fd_noted [OF nth_mem f(1)] Cons.prems(2) by simp
  then show ?case using pr_noted_trans Cons.IH [OF f(2)] Cons.prems(2) by simp
qed simp

lemma get_monotonic_pr: "pr (snd (get_monotonic s)) = pr s"
  by (simp add: get_monotonic_def)

lemma run_loop_seen:
  assumes "pollreactor_loop timers fds polls et busy s = Ok r s'" "timers_seen (pr s)"
    and "length (pr_waketime (pr s)) = length timers"
    and "\<And>is. Poll_ready is \<in> set polls \<Longrightarrow> set is \<subseteq> {..<length fds}"
  shows "timers_seen (pr s') \<and> length (pr_waketime (pr s')) = length timers"
  using assms
proof (induction polls arbitrary: et busy s)
  case (Cons p ps)
  show ?case
  proof (cases "pr_must_exit (pr s)")
    case False
    with Cons.prems(1) obtain n s1 where c: "pollreactor_check_timers timers et busy s = Ok n s1"
      and k: "(let (et, s) = get_monotonic s1 in
           case p of
             Poll_error \<Rightarrow> pollreactor_loop timers fds ps et False (pollreactor_do_exit s)
           | Poll_ready [] \<Rightarrow> pollreactor_loop timers fds ps et False s
           | Poll_ready is \<Rightarrow> andthen (run_fd_callbacks fds is et s)
                 (\<lambda>_ s. pollreactor_loop timers fds ps et True s)) = Ok r s'"
      by (auto simp: andthen_Ok_iff)
    obtain et2 s2 where g: "get_monotonic s1 = (et2, s2)" by (cases "get_monotonic s1")
    have s1: "timers_seen (pr s2)" "length (pr_waketime (pr s2)) = length timers"
      using check_timers_seen [OF c Cons.prems(2,3)] get_monotonic_pr [of s1] g by simp_all
    have IH: "timers_seen (pr s') \<and> length (pr_waketime (pr s')) = length timers"
      if "pollreactor_loop timers fds ps t b s3 = Ok r s'" "pr_noted (pr s2) (pr s3)" for t b s3
      using Cons.IH [OF that(1)] timers_seen_noted [OF s1(1) that(2)] that(2) s1(2) Cons.prems(4)
      by (auto simp: pr_noted_def)
    show ?thesis
    proof (cases p)
      case Poll_error
      with k g IH pr_noted_exit [of s2] show ?thesis by auto
    next
      case (Poll_ready "is")
      show ?thesis
      proof (cases "is")
        case Nil
        with k g Poll_ready IH show ?thesis by auto
      next
        case (Cons i js)
        with k g Poll_ready obtain s3 where r: "run_fd_callbacks fds is et2 s2 = Ok () s3"
          "pollreactor_loop timers fds ps et2 True s3 = Ok r s'"
          by (auto simp: andthen_Ok_iff)
        have "pr_noted (pr s2) (pr s3)"
          by (rule fd_callbacks_noted [OF r(1)]) (use Cons.prems(4) Poll_ready in auto)
        then show ?thesis using IH [OF r(2)] by simp
      qed
    qed
  qed (use Cons.prems in auto)
qed simp

end

text \<open>The thread sleeps at most a second, and never past the next timer by a millisecond or more.\<close>

lemma check_timers_sleep:
  assumes "pollreactor_check_timers timers et busy s = Ok n s'"
  shows "0 \<le> n \<and> n \<le> 1000 \<and> (n = 0 \<or> n = 1 \<or> et + (real_of_int n - 1) / 1000 < pr_next_timer (pr s'))"
proof -
  define f where "f = (\<lambda>busy (s :: 'a pr_host_scheme).
      if busy then Ok 0 s
      else let timeout = \<lceil>(pr_next_timer (pr s) - et) * 1000\<rceil>
           in Ok (if timeout < 1 then 1 else if timeout > 1000 then 1000 else timeout) s)"
  from assms obtain b s1 where "f b s1 = Ok n s'"
    unfolding pollreactor_check_timers_def f_def [symmetric] andthen_Ok_iff by blast
  then have n: "n = (if b then 0 else
      (if \<lceil>(pr_next_timer (pr s') - et) * 1000\<rceil> < 1 then 1
       else if \<lceil>(pr_next_timer (pr s') - et) * 1000\<rceil> > 1000 then 1000
       else \<lceil>(pr_next_timer (pr s') - et) * 1000\<rceil>))"
    by (auto simp: f_def Let_def split: if_splits)
  define c where "c = \<lceil>(pr_next_timer (pr s') - et) * 1000\<rceil>"
  have "real_of_int c < (pr_next_timer (pr s') - et) * 1000 + 1" unfolding c_def by linarith
  moreover have "n = 0 \<or> n = 1 \<or> (1 \<le> n \<and> n \<le> 1000 \<and> n \<le> c)"
    unfolding n c_def [symmetric] by auto
  ultimately show ?thesis by (auto simp: field_simps intro: less_le_trans)
qed

end
