(* ===== verification/Serialqueue.thy ===== *)
theory Serialqueue
  imports Msgblock Pollreactor
begin

text \<open>
  The host's end of the serial protocol (\<^verbatim>\<open>src/klippy/chelper/serialqueue.c\<close>): queues of
  commands ordered by clock, blocks of up to 64 bytes with a window of 12 unacknowledged ones,
  retransmission, and the reading of blocks from the wire. A list of messages is kept from head to
  tail. A \<^verbatim>\<open>struct command_queue\<close> is an index into \<open>command_queues\<close>, and the lists
  \<^verbatim>\<open>ready_queues\<close> and \<^verbatim>\<open>upcoming_queues\<close> hold such indexes.

  The background thread runs one callback at a time under \<^verbatim>\<open>sq->lock\<close>. The other threads that send
  only need \<^verbatim>\<open>transmit_requests.lock\<close>, so their sends can come between two steps of a callback:
  \<open>other_sends\<close> lists the batches that are sent before each of the next acquisitions of that lock by
  the background thread. The operating system is an input as well: the clock, the bytes read, and
  whether a write succeeds.
\<close>

section \<open>State\<close>

datatype serial_type = SQT_UART | SQT_CAN | SQT_DEBUGFILE

abbreviation (input) MAX_CLOCK :: u64 where "MAX_CLOCK \<equiv> 0x7fffffffffffffff"
abbreviation (input) BACKGROUND_PRIORITY_CLOCK :: u64 where "BACKGROUND_PRIORITY_CLOCK \<equiv> 0x7fffffff00000000"
abbreviation (input) SQPT_RETRANSMIT :: nat where "SQPT_RETRANSMIT \<equiv> 0"
abbreviation (input) SQPT_COMMAND :: nat where "SQPT_COMMAND \<equiv> 1"
abbreviation (input) MIN_RTO :: real where "MIN_RTO \<equiv> 25 / 1000"
abbreviation (input) MAX_RTO :: real where "MAX_RTO \<equiv> 5"
abbreviation (input) MAX_PENDING_BLOCKS :: nat where "MAX_PENDING_BLOCKS \<equiv> 12"
abbreviation (input) MIN_REQTIME_DELTA :: real where "MIN_REQTIME_DELTA \<equiv> 1 / 10"
abbreviation (input) MIN_BACKGROUND_DELTA :: real where "MIN_BACKGROUND_DELTA \<equiv> 5 / 1000"
abbreviation (input) DEBUG_QUEUE_SENT :: nat where "DEBUG_QUEUE_SENT \<equiv> 100"
abbreviation (input) DEBUG_QUEUE_RECEIVE :: nat where "DEBUG_QUEUE_RECEIVE \<equiv> 100"
abbreviation (input) INPUT_BUF_SIZE :: nat where "INPUT_BUF_SIZE \<equiv> 4096"

record command_queue =
  cq_ready :: "queue_message list"
  cq_upcoming :: "queue_message list"

record fastreader =
  fr_id :: nat
  fr_prefix :: "u8 list"
  fr_prefix_len :: nat

text \<open>What is handed to the operating system for the serial file descriptor.\<close>

datatype fd_op = Fd_write "u8 list" | Fd_can_write u32 "u8 list" | Fd_flush

type_synonym send_request = "nat \<times> queue_message list"

record serialqueue = pr_host +
  serial_fd_type :: serial_type
  client_id :: u32
  input_buf :: "u8 list"
  need_sync :: u8
  input_pos :: nat
  \<comment> \<open>\<^verbatim>\<open>struct receiver\<close>\<close>
  rc_waiting :: bool
  rc_queue :: "queue_message list"
  rc_old_receive :: "queue_message list"
  rc_signals :: nat                    \<comment> \<open>calls of \<^verbatim>\<open>pthread_cond_signal\<close>\<close>
  \<comment> \<open>\<^verbatim>\<open>struct transmit_requests\<close>\<close>
  upcoming_queues :: "nat list"
  upcoming_bytes :: int
  need_kick_clock :: u64
  min_release_clock :: u64
  pipe_kicks :: nat                    \<comment> \<open>bytes in the pipe that wakes the background thread\<close>
  \<comment> \<open>baud and clock tracking\<close>
  receive_window :: int
  bittime_adjust :: real
  idle_time :: real
  sq_ce :: clock_estimate
  last_receive_sent_time :: real
  \<comment> \<open>retransmit support\<close>
  send_seq :: u64
  receive_seq :: u64
  ignore_nak_seq :: u64
  last_ack_seq :: u64
  retransmit_seq :: u64
  rtt_sample_seq :: u64
  sent_queue :: "queue_message list"
  srtt :: real
  rttvar :: real
  rto :: real
  \<comment> \<open>pending transmission message queues\<close>
  ready_queues :: "nat list"
  ready_bytes :: int
  need_ack_bytes :: int
  last_ack_bytes :: int
  notify_queue :: "queue_message list"
  last_write_fail_time :: real
  fast_readers :: "fastreader list"
  old_sent :: "queue_message list"
  bytes_write :: u32
  bytes_read :: u32
  bytes_retransmit :: u32
  bytes_invalid :: u32
  \<comment> \<open>the memory of the command queues\<close>
  command_queues :: "nat \<Rightarrow> command_queue"
  \<comment> \<open>the environment\<close>
  other_sends :: "send_request list list"
  fd_ok :: "nat \<Rightarrow> bool"                \<comment> \<open>whether the write number \<open>n\<close> succeeds\<close>
  fd_log :: "fd_op list"
  fr_calls :: "(nat \<times> real \<times> u8 list) list"

section \<open>Small helpers\<close>

definition debug_queue_alloc :: "queue_message list \<Rightarrow> nat \<Rightarrow> queue_message list" where
  "debug_queue_alloc queue count = replicate count message_alloc @ queue"

text \<open>The message that leaves the queue, and the queue.\<close>

definition debug_queue_shift :: "queue_message list \<Rightarrow> queue_message \<Rightarrow> queue_message \<times> queue_message list" where
  "debug_queue_shift queue qm = (let queue = queue @ [qm] in (hd queue, tl queue))"

definition debug_queue_add :: "queue_message list \<Rightarrow> queue_message \<Rightarrow> queue_message list" where
  "debug_queue_add queue qm = snd (debug_queue_shift queue qm)"

definition receive_append_wake :: "queue_message list \<Rightarrow> serialqueue \<Rightarrow> serialqueue" where
  "receive_append_wake msgs sq =
     (let sq = sq\<lparr>rc_queue := rc_queue sq @ msgs\<rparr> in
      if rc_waiting sq then sq\<lparr>rc_waiting := False, rc_signals := Suc (rc_signals sq)\<rparr> else sq)"

definition kick_bg_thread :: "serialqueue \<Rightarrow> serialqueue" where
  "kick_bg_thread sq = sq\<lparr>pipe_kicks := Suc (pipe_kicks sq)\<rparr>"

text \<open>\<^verbatim>\<open>CANBUS_PACKET_BITS\<close> is 47 and \<^verbatim>\<open>CANBUS_IFS_BITS\<close> is 4.\<close>

definition calculate_bittime :: "serialqueue \<Rightarrow> u32 \<Rightarrow> real" where
  "calculate_bittime sq bytes =
     (if serial_fd_type sq = SQT_CAN
      then let pkts = (bytes + 7) div 8; bits = bytes * 8 + pkts * 47 - 4
           in bittime_adjust sq * real (unat bits)
      else bittime_adjust sq * real (unat bytes))"

definition sum_len :: "queue_message list \<Rightarrow> int" where
  "sum_len qms = sum_list (map (\<lambda>qm. int (qm_len qm)) qms)"

section \<open>Reading\<close>

text \<open>The loop of \<^verbatim>\<open>update_receive_seq\<close> over the sent queue.\<close>

fun ack_loop :: "u64 \<Rightarrow> u64 \<Rightarrow> queue_message list \<Rightarrow> serialqueue \<Rightarrow> serialqueue" where
  "ack_loop rseq sent_seq [] sq = sq\<lparr>send_seq := rseq, last_receive_sent_time := 0\<rparr>"
| "ack_loop rseq sent_seq (sent # rest) sq =
     (let sq = sq\<lparr>need_ack_bytes := need_ack_bytes sq - int (qm_len sent), sent_queue := rest,
                  old_sent := debug_queue_add (old_sent sq) sent\<rparr>;
          sent_seq = sent_seq + 1
      in if rseq = sent_seq
         then sq\<lparr>last_receive_sent_time := receive_time sent, last_ack_bytes := int (qm_len sent)\<rparr>
         else ack_loop rseq sent_seq rest sq)"

text \<open>The round trip estimate of RFC 6298.\<close>

definition update_rto :: "real \<Rightarrow> serialqueue \<Rightarrow> serialqueue" where
  "update_rto eventtime sq =
     (let delta = eventtime - last_receive_sent_time sq;
          sq = (if srtt sq = 0
                then sq\<lparr>rttvar := delta / 2, srtt := delta * 10\<rparr>
                else sq\<lparr>rttvar := (3 * rttvar sq + \<bar>srtt sq - delta\<bar>) / 4,
                        srtt := (7 * srtt sq + delta) / 8\<rparr>);
          rttvar4 = rttvar sq * 4;
          rttvar4 = (if rttvar4 < 1 / 1000 then 1 / 1000 else rttvar4);
          r = srtt sq + rttvar4
      in sq\<lparr>rto := (if r < MIN_RTO then MIN_RTO else if r > MAX_RTO then MAX_RTO else r),
            rtt_sample_seq := 0\<rparr>)"

definition update_receive_seq :: "real \<Rightarrow> u64 \<Rightarrow> serialqueue \<Rightarrow> serialqueue" where
  "update_receive_seq eventtime rseq sq =
     (let sq = ack_loop rseq (receive_seq sq) (sent_queue sq) sq;
          sq = pollreactor_update_timer SQPT_COMMAND PR_NOW (sq\<lparr>receive_seq := rseq\<rparr>);
          sq = (if rtt_sample_seq sq \<noteq> 0 \<and> rseq > rtt_sample_seq sq \<and> last_receive_sent_time sq \<noteq> 0
                then update_rto eventtime sq else sq)
      in case sent_queue sq of
           [] \<Rightarrow> pollreactor_update_timer SQPT_RETRANSMIT PR_NEVER sq
         | sent # _ \<Rightarrow>
             pollreactor_update_timer SQPT_RETRANSMIT
               (eventtime + rto sq + calculate_bittime sq (of_nat (qm_len sent))) sq)"

text \<open>The messages of the notify queue whose block is acknowledged, and the rest of the queue.\<close>

fun notify_loop :: "u64 \<Rightarrow> real \<Rightarrow> real \<Rightarrow> queue_message list \<Rightarrow> queue_message list \<times> queue_message list" where
  "notify_loop wake_seq sent eventtime [] = ([], [])"
| "notify_loop wake_seq sent eventtime (qm # qms) =
     (if req_clock qm > wake_seq then ([], qm # qms)
      else let (received, rest) = notify_loop wake_seq sent eventtime qms
           in (qm\<lparr>qm_len := 0, sent_time := sent, receive_time := eventtime\<rparr> # received, rest))"

text \<open>The first fast reader whose prefix the message has is called.\<close>

definition fastreader_matches :: "u8 list \<Rightarrow> nat \<Rightarrow> fastreader \<Rightarrow> bool" where
  "fastreader_matches buf len fr \<longleftrightarrow>
     \<not> len < fr_prefix_len fr + MESSAGE_MIN \<and>
     take (fr_prefix_len fr) (drop MESSAGE_HEADER_SIZE buf) = take (fr_prefix_len fr) (fr_prefix fr)"

fun dispatch_fastreader :: "real \<Rightarrow> nat \<Rightarrow> fastreader list \<Rightarrow> serialqueue \<Rightarrow> serialqueue" where
  "dispatch_fastreader eventtime len [] sq = sq"
| "dispatch_fastreader eventtime len (fr # frs) sq =
     (if fastreader_matches (input_buf sq) len fr
      then sq\<lparr>fr_calls := fr_calls sq @ [(fr_id fr, eventtime, take len (input_buf sq))]\<rparr>
      else dispatch_fastreader eventtime len frs sq)"

text \<open>The sequence number of a received block, extended to 64 bits.\<close>

definition receive_rseq :: "serialqueue \<Rightarrow> u64" where
  "receive_rseq sq =
     (let rseq_delta = ucast ((ucast (input_buf sq ! 1) - receive_seq sq) AND 0x0f) :: u32
      in receive_seq sq + ucast rseq_delta)"

text \<open>The part of \<^verbatim>\<open>handle_message\<close> under \<^verbatim>\<open>Process message\<close>: an ack or a message to receive.\<close>

definition process_message :: "u64 \<Rightarrow> nat \<Rightarrow> serialqueue \<Rightarrow> (queue_message list, serialqueue) outcome" where
  "process_message rseq len sq =
     (if len = MESSAGE_MIN
      then if last_ack_seq sq < rseq then Ok [] (sq\<lparr>last_ack_seq := rseq\<rparr>)
           else if rseq > ignore_nak_seq sq \<and> sent_queue sq \<noteq> []
           then Ok [] (pollreactor_update_timer SQPT_RETRANSMIT PR_NOW sq)
           else Ok [] sq
      else case message_fill (input_buf sq) len of
             None \<Rightarrow> Fault
           | Some qm \<Rightarrow>
               let t = (if rseq > retransmit_seq sq then last_receive_sent_time sq else 0);
                   (now, sq) = get_monotonic sq
               in Ok [qm\<lparr>sent_time := t, receive_time := now - calculate_bittime sq (of_nat len)\<rparr>] sq)"

definition handle_message :: "real \<Rightarrow> nat \<Rightarrow> serialqueue \<Rightarrow> (unit, serialqueue) outcome" where
  "handle_message eventtime len sq =
     (let rseq = receive_rseq sq in
      if rseq \<noteq> receive_seq sq \<and> rseq > send_seq sq \<and> receive_seq sq \<noteq> 1
      then Ok () (sq\<lparr>bytes_invalid := bytes_invalid sq + of_nat len\<rparr>)
      else let sq = (if rseq \<noteq> receive_seq sq then update_receive_seq eventtime rseq sq else sq);
               sq = sq\<lparr>bytes_read := bytes_read sq + of_nat len\<rparr>;
               wake_seq = rseq - 1 - (if len > MESSAGE_MIN then 1 else 0);
               (received, rest) = notify_loop wake_seq (last_receive_sent_time sq) eventtime (notify_queue sq)
           in andthen (process_message rseq len (sq\<lparr>notify_queue := rest\<rparr>))
                (\<lambda>data sq.
                   let received = received @ data;
                       sq = (if received \<noteq> [] then receive_append_wake received sq else sq)
                   in Ok () (dispatch_fastreader eventtime len (fast_readers sq) sq)))"

lemma receive_append_wake_input [simp]:
  "input_pos (receive_append_wake msgs sq) = input_pos sq"
  "input_buf (receive_append_wake msgs sq) = input_buf sq"
  by (simp_all add: receive_append_wake_def Let_def)

lemma update_timer_input [simp]:
  "input_pos (pollreactor_update_timer p t sq) = input_pos sq"
  "input_buf (pollreactor_update_timer p t sq) = input_buf sq"
  by (simp_all add: pollreactor_update_timer_def note_waketime_def)

lemma ack_loop_input [simp]:
  "input_pos (ack_loop rseq sent_seq qms sq) = input_pos sq"
  "input_buf (ack_loop rseq sent_seq qms sq) = input_buf sq"
  by (induction qms arbitrary: sent_seq sq) (simp_all add: Let_def)

lemma update_receive_seq_input [simp]:
  "input_pos (update_receive_seq t rseq sq) = input_pos sq"
  "input_buf (update_receive_seq t rseq sq) = input_buf sq"
  by (auto simp: update_receive_seq_def update_rto_def Let_def split: list.splits)

lemma dispatch_fastreader_input [simp]:
  "input_pos (dispatch_fastreader t len frs sq) = input_pos sq"
  "input_buf (dispatch_fastreader t len frs sq) = input_buf sq"
  by (induction frs) simp_all

lemma process_message_input:
  assumes "process_message rseq len sq = Ok d sq'"
  shows "input_pos sq' = input_pos sq" "input_buf sq' = input_buf sq"
  using assms
  by (auto simp: process_message_def Let_def get_monotonic_def split: if_splits option.splits)

lemma handle_message_input:
  assumes "handle_message t len sq = Ok u sq'"
  shows "input_pos sq' = input_pos sq" "input_buf sq' = input_buf sq"
  using assms
  by (auto simp: handle_message_def Let_def andthen_Ok_iff split: if_splits prod.splits
      dest: process_message_input)

text \<open>The loop of \<^verbatim>\<open>input_event\<close> over the blocks in the input buffer.\<close>

definition input_shift :: "nat \<Rightarrow> serialqueue \<Rightarrow> serialqueue" where
  "input_shift len sq =
     (let pos = input_pos sq - len
      in sq\<lparr>input_pos := pos, input_buf := take pos (drop len (input_buf sq)) @ drop pos (input_buf sq)\<rparr>)"

function input_loop :: "real \<Rightarrow> serialqueue \<Rightarrow> (unit, serialqueue) outcome" where
  "input_loop eventtime sq =
     (let (len, ns) = msgblock_check (need_sync sq) (input_buf sq) (input_pos sq);
          sq = sq\<lparr>need_sync := ns\<rparr>
      in if len = 0 then Ok () sq
         else if len > 0
         then andthen (handle_message eventtime (nat len) sq)
                (\<lambda>_ sq. input_loop eventtime (input_shift (nat len) sq))
         else input_loop eventtime
                (input_shift (nat (- len)) (sq\<lparr>bytes_invalid := bytes_invalid sq + of_int (- len)\<rparr>)))"
  by pat_completeness auto
termination
proof (relation "measure (\<lambda>(t, sq). input_pos sq)", goal_cases)
  case (2 t sq p len ns sq1 u sq2)
  then have "\<bar>len\<bar> \<le> int (input_pos sq)" "input_pos sq2 = input_pos sq"
    using msgblock_check_bounds [of "need_sync sq" "input_buf sq" "input_pos sq" len ns]
      handle_message_input(1) [of t "nat len" sq1 _ sq2] by auto
  with 2 show ?case by (auto simp: input_shift_def Let_def)
next
  case (3 t sq p len ns sq1)
  then have "\<bar>len\<bar> \<le> int (input_pos sq)"
    using msgblock_check_bounds [of "need_sync sq" "input_buf sq" "input_pos sq" len ns] by auto
  with 3 show ?case by (auto simp: input_shift_def Let_def)
qed simp

declare input_loop.simps [simp del]

text \<open>What \<^verbatim>\<open>read\<close> returns: nothing (an error or the end of the file), bytes, or a CAN frame.\<close>

datatype read_result = Read_fail | Read_bytes "u8 list" | Read_can u32 "u8 list"

definition input_event :: "read_result \<Rightarrow> real \<Rightarrow> serialqueue \<Rightarrow> (unit, serialqueue) outcome" where
  "input_event rd eventtime sq =
     (case rd of
        Read_fail \<Rightarrow> Ok () (pollreactor_do_exit sq)
      | Read_can can_id data \<Rightarrow>
          if can_id \<noteq> client_id sq + 1 then Ok () sq
          else (case write_at (input_buf sq) (input_pos sq) data of
                  None \<Rightarrow> Fault
                | Some buf \<Rightarrow>
                    input_loop eventtime (sq\<lparr>input_buf := buf, input_pos := input_pos sq + length data\<rparr>))
      | Read_bytes data \<Rightarrow>
          (case write_at (input_buf sq) (input_pos sq) data of
             None \<Rightarrow> Fault
           | Some buf \<Rightarrow>
               input_loop eventtime (sq\<lparr>input_buf := buf, input_pos := input_pos sq + length data\<rparr>)))"

definition kick_event :: "real \<Rightarrow> serialqueue \<Rightarrow> (unit, serialqueue) outcome" where
  "kick_event eventtime sq =
     Ok () (pollreactor_update_timer SQPT_COMMAND PR_NOW (sq\<lparr>pipe_kicks := pipe_kicks sq - 4096\<rparr>))"

section \<open>Writing\<close>

definition fd_emit :: "fd_op \<Rightarrow> serialqueue \<Rightarrow> bool \<times> serialqueue" where
  "fd_emit e sq = (fd_ok sq (length (fd_log sq)), sq\<lparr>fd_log := fd_log sq @ [e]\<rparr>)"

text \<open>The loop over the CAN frames of a buffer.\<close>

function can_write_loop :: "u8 list \<Rightarrow> serialqueue \<Rightarrow> serialqueue" where
  "can_write_loop buf sq =
     (if buf = [] then sq
      else let (ok, sq) = fd_emit (Fd_can_write (client_id sq) (take 8 buf)) sq in
        if \<not> ok
        then let (curtime, sq) = get_monotonic sq in
             if last_write_fail_time sq = 0 then sq\<lparr>last_write_fail_time := curtime\<rparr>
             else if curtime > last_write_fail_time sq + 10 then pollreactor_do_exit sq
             else sq
        else can_write_loop (drop 8 buf) (sq\<lparr>last_write_fail_time := 0\<rparr>))"
  by pat_completeness auto
termination by (relation "measure (\<lambda>(buf, sq). length buf)") auto

declare can_write_loop.simps [simp del]

definition do_write :: "u8 list \<Rightarrow> serialqueue \<Rightarrow> serialqueue" where
  "do_write buf sq =
     (if serial_fd_type sq \<noteq> SQT_CAN then snd (fd_emit (Fd_write buf) sq)
      else can_write_loop buf sq)"

text \<open>
  The loop of \<^verbatim>\<open>retransmit_event\<close> that copies the sent queue to the local array:
  the array, \<^verbatim>\<open>buflen\<close> and \<^verbatim>\<open>first_buflen\<close>; \<open>None\<close> is a write outside the array.
\<close>

fun retransmit_copy :: "queue_message list \<Rightarrow> u8 list \<times> nat \<times> nat \<Rightarrow> (u8 list \<times> nat \<times> nat) option" where
  "retransmit_copy [] r = Some r"
| "retransmit_copy (qm # qms) (buf, buflen, first_buflen) =
     (case write_at buf buflen (qm_bytes qm) of
        None \<Rightarrow> None
      | Some buf \<Rightarrow>
          retransmit_copy qms
            (buf, buflen + qm_len qm, if first_buflen = 0 then qm_len qm + 1 else first_buflen))"

definition retransmit_event :: "real \<Rightarrow> serialqueue \<Rightarrow> (real, serialqueue) outcome" where
  "retransmit_event eventtime sq =
     (let sq = (if serial_fd_type sq = SQT_UART then snd (fd_emit Fd_flush sq) else sq) in
      case retransmit_copy (sent_queue sq)
             (MESSAGE_SYNC # replicate (MESSAGE_MAX * MAX_PENDING_BLOCKS) 0, 1, 0) of
        None \<Rightarrow> Fault
      | Some (buf, buflen, first_buflen) \<Rightarrow>
          let sq = do_write (take buflen buf) sq;
              sq = sq\<lparr>bytes_retransmit := bytes_retransmit sq + of_nat buflen\<rparr>;
              sq = (if pollreactor_get_timer SQPT_RETRANSMIT sq = PR_NOW
                    then sq\<lparr>ignore_nak_seq :=
                           (if receive_seq sq < retransmit_seq sq then retransmit_seq sq else receive_seq sq)\<rparr>
                    else sq\<lparr>rto := (if rto sq * 2 > MAX_RTO then MAX_RTO else rto sq * 2),
                            ignore_nak_seq := send_seq sq\<rparr>);
              sq = sq\<lparr>retransmit_seq := send_seq sq, rtt_sample_seq := 0,
                      idle_time := eventtime + calculate_bittime sq (of_nat buflen)\<rparr>
          in Ok (eventtime + rto sq + calculate_bittime sq (of_nat first_buflen)) sq)"

section \<open>Queueing messages\<close>

text \<open>The clock comparisons of the micro-controller allow a lead of \<^verbatim>\<open>3LL<<29\<close> ticks.\<close>

definition limit_min_clock :: "queue_message \<Rightarrow> queue_message" where
  "limit_min_clock qm =
     (if min_clock qm + 0x60000000 < req_clock qm \<and> req_clock qm \<noteq> BACKGROUND_PRIORITY_CLOCK
      then qm\<lparr>min_clock := req_clock qm - 0x60000000\<rparr> else qm)"

definition serialqueue_send_batch :: "nat \<Rightarrow> queue_message list \<Rightarrow> serialqueue \<Rightarrow> serialqueue" where
  "serialqueue_send_batch cq msgs sq =
     (let msgs = map limit_min_clock msgs; len = sum_len msgs in
      if len = 0 then sq
      else let minc = min_clock (hd msgs);
               c = command_queues sq cq;
               (mustwake, sq) =
                 (if cq_upcoming c = []
                  then let sq = sq\<lparr>upcoming_queues := upcoming_queues sq @ [cq]\<rparr>;
                           sq = (if minc < min_release_clock sq then sq\<lparr>min_release_clock := minc\<rparr> else sq)
                       in if minc < need_kick_clock sq then (True, sq\<lparr>need_kick_clock := 0\<rparr>) else (False, sq)
                  else (False, sq));
               sq = sq\<lparr>command_queues := (command_queues sq)(cq := c\<lparr>cq_upcoming := cq_upcoming c @ msgs\<rparr>),
                       upcoming_bytes := upcoming_bytes sq + len\<rparr>
           in if mustwake then kick_bg_thread sq else sq)"

definition serialqueue_send_one :: "nat \<Rightarrow> queue_message \<Rightarrow> serialqueue \<Rightarrow> serialqueue" where
  "serialqueue_send_one cq qm sq = serialqueue_send_batch cq [qm] sq"

definition serialqueue_send ::
  "nat \<Rightarrow> u8 list \<Rightarrow> nat \<Rightarrow> u64 \<Rightarrow> u64 \<Rightarrow> u64 \<Rightarrow> serialqueue \<Rightarrow> (unit, serialqueue) outcome"
where
  "serialqueue_send cq msg len minc reqc notify sq =
     (case message_fill msg len of
        None \<Rightarrow> Fault
      | Some qm \<Rightarrow>
          Ok () (serialqueue_send_one cq (qm\<lparr>min_clock := minc, req_clock := reqc, notify_id := notify\<rparr>) sq))"

text \<open>
  Taking \<^verbatim>\<open>transmit_requests.lock\<close> in the background thread: what the other threads sent in the
  meantime is in the queues.
\<close>

definition transmit_lock :: "serialqueue \<Rightarrow> serialqueue" where
  "transmit_lock sq =
     (case other_sends sq of
        [] \<Rightarrow> sq
      | b # bs \<Rightarrow> fold (\<lambda>(cq, msgs). serialqueue_send_batch cq msgs) b (sq\<lparr>other_sends := bs\<rparr>))"

section \<open>Building blocks\<close>

text \<open>
  The search for the ready message with the lowest \<^verbatim>\<open>req_clock\<close>: the queue and the message found,
  or \<open>None\<close> when a listed queue is empty, where \<^verbatim>\<open>list_first_entry\<close> points at no message.
\<close>

fun find_ready ::
  "(nat \<Rightarrow> command_queue) \<Rightarrow> nat list \<Rightarrow> u64 \<Rightarrow> (nat \<times> queue_message) option \<Rightarrow> (nat \<times> queue_message) option option"
where
  "find_ready cqs [] minc best = Some best"
| "find_ready cqs (q # qs) minc best =
     (case cq_ready (cqs q) of
        [] \<Rightarrow> None
      | m # _ \<Rightarrow>
          if req_clock m < minc then find_ready cqs qs (req_clock m) (Some (q, m))
          else find_ready cqs qs minc best)"

definition take_ready :: "nat \<Rightarrow> queue_message \<Rightarrow> serialqueue \<Rightarrow> serialqueue" where
  "take_ready cq qm sq =
     (let c = command_queues sq cq; rest = tl (cq_ready c);
          sq = sq\<lparr>command_queues := (command_queues sq)(cq := c\<lparr>cq_ready := rest\<rparr>),
                  ready_queues := (if rest = [] then remove1 cq (ready_queues sq) else ready_queues sq),
                  ready_bytes := ready_bytes sq - int (qm_len qm)\<rparr>
      in if notify_id qm \<noteq> 0
         then sq\<lparr>notify_queue := notify_queue sq @ [qm\<lparr>req_clock := send_seq sq\<rparr>]\<rparr>
         else sq)"

definition ready_count :: "serialqueue \<Rightarrow> nat" where
  "ready_count sq = sum_list (map (\<lambda>q. length (cq_ready (command_queues sq q))) (ready_queues sq))"

lemma find_ready_in:
  assumes "find_ready cqs qs minc best = Some (Some (q, m))" "best \<noteq> Some (q, m)"
  shows "q \<in> set qs \<and> cq_ready (cqs q) \<noteq> [] \<and> m = hd (cq_ready (cqs q))"
  using assms
proof (induction qs arbitrary: minc best)
  case (Cons a qs)
  then obtain m1 ms where m1: "cq_ready (cqs a) = m1 # ms" by (auto split: list.splits)
  show ?case
  proof (cases "req_clock m1 < minc \<and> (a, m1) = (q, m)")
    case True
    with m1 show ?thesis by simp
  next
    case False
    with Cons.prems m1 have "\<exists>minc best. find_ready cqs qs minc best = Some (Some (q, m)) \<and> best \<noteq> Some (q, m)"
      by (cases "req_clock m1 < minc") auto
    with Cons.IH show ?thesis by auto
  qed
qed simp

lemma sum_list_less:
  assumes "q \<in> set qs" "g q < f q" "\<And>x. x \<noteq> q \<Longrightarrow> g x = (f x :: nat)"
  shows "sum_list (map g qs) < sum_list (map f qs)"
  using assms(1)
proof (induction qs)
  case (Cons a qs)
  have le: "sum_list (map g qs) \<le> sum_list (map f qs)"
    by (rule sum_list_mono) (use assms(2,3) in \<open>metis less_imp_le order_refl\<close>)
  show ?case
  proof (cases "a = q")
    case True
    with assms(2) le show ?thesis by simp
  next
    case False
    with assms(3) Cons show ?thesis by simp
  qed
qed simp

lemma take_ready_count:
  assumes "q \<in> set (ready_queues sq)" "cq_ready (command_queues sq q) \<noteq> []"
  shows "ready_count (take_ready q m sq) < ready_count sq"
proof -
  let ?f = "\<lambda>x. length (cq_ready (command_queues sq x))"
  let ?g = "\<lambda>x. length (cq_ready (command_queues (take_ready q m sq) x))"
  have g: "?g x = (if x = q then ?f q - 1 else ?f x)" for x
    by (simp add: take_ready_def Let_def)
  have l: "sum_list (map ?g (ready_queues sq)) < sum_list (map ?f (ready_queues sq))"
    by (rule sum_list_less [OF assms(1)]) (use assms(2) in \<open>simp_all add: g\<close>)
  have r: "sum_list (map ?g (remove1 q xs)) \<le> sum_list (map ?g xs)" for xs
    by (induction xs) auto
  have "ready_queues (take_ready q m sq) \<in> {ready_queues sq, remove1 q (ready_queues sq)}"
    by (simp add: take_ready_def Let_def)
  with l r [of "ready_queues sq"] show ?thesis unfolding ready_count_def by auto
qed

text \<open>
  The loop of \<^verbatim>\<open>build_and_send_command\<close>: \<open>off\<close> is the place in the caller's array the block is
  written to. Without a message of a clock below \<^verbatim>\<open>MAX_CLOCK\<close> the code follows a NULL pointer.
\<close>

function build_loop :: "u8 list \<Rightarrow> nat \<Rightarrow> nat \<Rightarrow> serialqueue \<Rightarrow> (u8 list \<times> nat, serialqueue) outcome" where
  "build_loop buf off len sq =
     (if ready_bytes sq = 0 then Ok (buf, len) sq
      else case find_ready (command_queues sq) (ready_queues sq) MAX_CLOCK None of
             None \<Rightarrow> Fault
           | Some None \<Rightarrow> Fault
           | Some (Some (cq, qm)) \<Rightarrow>
               if len + qm_len qm > MESSAGE_MAX - MESSAGE_TRAILER_SIZE then Ok (buf, len) sq
               else (case write_at buf (off + len) (qm_bytes qm) of
                       None \<Rightarrow> Fault
                     | Some buf \<Rightarrow> build_loop buf off (len + qm_len qm) (take_ready cq qm sq)))"
  by pat_completeness auto
termination
proof (relation "measure (\<lambda>(buf, off, len, sq). ready_count sq)", goal_cases)
  case (2 buf off len sq r p cq qm buf')
  then have "find_ready (command_queues sq) (ready_queues sq) MAX_CLOCK None = Some (Some (cq, qm))" by simp
  from find_ready_in [OF this] show ?case using take_ready_count [of cq sq qm] by simp
qed simp

declare build_loop.simps [simp del]

text \<open>The lines under \<^verbatim>\<open>Fill header / trailer\<close>; \<open>None\<close> is a write outside the array.\<close>

definition fill_block :: "u8 list \<Rightarrow> nat \<Rightarrow> nat \<Rightarrow> u64 \<Rightarrow> u8 list option" where
  "fill_block buf off len seq =
     (if off + len > length buf then None
      else let buf = buf[off := of_nat len];
               buf = buf[off + 1 := MESSAGE_DEST OR ucast (seq AND 0x0f)];
               crc = msgblock_crc16_ccitt (drop off buf) (len - MESSAGE_TRAILER_SIZE);
               buf = buf[off + (len - 3) := ucast (drop_bit 8 crc)];
               buf = buf[off + (len - 2) := ucast (crc AND 0xff)]
           in Some (buf[off + (len - 1) := MESSAGE_SYNC]))"

text \<open>The result is the array and the length of the block in it.\<close>

definition build_and_send_command ::
  "u8 list \<Rightarrow> nat \<Rightarrow> real \<Rightarrow> serialqueue \<Rightarrow> (u8 list \<times> nat, serialqueue) outcome"
where
  "build_and_send_command buf pending eventtime sq =
     andthen (build_loop buf pending MESSAGE_HEADER_SIZE sq)
       (\<lambda>(buf, len) sq.
          let len = len + MESSAGE_TRAILER_SIZE in
          case fill_block buf pending len (send_seq sq) of
            None \<Rightarrow> Fault
          | Some buf \<Rightarrow>
              (case write_at (qm_msg message_alloc) 0 (take len (drop pending buf)) of
                 None \<Rightarrow> Fault
               | Some msg \<Rightarrow>
                   let idletime = (if eventtime > idle_time sq then eventtime else idle_time sq);
                       idletime = idletime + calculate_bittime sq (of_nat (pending + len));
                       out = message_alloc\<lparr>qm_msg := msg, qm_len := len, sent_time := eventtime,
                                           receive_time := idletime\<rparr>;
                       sq = (if sent_queue sq = []
                             then pollreactor_update_timer SQPT_RETRANSMIT (idletime + rto sq) sq else sq);
                       sq = (if rtt_sample_seq sq = 0 then sq\<lparr>rtt_sample_seq := send_seq sq\<rparr> else sq);
                       sq = sq\<lparr>send_seq := send_seq sq + 1, need_ack_bytes := need_ack_bytes sq + int len,
                               sent_queue := sent_queue sq @ [out]\<rparr>
                   in Ok (buf, len) sq))"

section \<open>Deciding what to send\<close>

text \<open>
  Moving the messages of one queue whose \<^verbatim>\<open>min_clock\<close> is reached: those that are ready, those that
  stay, and the lowest clock that keeps a queue waiting.
\<close>

fun release_loop ::
  "u64 \<Rightarrow> queue_message list \<Rightarrow> u64 \<Rightarrow> queue_message list \<times> queue_message list \<times> u64"
where
  "release_loop ack_clock [] stalled = ([], [], stalled)"
| "release_loop ack_clock (qm # qms) stalled =
     (if ack_clock < min_clock qm
      then ([], qm # qms, if min_clock qm < stalled then min_clock qm else stalled)
      else let (ready, rest, stalled) = release_loop ack_clock qms stalled in (qm # ready, rest, stalled))"

fun upcoming_loop :: "u64 \<Rightarrow> nat list \<Rightarrow> u64 \<Rightarrow> serialqueue \<Rightarrow> u64 \<times> serialqueue" where
  "upcoming_loop ack_clock [] stalled sq = (stalled, sq)"
| "upcoming_loop ack_clock (cq # cqs) stalled sq =
     (let c = command_queues sq cq;
          not_in_ready_queues = (cq_ready c = []);
          (moved, rest, stalled) = release_loop ack_clock (cq_upcoming c) stalled;
          ready = cq_ready c @ moved;
          sq = sq\<lparr>command_queues := (command_queues sq)(cq := \<lparr>cq_ready = ready, cq_upcoming = rest\<rparr>),
                  upcoming_bytes := upcoming_bytes sq - sum_len moved,
                  ready_bytes := ready_bytes sq + sum_len moved,
                  upcoming_queues := (if rest = [] then remove1 cq (upcoming_queues sq) else upcoming_queues sq),
                  ready_queues := (if not_in_ready_queues \<and> ready \<noteq> [] then ready_queues sq @ [cq]
                                   else ready_queues sq)\<rparr>
      in upcoming_loop ack_clock cqs stalled sq)"

definition check_upcoming_queues :: "u64 \<Rightarrow> serialqueue \<Rightarrow> u64 \<times> serialqueue" where
  "check_upcoming_queues ack_clock sq =
     (let sq = (transmit_lock sq)\<lparr>need_kick_clock := 0\<rparr> in
      if ack_clock < min_release_clock sq then (min_release_clock sq, sq)
      else let (stalled, sq) = upcoming_loop ack_clock (upcoming_queues sq) MAX_CLOCK sq
           in (stalled, sq\<lparr>min_release_clock := stalled\<rparr>))"

text \<open>Whether the caller has to look again at once, because of a message added in the meantime.\<close>

definition update_need_kick_clock :: "u64 \<Rightarrow> serialqueue \<Rightarrow> bool \<times> serialqueue" where
  "update_need_kick_clock wantclock sq =
     (let sq = transmit_lock sq in
      if wantclock > min_release_clock sq then (True, sq)
      else (False, sq\<lparr>need_kick_clock := wantclock\<rparr>))"

text \<open>The lowest clock at which a message of the ready queues has to be sent.\<close>

fun min_ready_loop :: "serialqueue \<Rightarrow> real \<Rightarrow> nat list \<Rightarrow> u64 \<Rightarrow> u64 option" where
  "min_ready_loop sq bgtime [] minc = Some minc"
| "min_ready_loop sq bgtime (cq # cqs) minc =
     (case cq_ready (command_queues sq cq) of
        [] \<Rightarrow> None
      | qm # _ \<Rightarrow>
          let reqc = (if req_clock qm = BACKGROUND_PRIORITY_CLOCK
                      then clock_from_time (sq_ce sq) (bgtime + (MIN_REQTIME_DELTA + MIN_BACKGROUND_DELTA))
                      else req_clock qm)
          in min_ready_loop sq bgtime cqs (if reqc < minc then reqc else minc))"

definition window_closed :: "serialqueue \<Rightarrow> bool" where
  "window_closed sq \<longleftrightarrow>
     send_seq sq - receive_seq sq \<ge> of_nat MAX_PENDING_BLOCKS \<and> receive_seq sq \<noteq> - 1 \<or>
     send_seq sq > receive_seq sq \<and> receive_window sq \<noteq> 0 \<and>
     need_ack_bytes sq + int MESSAGE_MAX + (if last_ack_seq sq < receive_seq sq then last_ack_bytes sq else 0)
       > receive_window sq"

definition check_send_command :: "nat \<Rightarrow> real \<Rightarrow> serialqueue \<Rightarrow> (real, serialqueue) outcome" where
  "check_send_command pending eventtime sq =
     (let idletime = (if eventtime > idle_time sq then eventtime else idle_time sq);
          idletime = idletime + calculate_bittime sq (of_nat (pending + MESSAGE_MIN));
          ack_clock = clock_from_time (sq_ce sq) idletime;
          (min_stalled_clock, sq) = check_upcoming_queues ack_clock sq
      in if window_closed sq then Ok (eventtime + 1 / 4) sq
         else if ready_bytes sq \<ge> int MESSAGE_PAYLOAD_MAX then Ok PR_NOW sq
         else if est_freq (sq_ce sq) = 0
         then if ready_bytes sq \<noteq> 0 then Ok PR_NOW sq
              else let (mustwake, sq) = update_need_kick_clock 1 sq
                   in Ok (if mustwake then eventtime else PR_NEVER) sq
         else case min_ready_loop sq (if pending \<noteq> 0 then idletime else idle_time sq) (ready_queues sq) MAX_CLOCK of
                None \<Rightarrow> Fault
              | Some min_ready_clock \<Rightarrow>
                  let reqclock_delta = of_int (trunc_real (MIN_REQTIME_DELTA * est_freq (sq_ce sq))) in
                  if min_ready_clock \<le> ack_clock + reqclock_delta then Ok PR_NOW sq
                  else if pending \<noteq> 0 then Ok eventtime sq
                  else let wantclock = min_ready_clock - reqclock_delta;
                           wantclock = (if min_stalled_clock < wantclock then min_stalled_clock else wantclock);
                           (mustwake, sq) = update_need_kick_clock wantclock sq
                       in Ok (if mustwake then eventtime
                              else idletime + real (unat (wantclock - ack_clock)) / est_freq (sq_ce sq)) sq)"

lemma build_loop_len:
  "build_loop buf off len sq = Ok (buf', len') sq' \<Longrightarrow> len \<le> len'"
proof (induction buf off len sq rule: build_loop.induct)
  case (1 buf off len sq)
  then show ?case
    by (subst (asm) (2) build_loop.simps) (fastforce split: if_splits option.splits prod.splits)
qed

lemma build_and_send_command_len:
  assumes "build_and_send_command buf pending t sq = Ok (buf', len) sq'"
  shows "MESSAGE_MIN \<le> len"
  using assms build_loop_len
  by (fastforce simp: build_and_send_command_def andthen_Ok_iff Let_def split: option.splits prod.splits)

abbreviation (input) SEND_BUF_SIZE :: nat where "SEND_BUF_SIZE \<equiv> 768"  \<comment> \<open>\<^verbatim>\<open>MESSAGE_MAX * MAX_PENDING_BLOCKS\<close>\<close>

text \<open>The loop of \<^verbatim>\<open>command_event\<close>; the result is the array, its used length and the wake time.\<close>

function command_loop ::
  "u8 list \<Rightarrow> nat \<Rightarrow> real \<Rightarrow> serialqueue \<Rightarrow> (u8 list \<times> nat \<times> real, serialqueue) outcome"
where
  "command_loop buf buflen eventtime sq =
     andthen (check_send_command buflen eventtime sq)
       (\<lambda>waketime sq.
          if waketime \<noteq> PR_NOW then Ok (buf, buflen, waketime) sq
          else andthen (build_and_send_command buf buflen eventtime sq)
                 (\<lambda>(buf, len) sq.
                    if buflen + len + MESSAGE_MAX > SEND_BUF_SIZE then Ok (buf, buflen + len, waketime) sq
                    else command_loop buf (buflen + len) eventtime sq))"
  by pat_completeness auto
termination
  by (relation "measure (\<lambda>(buf, buflen, t, sq). SEND_BUF_SIZE - buflen)")
    (auto dest!: build_and_send_command_len)

declare command_loop.simps [simp del]

definition command_event :: "real \<Rightarrow> serialqueue \<Rightarrow> (real, serialqueue) outcome" where
  "command_event eventtime sq =
     andthen (command_loop (replicate SEND_BUF_SIZE 0) 0 eventtime sq)
       (\<lambda>(buf, buflen, waketime) sq.
          if buflen = 0 then Ok waketime sq
          else let sq = do_write (take buflen buf) sq;
                   sq = sq\<lparr>bytes_write := bytes_write sq + of_nat buflen\<rparr>;
                   idletime = (if eventtime > idle_time sq then eventtime else idle_time sq)
               in Ok PR_NOW (sq\<lparr>idle_time := idletime + calculate_bittime sq (of_nat buflen)\<rparr>))"

section \<open>The interface of the other threads\<close>

text \<open>A fresh queue; the clock, the sends of other threads and the results of writes are given.\<close>

definition serialqueue_alloc ::
  "serial_type \<Rightarrow> u32 \<Rightarrow> (nat \<Rightarrow> real) \<Rightarrow> send_request list list \<Rightarrow> (nat \<Rightarrow> bool) \<Rightarrow> serialqueue"
where
  "serialqueue_alloc fd_type cid now_fn sends ok_fn =
     \<lparr>pr = pollreactor_alloc 2, os_now = now_fn, os_now_reads = 0,
      serial_fd_type = fd_type, client_id = cid,
      input_buf = replicate INPUT_BUF_SIZE 0, need_sync = 0, input_pos = 0,
      rc_waiting = False, rc_queue = [], rc_old_receive = debug_queue_alloc [] DEBUG_QUEUE_RECEIVE, rc_signals = 0,
      upcoming_queues = [], upcoming_bytes = 0, need_kick_clock = MAX_CLOCK, min_release_clock = MAX_CLOCK,
      pipe_kicks = 0,
      receive_window = 0, bittime_adjust = 0, idle_time = 0,
      sq_ce = \<lparr>conv_clock = 0, conv_time = 0, est_freq = 0\<rparr>, last_receive_sent_time = 0,
      send_seq = 1, receive_seq = (if fd_type = SQT_DEBUGFILE then - 1 else 1),
      ignore_nak_seq = 0, last_ack_seq = 0, retransmit_seq = 0, rtt_sample_seq = 0,
      sent_queue = [], srtt = 0, rttvar = 0, rto = (if fd_type = SQT_DEBUGFILE then PR_NEVER else MIN_RTO),
      ready_queues = [], ready_bytes = 0, need_ack_bytes = 0, last_ack_bytes = 0,
      notify_queue = [], last_write_fail_time = 0, fast_readers = [],
      old_sent = debug_queue_alloc [] DEBUG_QUEUE_SENT,
      bytes_write = 0, bytes_read = 0, bytes_retransmit = 0, bytes_invalid = 0,
      command_queues = (\<lambda>_. \<lparr>cq_ready = [], cq_upcoming = []\<rparr>),
      other_sends = sends, fd_ok = ok_fn, fd_log = [], fr_calls = []\<rparr>"

definition serialqueue_exit :: "serialqueue \<Rightarrow> serialqueue" where
  "serialqueue_exit sq = kick_bg_thread (pollreactor_do_exit sq)"

text \<open>The messages \<^verbatim>\<open>serialqueue_free\<close> gives back to the allocator, in this order.\<close>

definition serialqueue_free :: "serialqueue \<Rightarrow> queue_message list" where
  "serialqueue_free sq =
     snd (message_queue_free (sent_queue sq)) @ snd (message_queue_free (rc_queue sq)) @
     snd (message_queue_free (rc_old_receive sq)) @ snd (message_queue_free (notify_queue sq)) @
     snd (message_queue_free (old_sent sq)) @
     concat (map (\<lambda>cq. snd (message_queue_free (cq_ready (command_queues sq cq)))) (ready_queues sq)) @
     concat (map (\<lambda>cq. snd (message_queue_free (cq_upcoming (command_queues sq cq)))) (upcoming_queues sq))"

text \<open>The last lines of \<^verbatim>\<open>background_thread\<close>: wake a waiting receiver.\<close>

definition background_thread_exit :: "serialqueue \<Rightarrow> serialqueue" where
  "background_thread_exit sq = receive_append_wake [] sq"

definition serialqueue_alloc_commandqueue :: command_queue where
  "serialqueue_alloc_commandqueue = \<lparr>cq_ready = [], cq_upcoming = []\<rparr>"

text \<open>Whether the queue is given back.\<close>

definition serialqueue_free_commandqueue :: "command_queue \<Rightarrow> bool" where
  "serialqueue_free_commandqueue c \<longleftrightarrow> \<not> (cq_ready c \<noteq> [] \<or> cq_upcoming c \<noteq> [])"

definition serialqueue_add_fastreader :: "fastreader \<Rightarrow> serialqueue \<Rightarrow> serialqueue" where
  "serialqueue_add_fastreader fr sq = sq\<lparr>fast_readers := fast_readers sq @ [fr]\<rparr>"

definition serialqueue_rm_fastreader :: "fastreader \<Rightarrow> serialqueue \<Rightarrow> serialqueue" where
  "serialqueue_rm_fastreader fr sq = sq\<lparr>fast_readers := remove1 fr (fast_readers sq)\<rparr>"

record pull_queue_message =
  pqm_msg :: "u8 list"
  pqm_len :: int
  pqm_sent_time :: real
  pqm_receive_time :: real
  pqm_notify_id :: u64

definition fill_pull :: "queue_message \<Rightarrow> pull_queue_message" where
  "fill_pull qm =
     \<lparr>pqm_msg = qm_bytes qm, pqm_len = int (qm_len qm), pqm_sent_time = sent_time qm,
      pqm_receive_time = receive_time qm, pqm_notify_id = notify_id qm\<rparr>"

text \<open>
  One pass of \<^verbatim>\<open>serialqueue_pull\<close>: a message, the exit (length \<open>-1\<close>), or the wait for a signal
  after which the pass is made again.
\<close>

datatype pull_result = Pulled pull_queue_message | Pull_exit | Pull_wait

definition serialqueue_pull :: "serialqueue \<Rightarrow> (pull_result, serialqueue) outcome" where
  "serialqueue_pull sq =
     (case rc_queue sq of
        [] \<Rightarrow> if pollreactor_is_exit sq then Ok Pull_exit sq else Ok Pull_wait (sq\<lparr>rc_waiting := True\<rparr>)
      | qm # qms \<Rightarrow>
          if qm_len qm > MESSAGE_MAX then Fault
          else let sq = sq\<lparr>rc_queue := qms\<rparr>;
                   sq = (if qm_len qm \<noteq> 0
                         then sq\<lparr>rc_old_receive := snd (debug_queue_shift (rc_old_receive sq) qm)\<rparr> else sq)
               in Ok (Pulled (fill_pull qm)) sq)"

definition serialqueue_set_wire_frequency :: "real \<Rightarrow> serialqueue \<Rightarrow> serialqueue" where
  "serialqueue_set_wire_frequency frequency sq =
     sq\<lparr>bittime_adjust := (if serial_fd_type sq = SQT_CAN then 1 / frequency else 10 / frequency)\<rparr>"

definition serialqueue_set_receive_window :: "int \<Rightarrow> serialqueue \<Rightarrow> serialqueue" where
  "serialqueue_set_receive_window window sq = sq\<lparr>receive_window := window\<rparr>"

definition serialqueue_set_clock_est :: "real \<Rightarrow> real \<Rightarrow> u64 \<Rightarrow> serialqueue \<Rightarrow> serialqueue" where
  "serialqueue_set_clock_est freq ctime cclock sq = sq\<lparr>sq_ce := clock_fill (sq_ce sq) freq ctime cclock\<rparr>"

definition serialqueue_get_clock_est :: "serialqueue \<Rightarrow> clock_estimate" where
  "serialqueue_get_clock_est sq = sq_ce sq"

text \<open>The numbers \<^verbatim>\<open>serialqueue_get_stats\<close> prints; a sequence number is printed modulo \<open>2 ^ 32\<close>.\<close>

definition serialqueue_get_stats :: "serialqueue \<Rightarrow> u32 list \<times> real list \<times> int list" where
  "serialqueue_get_stats sq =
     ([bytes_write sq, bytes_read sq, bytes_retransmit sq, bytes_invalid sq,
       ucast (send_seq sq), ucast (receive_seq sq), ucast (retransmit_seq sq)],
      [srtt sq, rttvar sq, rto sq], [ready_bytes sq, upcoming_bytes sq])"

text \<open>The walk over a debug list, oldest message first; at most \<open>mx\<close> messages are copied.\<close>

fun extract_old_loop :: "queue_message list \<Rightarrow> nat \<Rightarrow> int \<Rightarrow> queue_message list" where
  "extract_old_loop [] pos mx = []"
| "extract_old_loop (qm # qms) pos mx =
     (if qm_len qm \<noteq> 0 \<and> int pos < mx then qm # extract_old_loop qms (pos + 1) mx
      else extract_old_loop qms pos mx)"

definition serialqueue_extract_old :: "bool \<Rightarrow> int \<Rightarrow> serialqueue \<Rightarrow> queue_message list \<times> serialqueue" where
  "serialqueue_extract_old sentq mx sq =
     (let count = (if sentq then DEBUG_QUEUE_SENT else DEBUG_QUEUE_RECEIVE);
          replacement = debug_queue_alloc [] count
      in if sentq then (extract_old_loop (old_sent sq) 0 mx, sq\<lparr>old_sent := replacement\<rparr>)
         else (extract_old_loop (rc_old_receive sq) 0 mx, sq\<lparr>rc_old_receive := replacement\<rparr>))"

end
