(* ===== verification/Serialqueue_Props.thy ===== *)
theory Serialqueue_Props
  imports Serialqueue Command_Props
begin

text \<open>
  Properties of the host's serial queue: the invariant of its queues and of the window of
  unacknowledged blocks, and what each callback of the background thread does under it.
\<close>

section \<open>The invariant\<close>

text \<open>What a sender has to hand over: a payload that fits a block, with a clock the search can find.\<close>

definition msg_ok :: "queue_message \<Rightarrow> bool" where
  "msg_ok qm \<longleftrightarrow>
     length (qm_msg qm) = MESSAGE_MAX \<and> qm_len qm \<le> MESSAGE_PAYLOAD_MAX \<and> req_clock qm < MAX_CLOCK"

definition queue_ok :: "(nat \<Rightarrow> queue_message list) \<Rightarrow> nat list \<Rightarrow> int \<Rightarrow> bool" where
  "queue_ok f qs n \<longleftrightarrow>
     distinct qs \<and> (\<forall>q. q \<in> set qs \<longleftrightarrow> f q \<noteq> []) \<and> n = (\<Sum>q\<in>set qs. sum_len (f q)) \<and>
     (\<forall>q. \<forall>qm\<in>set (f q). msg_ok qm)"

abbreviation ready_of :: "serialqueue \<Rightarrow> nat \<Rightarrow> queue_message list" where
  "ready_of sq \<equiv> \<lambda>q. cq_ready (command_queues sq q)"

abbreviation upcoming_of :: "serialqueue \<Rightarrow> nat \<Rightarrow> queue_message list" where
  "upcoming_of sq \<equiv> \<lambda>q. cq_upcoming (command_queues sq q)"

definition release_ok :: "serialqueue \<Rightarrow> bool" where
  "release_ok sq \<longleftrightarrow>
     (\<forall>q\<in>set (upcoming_queues sq). min_release_clock sq \<le> min_clock (hd (upcoming_of sq q)))"

definition queues_inv :: "serialqueue \<Rightarrow> bool" where
  "queues_inv sq \<longleftrightarrow>
     queue_ok (ready_of sq) (ready_queues sq) (ready_bytes sq) \<and>
     queue_ok (upcoming_of sq) (upcoming_queues sq) (upcoming_bytes sq) \<and>
     release_ok sq \<and>
     (\<forall>b\<in>set (other_sends sq). \<forall>(cq, ms)\<in>set b. \<forall>m\<in>set ms. msg_ok m)"

text \<open>Block number \<open>n\<close> carries the low four bits of its number.\<close>

definition seq_byte :: "nat \<Rightarrow> u8" where
  "seq_byte n = MESSAGE_DEST OR (of_nat n AND MESSAGE_SEQ_MASK)"

definition qm_payload :: "queue_message \<Rightarrow> u8 list" where
  "qm_payload qm = take (qm_len qm - MESSAGE_MIN) (drop MESSAGE_HEADER_SIZE (qm_msg qm))"

definition is_block :: "nat \<Rightarrow> queue_message \<Rightarrow> bool" where
  "is_block n qm \<longleftrightarrow>
     MESSAGE_MIN \<le> qm_len qm \<and> qm_len qm \<le> MESSAGE_MAX \<and> length (qm_msg qm) = MESSAGE_MAX \<and>
     qm_bytes qm = make_block (seq_byte n) (qm_payload qm)"

definition window_inv :: "serialqueue \<Rightarrow> bool" where
  "window_inv sq \<longleftrightarrow>
     serial_fd_type sq \<noteq> SQT_DEBUGFILE \<and>
     1 \<le> unat (receive_seq sq) \<and>
     unat (send_seq sq) = unat (receive_seq sq) + length (sent_queue sq) \<and>
     length (sent_queue sq) \<le> MAX_PENDING_BLOCKS \<and>
     need_ack_bytes sq = sum_len (sent_queue sq) \<and>
     (\<forall>i<length (sent_queue sq). is_block (unat (receive_seq sq) + i) (sent_queue sq ! i)) \<and>
     MIN_RTO \<le> rto sq \<and> rto sq \<le> MAX_RTO \<and>
     length (old_sent sq) = DEBUG_QUEUE_SENT"

definition input_inv :: "serialqueue \<Rightarrow> bool" where
  "input_inv sq \<longleftrightarrow> length (input_buf sq) = INPUT_BUF_SIZE \<and> input_pos sq < MESSAGE_MAX"

section \<open>Frames\<close>

lemma can_write_loop_keeps:
  assumes "\<And>sq x. f (sq\<lparr>fd_log := x\<rparr>) = f sq" "\<And>sq x. f (sq\<lparr>os_now_reads := x\<rparr>) = f sq"
    and "\<And>sq x. f (sq\<lparr>last_write_fail_time := x\<rparr>) = f sq" "\<And>sq. f (pollreactor_do_exit sq) = f sq"
  shows "f (can_write_loop buf sq) = f sq"
proof (induction buf sq rule: can_write_loop.induct)
  case (1 buf sq)
  then show ?case
    by (subst can_write_loop.simps) (simp add: fd_emit_def get_monotonic_def Let_def assms)
qed

lemma do_write_keeps:
  assumes "\<And>sq x. f (sq\<lparr>fd_log := x\<rparr>) = f sq" "\<And>sq x. f (sq\<lparr>os_now_reads := x\<rparr>) = f sq"
    and "\<And>sq x. f (sq\<lparr>last_write_fail_time := x\<rparr>) = f sq" "\<And>sq. f (pollreactor_do_exit sq) = f sq"
  shows "f (do_write buf sq) = f sq"
  using can_write_loop_keeps [of f buf sq] assms by (simp add: do_write_def fd_emit_def)

lemma do_write_frame [simp]:
  "serial_fd_type (do_write buf sq) = serial_fd_type sq" "client_id (do_write buf sq) = client_id sq"
  "input_buf (do_write buf sq) = input_buf sq" "need_sync (do_write buf sq) = need_sync sq"
  "input_pos (do_write buf sq) = input_pos sq" "rc_queue (do_write buf sq) = rc_queue sq"
  "upcoming_queues (do_write buf sq) = upcoming_queues sq"
  "upcoming_bytes (do_write buf sq) = upcoming_bytes sq"
  "need_kick_clock (do_write buf sq) = need_kick_clock sq"
  "min_release_clock (do_write buf sq) = min_release_clock sq"
  "receive_window (do_write buf sq) = receive_window sq"
  "bittime_adjust (do_write buf sq) = bittime_adjust sq" "idle_time (do_write buf sq) = idle_time sq"
  "sq_ce (do_write buf sq) = sq_ce sq"
  "last_receive_sent_time (do_write buf sq) = last_receive_sent_time sq"
  "send_seq (do_write buf sq) = send_seq sq" "receive_seq (do_write buf sq) = receive_seq sq"
  "ignore_nak_seq (do_write buf sq) = ignore_nak_seq sq"
  "last_ack_seq (do_write buf sq) = last_ack_seq sq"
  "retransmit_seq (do_write buf sq) = retransmit_seq sq"
  "rtt_sample_seq (do_write buf sq) = rtt_sample_seq sq" "sent_queue (do_write buf sq) = sent_queue sq"
  "srtt (do_write buf sq) = srtt sq" "rttvar (do_write buf sq) = rttvar sq"
  "rto (do_write buf sq) = rto sq" "ready_queues (do_write buf sq) = ready_queues sq"
  "ready_bytes (do_write buf sq) = ready_bytes sq" "need_ack_bytes (do_write buf sq) = need_ack_bytes sq"
  "last_ack_bytes (do_write buf sq) = last_ack_bytes sq"
  "notify_queue (do_write buf sq) = notify_queue sq" "fast_readers (do_write buf sq) = fast_readers sq"
  "old_sent (do_write buf sq) = old_sent sq" "command_queues (do_write buf sq) = command_queues sq"
  "other_sends (do_write buf sq) = other_sends sq"
  "pr_waketime (pr (do_write buf sq)) = pr_waketime (pr sq)"
  "pr_next_timer (pr (do_write buf sq)) = pr_next_timer (pr sq)"
  by (rule do_write_keeps; simp add: pollreactor_do_exit_def)+

text \<open>The operations on the reactor change nothing else.\<close>

lemma update_timer_frame [simp]:
  "serial_fd_type (pollreactor_update_timer p t sq) = serial_fd_type sq"
  "client_id (pollreactor_update_timer p t sq) = client_id sq"
  "need_sync (pollreactor_update_timer p t sq) = need_sync sq"
  "rc_queue (pollreactor_update_timer p t sq) = rc_queue sq"
  "upcoming_queues (pollreactor_update_timer p t sq) = upcoming_queues sq"
  "upcoming_bytes (pollreactor_update_timer p t sq) = upcoming_bytes sq"
  "need_kick_clock (pollreactor_update_timer p t sq) = need_kick_clock sq"
  "min_release_clock (pollreactor_update_timer p t sq) = min_release_clock sq"
  "receive_window (pollreactor_update_timer p t sq) = receive_window sq"
  "bittime_adjust (pollreactor_update_timer p t sq) = bittime_adjust sq"
  "idle_time (pollreactor_update_timer p t sq) = idle_time sq"
  "sq_ce (pollreactor_update_timer p t sq) = sq_ce sq"
  "last_receive_sent_time (pollreactor_update_timer p t sq) = last_receive_sent_time sq"
  "send_seq (pollreactor_update_timer p t sq) = send_seq sq"
  "receive_seq (pollreactor_update_timer p t sq) = receive_seq sq"
  "ignore_nak_seq (pollreactor_update_timer p t sq) = ignore_nak_seq sq"
  "last_ack_seq (pollreactor_update_timer p t sq) = last_ack_seq sq"
  "retransmit_seq (pollreactor_update_timer p t sq) = retransmit_seq sq"
  "rtt_sample_seq (pollreactor_update_timer p t sq) = rtt_sample_seq sq"
  "sent_queue (pollreactor_update_timer p t sq) = sent_queue sq"
  "srtt (pollreactor_update_timer p t sq) = srtt sq"
  "rttvar (pollreactor_update_timer p t sq) = rttvar sq" "rto (pollreactor_update_timer p t sq) = rto sq"
  "ready_queues (pollreactor_update_timer p t sq) = ready_queues sq"
  "ready_bytes (pollreactor_update_timer p t sq) = ready_bytes sq"
  "need_ack_bytes (pollreactor_update_timer p t sq) = need_ack_bytes sq"
  "last_ack_bytes (pollreactor_update_timer p t sq) = last_ack_bytes sq"
  "notify_queue (pollreactor_update_timer p t sq) = notify_queue sq"
  "fast_readers (pollreactor_update_timer p t sq) = fast_readers sq"
  "old_sent (pollreactor_update_timer p t sq) = old_sent sq"
  "command_queues (pollreactor_update_timer p t sq) = command_queues sq"
  "other_sends (pollreactor_update_timer p t sq) = other_sends sq"
  by (simp_all add: pollreactor_update_timer_def note_waketime_def)

lemma calculate_bittime_cong:
  "serial_fd_type sq' = serial_fd_type sq \<Longrightarrow> bittime_adjust sq' = bittime_adjust sq \<Longrightarrow>
   calculate_bittime sq' = calculate_bittime sq"
  by (rule ext) (simp add: calculate_bittime_def)

section \<open>Sequence numbers\<close>

lemma sum_len_simps [simp]:
  "sum_len [] = 0" "sum_len (qm # qms) = int (qm_len qm) + sum_len qms"
  "sum_len (qms @ qms') = sum_len qms + sum_len qms'"
  by (simp_all add: sum_len_def)

lemma sum_len_drop: "sum_len (drop k qms) = sum_len qms - sum_len (take k qms)"
  using sum_len_simps(3) [of "take k qms" "drop k qms"] by simp

lemma debug_queue_add_length [simp]: "length (debug_queue_add q qm) = length q"
  by (simp add: debug_queue_add_def debug_queue_shift_def Let_def)

text \<open>An acknowledgement of \<open>k\<close> sent blocks removes exactly those.\<close>

lemma ack_loop_drop:
  assumes "k < length qms" "sent_queue sq = qms" "rseq = sent_seq + of_nat (Suc k)" "length qms < 2 ^ 64"
  shows "\<exists>os. length os = length (old_sent sq) \<and>
     ack_loop rseq sent_seq qms sq =
       sq\<lparr>need_ack_bytes := need_ack_bytes sq - sum_len (take (Suc k) qms), sent_queue := drop (Suc k) qms,
          old_sent := os, last_receive_sent_time := receive_time (qms ! k),
          last_ack_bytes := int (qm_len (qms ! k))\<rparr>"
  using assms
proof (induction qms arbitrary: k sent_seq sq)
  case Nil
  from Nil.prems(1) have False by simp
  then show ?case ..
next
  case (Cons qm qms)
  define sq1 where "sq1 = sq\<lparr>need_ack_bytes := need_ack_bytes sq - int (qm_len qm), sent_queue := qms,
      old_sent := debug_queue_add (old_sent sq) qm\<rparr>"
  show ?case
  proof (cases k)
    case 0
    with Cons.prems show ?thesis
      by (intro exI [of _ "debug_queue_add (old_sent sq) qm"]) (simp add: Let_def)
  next
    case (Suc j)
    have ne: "rseq \<noteq> sent_seq + 1"
    proof
      assume "rseq = sent_seq + 1"
      then have "of_nat (Suc j) = (0 :: u64)" using Cons.prems(3) Suc by (simp add: algebra_simps)
      moreover have "unat (of_nat (Suc j) :: u64) = Suc j"
        by (rule unat_of_nat_small) (use Cons.prems(1,4) Suc in simp)
      ultimately show False by simp
    qed
    have "\<exists>os. length os = length (old_sent sq1) \<and>
       ack_loop rseq (sent_seq + 1) qms sq1 =
         sq1\<lparr>need_ack_bytes := need_ack_bytes sq1 - sum_len (take (Suc j) qms), sent_queue := drop (Suc j) qms,
            old_sent := os, last_receive_sent_time := receive_time (qms ! j),
            last_ack_bytes := int (qm_len (qms ! j))\<rparr>"
      by (rule Cons.IH) (use Cons.prems Suc in \<open>simp_all add: sq1_def add.assoc\<close>)
    then obtain os where os: "length os = length (old_sent sq1)" "ack_loop rseq (sent_seq + 1) qms sq1 =
         sq1\<lparr>need_ack_bytes := need_ack_bytes sq1 - sum_len (take (Suc j) qms), sent_queue := drop (Suc j) qms,
            old_sent := os, last_receive_sent_time := receive_time (qms ! j),
            last_ack_bytes := int (qm_len (qms ! j))\<rparr>" by blast
    have e: "ack_loop rseq sent_seq (qm # qms) sq = ack_loop rseq (sent_seq + 1) qms sq1"
      using ne by (simp add: Let_def sq1_def)
    show ?thesis
      unfolding e os(2) using os(1) by (intro exI [of _ os]) (simp add: sq1_def Suc diff_diff_eq)
  qed
qed

text \<open>A number beyond the sent blocks empties the queue and restarts the numbering there.\<close>

lemma ack_loop_beyond:
  assumes "sent_queue sq = qms" "length qms < k" "k < 2 ^ 64" "rseq = sent_seq + of_nat k"
  shows "\<exists>os. length os = length (old_sent sq) \<and>
     ack_loop rseq sent_seq qms sq =
       sq\<lparr>need_ack_bytes := need_ack_bytes sq - sum_len qms, sent_queue := [], old_sent := os,
          send_seq := rseq, last_receive_sent_time := 0\<rparr>"
  using assms
proof (induction qms arbitrary: k sent_seq sq)
  case Nil
  then show ?case by (intro exI [of _ "old_sent sq"]) simp
next
  case (Cons qm qms)
  define sq1 where "sq1 = sq\<lparr>need_ack_bytes := need_ack_bytes sq - int (qm_len qm), sent_queue := qms,
      old_sent := debug_queue_add (old_sent sq) qm\<rparr>"
  obtain j where j: "k = Suc j" "j \<noteq> 0" using Cons.prems(2) by (cases k) auto
  have "of_nat j \<noteq> (0 :: u64)" using unat_of_nat_small [of j, where 'a = 64] j Cons.prems(3) by auto
  then have ne: "rseq \<noteq> sent_seq + 1" using Cons.prems(4) j(1) by auto
  have "\<exists>os. length os = length (old_sent sq1) \<and>
     ack_loop rseq (sent_seq + 1) qms sq1 =
       sq1\<lparr>need_ack_bytes := need_ack_bytes sq1 - sum_len qms, sent_queue := [], old_sent := os,
          send_seq := rseq, last_receive_sent_time := 0\<rparr>"
    by (rule Cons.IH [of _ j]) (use Cons.prems j in \<open>simp_all add: sq1_def add.assoc\<close>)
  then obtain os where os: "length os = length (old_sent sq1)" "ack_loop rseq (sent_seq + 1) qms sq1 =
       sq1\<lparr>need_ack_bytes := need_ack_bytes sq1 - sum_len qms, sent_queue := [], old_sent := os,
          send_seq := rseq, last_receive_sent_time := 0\<rparr>" by blast
  have e: "ack_loop rseq sent_seq (qm # qms) sq = ack_loop rseq (sent_seq + 1) qms sq1"
    using ne by (simp add: Let_def sq1_def)
  show ?case
    unfolding e os(2) using os(1) by (intro exI [of _ os]) (simp add: sq1_def diff_diff_eq)
qed

section \<open>Acknowledgements\<close>

lemma word_add_of_unat:
  fixes a r :: "'a::len word"
  assumes "unat r = unat a + k"
  shows "r = a + of_nat k"
proof -
  have "r = of_nat (unat r)" by simp
  then show ?thesis using assms by simp
qed

lemma ack_loop_frame [simp]:
  "serial_fd_type (ack_loop rseq s qms sq) = serial_fd_type sq"
  "client_id (ack_loop rseq s qms sq) = client_id sq" "need_sync (ack_loop rseq s qms sq) = need_sync sq"
  "rc_queue (ack_loop rseq s qms sq) = rc_queue sq"
  "upcoming_queues (ack_loop rseq s qms sq) = upcoming_queues sq"
  "upcoming_bytes (ack_loop rseq s qms sq) = upcoming_bytes sq"
  "need_kick_clock (ack_loop rseq s qms sq) = need_kick_clock sq"
  "min_release_clock (ack_loop rseq s qms sq) = min_release_clock sq"
  "receive_window (ack_loop rseq s qms sq) = receive_window sq"
  "bittime_adjust (ack_loop rseq s qms sq) = bittime_adjust sq"
  "idle_time (ack_loop rseq s qms sq) = idle_time sq" "sq_ce (ack_loop rseq s qms sq) = sq_ce sq"
  "ignore_nak_seq (ack_loop rseq s qms sq) = ignore_nak_seq sq"
  "last_ack_seq (ack_loop rseq s qms sq) = last_ack_seq sq"
  "retransmit_seq (ack_loop rseq s qms sq) = retransmit_seq sq"
  "ready_queues (ack_loop rseq s qms sq) = ready_queues sq"
  "ready_bytes (ack_loop rseq s qms sq) = ready_bytes sq"
  "notify_queue (ack_loop rseq s qms sq) = notify_queue sq"
  "fast_readers (ack_loop rseq s qms sq) = fast_readers sq"
  "command_queues (ack_loop rseq s qms sq) = command_queues sq"
  "other_sends (ack_loop rseq s qms sq) = other_sends sq" "rto (ack_loop rseq s qms sq) = rto sq"
  "pr (ack_loop rseq s qms sq) = pr sq"
  by (induction qms arbitrary: s sq) (simp_all add: Let_def)

lemma update_rto_frame [simp]:
  "serial_fd_type (update_rto t sq) = serial_fd_type sq" "client_id (update_rto t sq) = client_id sq"
  "need_sync (update_rto t sq) = need_sync sq" "rc_queue (update_rto t sq) = rc_queue sq"
  "upcoming_queues (update_rto t sq) = upcoming_queues sq"
  "upcoming_bytes (update_rto t sq) = upcoming_bytes sq"
  "need_kick_clock (update_rto t sq) = need_kick_clock sq"
  "min_release_clock (update_rto t sq) = min_release_clock sq"
  "receive_window (update_rto t sq) = receive_window sq"
  "bittime_adjust (update_rto t sq) = bittime_adjust sq" "idle_time (update_rto t sq) = idle_time sq"
  "sq_ce (update_rto t sq) = sq_ce sq" "ignore_nak_seq (update_rto t sq) = ignore_nak_seq sq"
  "last_ack_seq (update_rto t sq) = last_ack_seq sq"
  "retransmit_seq (update_rto t sq) = retransmit_seq sq"
  "ready_queues (update_rto t sq) = ready_queues sq" "ready_bytes (update_rto t sq) = ready_bytes sq"
  "notify_queue (update_rto t sq) = notify_queue sq" "fast_readers (update_rto t sq) = fast_readers sq"
  "command_queues (update_rto t sq) = command_queues sq" "other_sends (update_rto t sq) = other_sends sq"
  "send_seq (update_rto t sq) = send_seq sq" "sent_queue (update_rto t sq) = sent_queue sq"
  "need_ack_bytes (update_rto t sq) = need_ack_bytes sq"
  "last_ack_bytes (update_rto t sq) = last_ack_bytes sq"
  "last_receive_sent_time (update_rto t sq) = last_receive_sent_time sq"
  "old_sent (update_rto t sq) = old_sent sq" "receive_seq (update_rto t sq) = receive_seq sq"
  "pr (update_rto t sq) = pr sq"
  by (simp_all add: update_rto_def Let_def)

lemma update_rto_bounds: "MIN_RTO \<le> rto (update_rto t sq) \<and> rto (update_rto t sq) \<le> MAX_RTO"
  by (simp add: update_rto_def Let_def)

lemma update_receive_seq_frame [simp]:
  "serial_fd_type (update_receive_seq t rseq sq) = serial_fd_type sq"
  "client_id (update_receive_seq t rseq sq) = client_id sq"
  "need_sync (update_receive_seq t rseq sq) = need_sync sq"
  "rc_queue (update_receive_seq t rseq sq) = rc_queue sq"
  "upcoming_queues (update_receive_seq t rseq sq) = upcoming_queues sq"
  "upcoming_bytes (update_receive_seq t rseq sq) = upcoming_bytes sq"
  "need_kick_clock (update_receive_seq t rseq sq) = need_kick_clock sq"
  "min_release_clock (update_receive_seq t rseq sq) = min_release_clock sq"
  "receive_window (update_receive_seq t rseq sq) = receive_window sq"
  "bittime_adjust (update_receive_seq t rseq sq) = bittime_adjust sq"
  "idle_time (update_receive_seq t rseq sq) = idle_time sq"
  "sq_ce (update_receive_seq t rseq sq) = sq_ce sq"
  "ignore_nak_seq (update_receive_seq t rseq sq) = ignore_nak_seq sq"
  "last_ack_seq (update_receive_seq t rseq sq) = last_ack_seq sq"
  "retransmit_seq (update_receive_seq t rseq sq) = retransmit_seq sq"
  "ready_queues (update_receive_seq t rseq sq) = ready_queues sq"
  "ready_bytes (update_receive_seq t rseq sq) = ready_bytes sq"
  "notify_queue (update_receive_seq t rseq sq) = notify_queue sq"
  "fast_readers (update_receive_seq t rseq sq) = fast_readers sq"
  "command_queues (update_receive_seq t rseq sq) = command_queues sq"
  "other_sends (update_receive_seq t rseq sq) = other_sends sq"
  by (simp_all add: update_receive_seq_def Let_def split: list.splits)

lemma update_receive_seq_acked:
  "send_seq (update_receive_seq t rseq sq) = send_seq (ack_loop rseq (receive_seq sq) (sent_queue sq) sq)"
  "sent_queue (update_receive_seq t rseq sq) = sent_queue (ack_loop rseq (receive_seq sq) (sent_queue sq) sq)"
  "need_ack_bytes (update_receive_seq t rseq sq) = need_ack_bytes (ack_loop rseq (receive_seq sq) (sent_queue sq) sq)"
  "last_ack_bytes (update_receive_seq t rseq sq) = last_ack_bytes (ack_loop rseq (receive_seq sq) (sent_queue sq) sq)"
  "last_receive_sent_time (update_receive_seq t rseq sq) = last_receive_sent_time (ack_loop rseq (receive_seq sq) (sent_queue sq) sq)"
  "old_sent (update_receive_seq t rseq sq) = old_sent (ack_loop rseq (receive_seq sq) (sent_queue sq) sq)"
  "receive_seq (update_receive_seq t rseq sq) = rseq"
  by (simp_all add: update_receive_seq_def Let_def split: list.splits)

lemma update_receive_seq_rto:
  assumes "MIN_RTO \<le> rto sq" "rto sq \<le> MAX_RTO"
  shows "MIN_RTO \<le> rto (update_receive_seq t rseq sq) \<and> rto (update_receive_seq t rseq sq) \<le> MAX_RTO"
  using assms update_rto_bounds by (simp add: update_receive_seq_def Let_def split: list.splits)

lemma update_receive_seq_acks:
  assumes "window_inv sq" "unat rseq = unat (receive_seq sq) + Suc k" "k < length (sent_queue sq)"
  shows "window_inv (update_receive_seq t rseq sq)"
    "sent_queue (update_receive_seq t rseq sq) = drop (Suc k) (sent_queue sq)"
    "send_seq (update_receive_seq t rseq sq) = send_seq sq"
    "last_ack_bytes (update_receive_seq t rseq sq) = int (qm_len (sent_queue sq ! k))"
proof -
  let ?u = "update_receive_seq t rseq sq"
  have r: "rseq = receive_seq sq + of_nat (Suc k)"
    using assms(2) by (rule word_add_of_unat)
  obtain os where os: "length os = length (old_sent sq)" "ack_loop rseq (receive_seq sq) (sent_queue sq) sq =
       sq\<lparr>need_ack_bytes := need_ack_bytes sq - sum_len (take (Suc k) (sent_queue sq)),
          sent_queue := drop (Suc k) (sent_queue sq),
          old_sent := os, last_receive_sent_time := receive_time (sent_queue sq ! k),
          last_ack_bytes := int (qm_len (sent_queue sq ! k))\<rparr>"
    using ack_loop_drop [OF assms(3) refl r] assms(1) by (auto simp: window_inv_def)
  note a = update_receive_seq_acked [of t rseq sq, unfolded os(2), simplified]
  have b: "is_block (unat rseq + i) (sent_queue sq ! (Suc k + i))" if "Suc k + i < length (sent_queue sq)" for i
    using that assms(1,2) unfolding window_inv_def by (metis add.assoc)
  show "window_inv ?u"
    using assms a os(1) b update_receive_seq_rto [of sq t rseq] unfolding window_inv_def
    by (auto simp: sum_len_drop add.commute)
  show "sent_queue ?u = drop (Suc k) (sent_queue sq)" "send_seq ?u = send_seq sq"
    "last_ack_bytes ?u = int (qm_len (sent_queue sq ! k))" using a by simp_all
qed

lemma update_receive_seq_init:
  assumes "window_inv sq" "unat rseq = unat (receive_seq sq) + k" "length (sent_queue sq) < k"
  shows "window_inv (update_receive_seq t rseq sq)"
    "sent_queue (update_receive_seq t rseq sq) = []"
    "send_seq (update_receive_seq t rseq sq) = rseq"
proof -
  let ?u = "update_receive_seq t rseq sq"
  have r: "rseq = receive_seq sq + of_nat k"
    using assms(2) by (rule word_add_of_unat)
  have "k < 2 ^ 64" using assms(2) unsigned_less [of rseq, where 'a = nat] by simp
  then obtain os where os: "length os = length (old_sent sq)" "ack_loop rseq (receive_seq sq) (sent_queue sq) sq =
       sq\<lparr>need_ack_bytes := need_ack_bytes sq - sum_len (sent_queue sq), sent_queue := [], old_sent := os,
          send_seq := rseq, last_receive_sent_time := 0\<rparr>"
    using ack_loop_beyond [OF refl assms(3) _ r] by auto
  note a = update_receive_seq_acked [of t rseq sq, unfolded os(2), simplified]
  show "window_inv ?u"
    using assms a os(1) update_receive_seq_rto [of sq t rseq] unfolding window_inv_def by simp
  show "sent_queue ?u = []" "send_seq ?u = rseq" using a by simp_all
qed

text \<open>The number of a received block lies within 15 of the last one, and has its low bits.\<close>

lemma receive_rseq_near:
  assumes "unat (receive_seq sq) < 2 ^ 63"
  shows "\<exists>d<16. unat (receive_rseq sq) = unat (receive_seq sq) + d \<and>
     of_nat d = (ucast (input_buf sq ! 1) - receive_seq sq) AND 0x0f"
proof -
  define d where "d = unat ((ucast (input_buf sq ! 1) - receive_seq sq) AND 0x0f)"
  have d16: "d < 16"
    unfolding d_def using word_and_le1 [of "ucast (input_buf sq ! 1) - receive_seq sq" "0x0f :: u64"]
    by (simp add: word_le_nat_alt)
  have od: "(of_nat d :: u64) = (ucast (input_buf sq ! 1) - receive_seq sq) AND 0x0f" by (simp add: d_def)
  have m: "(0x0f :: u64) = mask 4" by (simp add: mask_eq_exp_minus_1)
  have "(ucast (ucast (of_nat d :: u64) :: u32) :: u64) = of_nat d"
    unfolding od m by (rule bit_word_eqI) (auto simp: bit_simps)
  then have "receive_rseq sq = receive_seq sq + of_nat d"
    unfolding receive_rseq_def Let_def od [symmetric] by simp
  moreover have "unat (receive_seq sq + of_nat d) = unat (receive_seq sq) + d"
    using d16 assms unat_of_nat_small [of d, where 'a = 64] by (subst unat_add_lem [THEN iffD1]) auto
  ultimately show ?thesis using d16 od by auto
qed

section \<open>Receiving a block\<close>

text \<open>The state after the part of \<^verbatim>\<open>handle_message\<close> that looks at the sequence number.\<close>

definition seq_accepted :: "serialqueue \<Rightarrow> bool" where
  "seq_accepted sq \<longleftrightarrow>
     receive_rseq sq = receive_seq sq \<or> \<not> receive_rseq sq > send_seq sq \<or> receive_seq sq = 1"

definition acked :: "real \<Rightarrow> serialqueue \<Rightarrow> serialqueue" where
  "acked t sq =
     (if seq_accepted sq \<and> receive_rseq sq \<noteq> receive_seq sq then update_receive_seq t (receive_rseq sq) sq
      else sq)"

lemma dispatch_fastreader_keeps:
  assumes "\<And>sq x. f (sq\<lparr>fr_calls := x\<rparr>) = f sq"
  shows "f (dispatch_fastreader t len frs sq) = f sq"
  by (induction frs) (simp_all add: assms)

lemma handle_message_keeps:
  assumes "\<And>sq x. f (sq\<lparr>bytes_invalid := x\<rparr>) = f sq" "\<And>sq x. f (sq\<lparr>bytes_read := x\<rparr>) = f sq"
    and "\<And>sq x. f (sq\<lparr>notify_queue := x\<rparr>) = f sq" "\<And>sq x. f (sq\<lparr>last_ack_seq := x\<rparr>) = f sq"
    and "\<And>sq x. f (sq\<lparr>os_now_reads := x\<rparr>) = f sq" "\<And>sq p x. f (pollreactor_update_timer p x sq) = f sq"
    and "\<And>sq x. f (receive_append_wake x sq) = f sq" "\<And>sq x. f (sq\<lparr>fr_calls := x\<rparr>) = f sq"
    and "handle_message t len sq = Ok u sq'"
  shows "f sq' = f (acked t sq)"
proof -
  have p: "f s' = f s" if "process_message r l s = Ok d s'" for r l s d s'
    using that assms(4-6)
    by (auto simp: process_message_def Let_def get_monotonic_def split: if_splits option.splits)
  show ?thesis
    using assms(9)
    by (auto simp: handle_message_def acked_def seq_accepted_def Let_def andthen_Ok_iff assms(1-3,7)
        dispatch_fastreader_keeps [of f, OF assms(8)] dest!: p split: if_splits prod.splits)
qed

lemma handle_message_frame:
  assumes "handle_message t len sq = Ok u sq'"
  shows
  "serial_fd_type sq' = serial_fd_type (acked t sq)" "client_id sq' = client_id (acked t sq)"
  "input_buf sq' = input_buf (acked t sq)" "need_sync sq' = need_sync (acked t sq)"
  "input_pos sq' = input_pos (acked t sq)" "upcoming_queues sq' = upcoming_queues (acked t sq)"
  "upcoming_bytes sq' = upcoming_bytes (acked t sq)" "need_kick_clock sq' = need_kick_clock (acked t sq)"
  "min_release_clock sq' = min_release_clock (acked t sq)"
  "receive_window sq' = receive_window (acked t sq)" "bittime_adjust sq' = bittime_adjust (acked t sq)"
  "idle_time sq' = idle_time (acked t sq)" "sq_ce sq' = sq_ce (acked t sq)"
  "send_seq sq' = send_seq (acked t sq)" "receive_seq sq' = receive_seq (acked t sq)"
  "retransmit_seq sq' = retransmit_seq (acked t sq)" "ignore_nak_seq sq' = ignore_nak_seq (acked t sq)"
  "sent_queue sq' = sent_queue (acked t sq)" "rto sq' = rto (acked t sq)"
  "ready_queues sq' = ready_queues (acked t sq)" "ready_bytes sq' = ready_bytes (acked t sq)"
  "need_ack_bytes sq' = need_ack_bytes (acked t sq)" "last_ack_bytes sq' = last_ack_bytes (acked t sq)"
  "fast_readers sq' = fast_readers (acked t sq)" "old_sent sq' = old_sent (acked t sq)"
  "command_queues sq' = command_queues (acked t sq)" "other_sends sq' = other_sends (acked t sq)"
  "fd_log sq' = fd_log (acked t sq)"
  by (rule handle_message_keeps [OF _ _ _ _ _ _ _ _ assms];
      simp add: pollreactor_update_timer_def note_waketime_def receive_append_wake_def Let_def)+

lemma message_fill_fits: "len \<le> MESSAGE_MAX \<Longrightarrow> message_fill buf len \<noteq> None"
  by (simp add: message_fill_def write_at_def message_alloc_def)

lemma process_message_ok:
  assumes "len \<le> MESSAGE_MAX"
  obtains d sq' where "process_message r len sq = Ok d sq'"
proof -
  obtain qm where "message_fill (input_buf sq) len = Some qm"
    using message_fill_fits [OF assms, of "input_buf sq"] by (cases "message_fill (input_buf sq) len") simp_all
  then have "\<exists>d sq'. process_message r len sq = Ok d sq'"
    by (cases "len = MESSAGE_MIN") (simp_all add: process_message_def Let_def get_monotonic_def)
  then show thesis using that by blast
qed

lemma andthen_total:
  "r = Ok a s \<Longrightarrow> (\<And>a s. \<exists>b t. f a s = Ok b t) \<Longrightarrow> \<exists>b t. andthen r f = Ok b t"
  by simp

lemma handle_message_ok:
  assumes "len \<le> MESSAGE_MAX"
  obtains sq' where "handle_message t len sq = Ok () sq'"
proof -
  have "\<exists>u sq'. handle_message t len sq = Ok u sq'"
  proof (cases "receive_rseq sq \<noteq> receive_seq sq \<and> receive_rseq sq > send_seq sq \<and> receive_seq sq \<noteq> 1")
    case True
    then show ?thesis by (simp add: handle_message_def Let_def)
  next
    case False
    have "\<exists>u sq'. andthen (process_message (receive_rseq sq) len sq1) (\<lambda>d s. Ok () (g d s)) = Ok u sq'"
      for sq1 g
      by (rule process_message_ok [OF assms, of "receive_rseq sq" sq1], erule andthen_total) simp
    with False show ?thesis
      unfolding handle_message_def Let_def case_prod_beta' by (simp only: if_False)
  qed
  then show thesis using that by auto
qed

lemma window_inv_seq63: "window_inv sq \<Longrightarrow> unat (send_seq sq) < 2 ^ 63 \<Longrightarrow> unat (receive_seq sq) < 2 ^ 63"
  by (simp add: window_inv_def)

text \<open>Whatever block arrives, the window stays consistent.\<close>

lemma acked_cases:
  assumes "window_inv sq" "unat (send_seq sq) < 2 ^ 63"
  obtains (Same) "acked t sq = sq"
  | (Acks) k where "k < length (sent_queue sq)" "unat (receive_rseq sq) = unat (receive_seq sq) + Suc k"
      "acked t sq = update_receive_seq t (receive_rseq sq) sq"
  | (Init) k where "length (sent_queue sq) < k" "k < 16" "unat (receive_rseq sq) = unat (receive_seq sq) + k"
      "receive_seq sq = 1" "acked t sq = update_receive_seq t (receive_rseq sq) sq"
proof -
  obtain d where d: "d < 16" "unat (receive_rseq sq) = unat (receive_seq sq) + d"
    using receive_rseq_near [OF window_inv_seq63 [OF assms]] by blast
  show thesis
  proof (cases "seq_accepted sq \<and> receive_rseq sq \<noteq> receive_seq sq")
    case True
    then have a: "acked t sq = update_receive_seq t (receive_rseq sq) sq" by (simp add: acked_def)
    have d0: "d \<noteq> 0" using True d(2) by (metis add_0_right word_unat_eq_iff)
    show thesis
    proof (cases "d \<le> length (sent_queue sq)")
      case True
      with d0 d a show thesis by (intro Acks [of "d - 1"]) auto
    next
      case False
      with d(2) assms(1) have "receive_rseq sq > send_seq sq" by (simp add: word_less_nat_alt window_inv_def)
      with \<open>seq_accepted sq \<and> receive_rseq sq \<noteq> receive_seq sq\<close>
      have "receive_seq sq = 1" by (auto simp: seq_accepted_def)
      with False d a show thesis by (intro Init [of d]) auto
    qed
  next
    case False
    then show thesis by (intro Same) (auto simp: acked_def)
  qed
qed

lemma acked_window:
  assumes "window_inv sq" "unat (send_seq sq) < 2 ^ 63"
  shows "window_inv (acked t sq)"
  using assms
proof (cases rule: acked_cases [of sq t])
  case Same
  with assms(1) show ?thesis by simp
next
  case (Acks k)
  with update_receive_seq_acks(1) [OF assms(1) Acks(2,1)] show ?thesis by simp
next
  case (Init k)
  with update_receive_seq_init(1) [OF assms(1) Init(3,1)] show ?thesis by simp
qed

lemma handle_message_window:
  assumes "window_inv sq" "unat (send_seq sq) < 2 ^ 63" "handle_message t len sq = Ok u sq'"
  shows "window_inv sq'"
  using acked_window [OF assms(1,2), of t] unfolding window_inv_def handle_message_frame [OF assms(3)] .

section \<open>Reading\<close>

lemma msgblock_check_zero:
  assumes "msgblock_check ns buf n = (0, ns')"
  shows "n < MESSAGE_MAX"
proof (cases "n < 5")
  case False
  then have "fst (msgblock_resync buf n) \<noteq> 0"
    using msgblock_resync_neg [of buf n "fst (msgblock_resync buf n)" "snd (msgblock_resync buf n)"] by auto
  moreover define m where "m = unat (buf ! 0)"
  moreover have "uint (buf ! 0) = int m" by (simp add: m_def)
  ultimately show ?thesis
    using assms False by (auto simp: msgblock_check_def Let_def m_def [symmetric] split: if_splits)
qed simp

lemma msgblock_check_pos:
  assumes "msgblock_check ns buf n = (len, ns')" "len > 0"
  shows "MESSAGE_MIN \<le> nat len \<and> nat len \<le> MESSAGE_MAX \<and> nat len \<le> n"
proof -
  have n5: "\<not> n < 5" using assms by (auto simp: msgblock_check_def)
  then have "fst (msgblock_resync buf n) < 0"
    using msgblock_resync_neg [of buf n "fst (msgblock_resync buf n)" "snd (msgblock_resync buf n)"] by auto
  with assms n5 show ?thesis
    by (auto simp: msgblock_check_def Let_def split: if_splits)
qed

lemma acked_send_seq:
  assumes "window_inv sq" "unat (send_seq sq) < 2 ^ 63"
  shows "unat (send_seq (acked t sq)) < 2 ^ 63"
  using assms
proof (cases rule: acked_cases [of sq t])
  case Same
  with assms show ?thesis by simp
next
  case (Acks k)
  with assms update_receive_seq_acks(3) [OF assms(1) Acks(2,1)] show ?thesis by simp
next
  case (Init k)
  with update_receive_seq_init(3) [OF assms(1) Init(3,1)] show ?thesis by simp
qed

text \<open>The fields of the transmit queues.\<close>

definition queue_part where
  "queue_part sq =
     (ready_queues sq, ready_bytes sq, upcoming_queues sq, upcoming_bytes sq, min_release_clock sq,
      need_kick_clock sq, command_queues sq, other_sends sq)"

lemma queues_inv_part: "queue_part sq = queue_part sq' \<Longrightarrow> queues_inv sq = queues_inv sq'"
  by (simp add: queue_part_def queues_inv_def release_ok_def)

lemma acked_queue_part: "queue_part (acked t sq) = queue_part sq"
  by (simp add: acked_def queue_part_def)

lemma handle_message_queue_part: "handle_message t len sq = Ok u sq' \<Longrightarrow> queue_part sq' = queue_part sq"
  using acked_queue_part [of t sq] by (simp add: queue_part_def handle_message_frame)

lemma input_shift_frame [simp]:
  "queue_part (input_shift n sq) = queue_part sq" "window_inv (input_shift n sq) = window_inv sq"
  "send_seq (input_shift n sq) = send_seq sq" "input_pos (input_shift n sq) = input_pos sq - n"
  by (simp_all add: input_shift_def Let_def queue_part_def window_inv_def)

lemma input_shift_length:
  "n \<le> input_pos sq \<Longrightarrow> input_pos sq \<le> length (input_buf sq) \<Longrightarrow>
   length (input_buf (input_shift n sq)) = length (input_buf sq)"
  by (simp add: input_shift_def Let_def)

text \<open>The loop handles every block in the buffer and leaves less than one.\<close>

lemma input_loop_total:
  assumes "window_inv sq" "unat (send_seq sq) < 2 ^ 63"
    and "length (input_buf sq) = INPUT_BUF_SIZE" "input_pos sq \<le> INPUT_BUF_SIZE"
  shows "\<exists>sq'. input_loop t sq = Ok () sq' \<and> window_inv sq' \<and> unat (send_seq sq') < 2 ^ 63 \<and>
     input_inv sq' \<and> queue_part sq' = queue_part sq"
  using assms
proof (induction t sq rule: input_loop.induct)
  case (1 t sq)
  obtain len ns where c: "msgblock_check (need_sync sq) (input_buf sq) (input_pos sq) = (len, ns)"
    by (cases "msgblock_check (need_sync sq) (input_buf sq) (input_pos sq)")
  define sq1 where "sq1 = sq\<lparr>need_sync := ns\<rparr>"
  have sq1: "window_inv sq1" "unat (send_seq sq1) < 2 ^ 63" "queue_part sq1 = queue_part sq"
    "input_buf sq1 = input_buf sq" "input_pos sq1 = input_pos sq"
    using 1 by (simp_all add: sq1_def window_inv_def queue_part_def)
  have b: "\<bar>len\<bar> \<le> int (input_pos sq)" using msgblock_check_bounds [OF c] .
  consider "len = 0" | "len > 0" | "len < 0" by linarith
  then show ?case
  proof cases
    case 1
    then have "input_loop t sq = Ok () sq1" by (subst input_loop.simps) (simp add: c sq1_def)
    moreover have "input_inv sq1"
      using msgblock_check_zero [OF c [unfolded 1]] sq1(4,5) \<open>length (input_buf sq) = 4096\<close>
      by (simp add: input_inv_def)
    ultimately show ?thesis using sq1 by blast
  next
    case 2
    obtain sq2 where h: "handle_message t (nat len) sq1 = Ok () sq2"
      using handle_message_ok msgblock_check_pos [OF c 2] by blast
    define sq3 where "sq3 = input_shift (nat len) sq2"
    note f = handle_message_frame [OF h] handle_message_input [OF h]
    have e: "input_loop t sq = input_loop t sq3"
      by (subst input_loop.simps) (use 2 h in \<open>simp add: c sq3_def sq1_def\<close>)
    have "window_inv sq3" using handle_message_window [OF sq1(1,2) h] by (simp add: sq3_def)
    moreover have "unat (send_seq sq3) < 2 ^ 63"
      using acked_send_seq [OF sq1(1,2), of t] by (simp add: sq3_def f)
    moreover have "length (input_buf sq3) = 4096" "input_pos sq3 \<le> 4096"
      using input_shift_length [of "nat len" sq2] f(29,30) sq1(4,5) b 1(5,6) by (simp_all add: sq3_def)
    moreover have "queue_part sq3 = queue_part sq"
      using handle_message_queue_part [OF h] sq1(3) by (simp add: sq3_def)
    ultimately show ?thesis unfolding e
      using 1(1) [OF c [symmetric] refl sq1_def _ 2 h] 2 by (simp add: sq3_def)
  next
    case 3
    define sq2 where "sq2 = sq1\<lparr>bytes_invalid := bytes_invalid sq1 + of_int (- len)\<rparr>"
    define sq3 where "sq3 = input_shift (nat (- len)) sq2"
    have e: "input_loop t sq = input_loop t sq3"
      by (subst input_loop.simps) (use 3 in \<open>simp add: c sq3_def sq2_def sq1_def\<close>)
    have "window_inv sq2" "unat (send_seq sq2) < 2 ^ 63" "queue_part sq2 = queue_part sq"
      using sq1 by (simp_all add: sq2_def window_inv_def queue_part_def)
    then have "window_inv sq3" "unat (send_seq sq3) < 2 ^ 63" "queue_part sq3 = queue_part sq"
      by (simp_all add: sq3_def)
    moreover have "length (input_buf sq3) = 4096" "input_pos sq3 \<le> 4096"
      using input_shift_length [of "nat (- len)" sq2] sq1(4,5) b 1(5,6) by (simp_all add: sq3_def sq2_def)
    ultimately show ?thesis unfolding e
      using 1(2) [OF c [symmetric] refl sq1_def] 3 by (simp add: sq3_def sq2_def)
  qed
qed

section \<open>Transmit queues\<close>

lemma queue_ok_push:
  assumes "queue_ok f qs n" "\<forall>m\<in>set ms. msg_ok m"
  shows "queue_ok (f(q := f q @ ms)) (if f q = [] \<and> ms \<noteq> [] then qs @ [q] else qs) (n + sum_len ms)"
proof (cases "q \<in> set qs")
  case True
  then have "f q \<noteq> []" using assms(1) by (simp add: queue_ok_def)
  moreover have "(\<Sum>x\<in>set qs. sum_len ((f(q := f q @ ms)) x)) = (\<Sum>x\<in>set qs. sum_len (f x)) + sum_len ms"
    using True by (simp add: sum.remove [of _ q])
  ultimately show ?thesis using assms by (auto simp: queue_ok_def)
next
  case False
  then have e: "f q = []" using assms(1) by (auto simp: queue_ok_def)
  have "(\<Sum>x\<in>set qs. sum_len ((f(q := ms)) x)) = (\<Sum>x\<in>set qs. sum_len (f x))"
    by (rule sum.cong) (use False in auto)
  with False e assms show ?thesis by (auto simp: queue_ok_def)
qed

lemma queue_ok_drop:
  assumes "queue_ok f qs n" "q \<in> set qs" "f q = a @ b"
  shows "queue_ok (f(q := b)) (if b = [] then remove1 q qs else qs) (n - sum_len a)"
proof -
  have s: "(\<Sum>x\<in>set qs. sum_len (f x)) = sum_len a + sum_len b + (\<Sum>x\<in>set qs - {q}. sum_len (f x))"
    using assms(2,3) by (simp add: sum.remove [of _ q])
  have s1: "(\<Sum>x\<in>set qs. sum_len ((f(q := b)) x)) = sum_len b + (\<Sum>x\<in>set qs - {q}. sum_len (f x))"
    using assms(2) by (simp add: sum.remove [of _ q])
  have s2: "(\<Sum>x\<in>set qs - {q}. sum_len ((f(q := b)) x)) = (\<Sum>x\<in>set qs - {q}. sum_len (f x))"
    by (rule sum.cong) auto
  have "\<forall>m\<in>set b. msg_ok m" using assms(1,3) unfolding queue_ok_def by (metis Un_iff set_append)
  with assms s s1 s2 show ?thesis by (auto simp: queue_ok_def)
qed

text \<open>Properties that do not look at the transmit queues.\<close>

definition queue_stable :: "(serialqueue \<Rightarrow> 'a) \<Rightarrow> bool" where
  "queue_stable f \<longleftrightarrow>
     (\<forall>sq x. f (sq\<lparr>upcoming_queues := x\<rparr>) = f sq) \<and> (\<forall>sq x. f (sq\<lparr>min_release_clock := x\<rparr>) = f sq) \<and>
     (\<forall>sq x. f (sq\<lparr>need_kick_clock := x\<rparr>) = f sq) \<and> (\<forall>sq x. f (sq\<lparr>command_queues := x\<rparr>) = f sq) \<and>
     (\<forall>sq x. f (sq\<lparr>upcoming_bytes := x\<rparr>) = f sq) \<and> (\<forall>sq x. f (sq\<lparr>ready_bytes := x\<rparr>) = f sq) \<and>
     (\<forall>sq x. f (sq\<lparr>ready_queues := x\<rparr>) = f sq) \<and> (\<forall>sq x. f (sq\<lparr>pipe_kicks := x\<rparr>) = f sq) \<and>
     (\<forall>sq x. f (sq\<lparr>other_sends := x\<rparr>) = f sq)"

lemma send_batch_stable:
  assumes "queue_stable f"
  shows "f (serialqueue_send_batch cq ms sq) = f sq"
  using assms
  by (simp add: queue_stable_def serialqueue_send_batch_def kick_bg_thread_def Let_def)

lemma transmit_lock_stable:
  assumes "queue_stable f"
  shows "f (transmit_lock sq) = f sq"
proof -
  have "f (fold (\<lambda>(cq, ms). serialqueue_send_batch cq ms) b s) = f s" for b s
    using assms by (induction b arbitrary: s) (auto simp: send_batch_stable)
  then show ?thesis
    using assms by (simp add: transmit_lock_def queue_stable_def split: list.splits)
qed

lemma upcoming_loop_stable:
  assumes "queue_stable f"
  shows "f (snd (upcoming_loop ack cqs st sq)) = f sq"
  using assms
  by (induction cqs arbitrary: st sq) (simp_all add: queue_stable_def Let_def split: prod.splits)

lemma check_upcoming_stable:
  assumes "queue_stable f"
  shows "f (snd (check_upcoming_queues ack sq)) = f sq"
  using assms transmit_lock_stable [OF assms, of sq] upcoming_loop_stable [OF assms]
  by (simp add: check_upcoming_queues_def Let_def queue_stable_def case_prod_beta)

lemma update_kick_stable:
  assumes "queue_stable f"
  shows "f (snd (update_need_kick_clock want sq)) = f sq"
  using assms transmit_lock_stable [OF assms, of sq]
  by (auto simp: update_need_kick_clock_def Let_def queue_stable_def)

lemma limit_min_clock_ok [simp]: "msg_ok (limit_min_clock m) = msg_ok m" "qm_len (limit_min_clock m) = qm_len m"
  by (simp_all add: msg_ok_def limit_min_clock_def)

lemma sum_len_limit [simp]: "sum_len (map limit_min_clock ms) = sum_len ms"
  by (induction ms) simp_all

text \<open>What \<^verbatim>\<open>serialqueue_send_batch\<close> leaves in the queues.\<close>

lemma send_batch_queues:
  assumes "sum_len ms \<noteq> 0"
  shows "upcoming_of (serialqueue_send_batch cq ms sq) =
      (upcoming_of sq)(cq := upcoming_of sq cq @ map limit_min_clock ms)"
    "ready_of (serialqueue_send_batch cq ms sq) = ready_of sq"
    "upcoming_queues (serialqueue_send_batch cq ms sq) =
      (if upcoming_of sq cq = [] then upcoming_queues sq @ [cq] else upcoming_queues sq)"
    "upcoming_bytes (serialqueue_send_batch cq ms sq) = upcoming_bytes sq + sum_len ms"
    "min_release_clock (serialqueue_send_batch cq ms sq) =
      (if upcoming_of sq cq = [] then min (min_release_clock sq) (min_clock (limit_min_clock (hd ms)))
       else min_release_clock sq)"
    "need_kick_clock (serialqueue_send_batch cq ms sq) =
      (if upcoming_of sq cq = [] \<and> min_clock (limit_min_clock (hd ms)) < need_kick_clock sq then 0
       else need_kick_clock sq)"
    "pipe_kicks (serialqueue_send_batch cq ms sq) =
      (if upcoming_of sq cq = [] \<and> min_clock (limit_min_clock (hd ms)) < need_kick_clock sq
       then Suc (pipe_kicks sq) else pipe_kicks sq)"
  using assms
  by (cases ms; auto simp: serialqueue_send_batch_def Let_def kick_bg_thread_def min_def fun_eq_iff)+

lemma send_batch_frame [simp]:
  "ready_queues (serialqueue_send_batch cq ms sq) = ready_queues sq"
  "ready_bytes (serialqueue_send_batch cq ms sq) = ready_bytes sq"
  "other_sends (serialqueue_send_batch cq ms sq) = other_sends sq"
  by (simp_all add: serialqueue_send_batch_def Let_def kick_bg_thread_def)

lemma send_batch_inv:
  assumes "queues_inv sq" "\<forall>m\<in>set ms. msg_ok m"
  shows "queues_inv (serialqueue_send_batch cq ms sq)"
proof (cases "sum_len ms = 0")
  case True
  with assms show ?thesis by (simp add: serialqueue_send_batch_def)
next
  case False
  let ?s = "serialqueue_send_batch cq ms sq"
  note b = send_batch_queues [OF False, of cq sq]
  have ne: "ms \<noteq> []" using False by auto
  have "queue_ok (upcoming_of ?s) (upcoming_queues ?s) (upcoming_bytes ?s)"
    using queue_ok_push [of "upcoming_of sq" "upcoming_queues sq" "upcoming_bytes sq" "map limit_min_clock ms" cq]
      assms ne unfolding b by (simp add: queues_inv_def)
  moreover have "release_ok ?s"
    using assms(1) ne fun_cong [OF b(1)]
    by (auto simp: b(3,5) release_ok_def queues_inv_def hd_append hd_map min.coboundedI1)
  ultimately show ?thesis using assms(1) by (simp add: queues_inv_def b)
qed

lemma transmit_lock_inv:
  assumes "queues_inv sq"
  shows "queues_inv (transmit_lock sq)"
proof (cases "other_sends sq")
  case Nil
  with assms show ?thesis by (simp add: transmit_lock_def)
next
  case (Cons b bs)
  have "queues_inv (fold (\<lambda>(cq, ms). serialqueue_send_batch cq ms) b s)"
    if "queues_inv s" "\<forall>(cq, ms)\<in>set b. \<forall>m\<in>set ms. msg_ok m" for b s
    using that by (induction b arbitrary: s) (auto simp: send_batch_inv)
  moreover have "queues_inv (sq\<lparr>other_sends := bs\<rparr>)"
    using assms Cons by (auto simp: queues_inv_def release_ok_def)
  moreover have "\<forall>(cq, ms)\<in>set b. \<forall>m\<in>set ms. msg_ok m" using assms Cons by (simp add: queues_inv_def)
  ultimately show ?thesis by (simp add: transmit_lock_def Cons)
qed

lemma release_loop_spec:
  assumes "release_loop ack ms st = (moved, rest, st')"
  shows "ms = moved @ rest" "\<forall>m\<in>set moved. min_clock m \<le> ack" "st' \<le> st"
    "rest \<noteq> [] \<Longrightarrow> ack < min_clock (hd rest) \<and> st' \<le> min_clock (hd rest)"
  using assms
  by (induction ms arbitrary: moved) (auto split: if_splits prod.splits)

definition stalled_ok :: "u64 \<Rightarrow> nat set \<Rightarrow> serialqueue \<Rightarrow> bool" where
  "stalled_ok st skip sq \<longleftrightarrow>
     (\<forall>q\<in>set (upcoming_queues sq) - skip. st \<le> min_clock (hd (upcoming_of sq q)))"

lemma upcoming_loop_inv:
  assumes "queue_ok (ready_of sq) (ready_queues sq) (ready_bytes sq)"
    and "queue_ok (upcoming_of sq) (upcoming_queues sq) (upcoming_bytes sq)"
    and "distinct cqs" "set cqs \<subseteq> set (upcoming_queues sq)" "stalled_ok st (set cqs) sq"
    and "upcoming_loop ack cqs st sq = (st', sq')"
  shows "queue_ok (ready_of sq') (ready_queues sq') (ready_bytes sq') \<and>
     queue_ok (upcoming_of sq') (upcoming_queues sq') (upcoming_bytes sq') \<and>
     stalled_ok st' {} sq' \<and> other_sends sq' = other_sends sq"
  using assms
proof (induction cqs arbitrary: st sq)
  case (Cons cq cqs)
  obtain moved rest st1 where r: "release_loop ack (upcoming_of sq cq) st = (moved, rest, st1)"
    by (cases "release_loop ack (upcoming_of sq cq) st")
  note rs = release_loop_spec [OF r]
  define sq1 where "sq1 = sq\<lparr>command_queues := (command_queues sq)(cq := \<lparr>cq_ready = ready_of sq cq @ moved, cq_upcoming = rest\<rparr>),
      upcoming_bytes := upcoming_bytes sq - sum_len moved, ready_bytes := ready_bytes sq + sum_len moved,
      upcoming_queues := (if rest = [] then remove1 cq (upcoming_queues sq) else upcoming_queues sq),
      ready_queues := (if ready_of sq cq = [] \<and> ready_of sq cq @ moved \<noteq> [] then ready_queues sq @ [cq] else ready_queues sq)\<rparr>"
  have e: "upcoming_loop ack cqs st1 sq1 = (st', sq')"
    using Cons.prems(6) by (simp add: r sq1_def Let_def)
  have f: "ready_of sq1 = (ready_of sq)(cq := ready_of sq cq @ moved)" "upcoming_of sq1 = (upcoming_of sq)(cq := rest)"
    by (auto simp: sq1_def fun_eq_iff)
  have up: "cq \<in> set (upcoming_queues sq)" using Cons.prems(4) by simp
  have mok: "\<forall>m\<in>set moved. msg_ok m"
    using Cons.prems(2) rs(1) unfolding queue_ok_def by (metis Un_iff set_append)
  have "queue_ok (ready_of sq1) (ready_queues sq1) (ready_bytes sq1)"
    using queue_ok_push [OF Cons.prems(1) mok, of cq] unfolding f
    by (auto simp: sq1_def split: if_splits)
  moreover have "queue_ok (upcoming_of sq1) (upcoming_queues sq1) (upcoming_bytes sq1)"
    using queue_ok_drop [OF Cons.prems(2) up, of moved rest] rs(1) unfolding f by (simp add: sq1_def)
  moreover have "set cqs \<subseteq> set (upcoming_queues sq1)"
    using Cons.prems(2-4) by (auto simp: sq1_def queue_ok_def)
  moreover have "stalled_ok st1 (set cqs) sq1"
    unfolding stalled_ok_def
  proof
    fix q assume q: "q \<in> set (upcoming_queues sq1) - set cqs"
    show "st1 \<le> min_clock (hd (upcoming_of sq1 q))"
    proof (cases "q = cq")
      case True
      with q Cons.prems(2) have "rest \<noteq> []" by (auto simp: sq1_def queue_ok_def split: if_splits)
      with True rs(4) show ?thesis by (simp add: sq1_def)
    next
      case False
      with q have "q \<in> set (upcoming_queues sq) - set (cq # cqs)"
        using set_remove1_subset [of cq "upcoming_queues sq"] by (auto simp: sq1_def split: if_splits)
      with Cons.prems(5) have "st \<le> min_clock (hd (upcoming_of sq q))" by (auto simp: stalled_ok_def)
      with rs(3) False show ?thesis by (simp add: sq1_def)
    qed
  qed
  ultimately show ?case
    using Cons.IH [OF _ _ _ _ _ e] Cons.prems(3) by (simp add: sq1_def)
qed (simp add: stalled_ok_def)

lemma check_upcoming_inv:
  assumes "queues_inv sq"
  shows "queues_inv (snd (check_upcoming_queues ack sq))"
proof -
  define s1 where "s1 = (transmit_lock sq)\<lparr>need_kick_clock := 0\<rparr>"
  have i: "queues_inv s1" using transmit_lock_inv [OF assms] by (simp add: s1_def queues_inv_def release_ok_def)
  obtain st s2 where l: "upcoming_loop ack (upcoming_queues s1) MAX_CLOCK s1 = (st, s2)"
    by (cases "upcoming_loop ack (upcoming_queues s1) MAX_CLOCK s1")
  have q: "queue_ok (ready_of s1) (ready_queues s1) (ready_bytes s1)"
    "queue_ok (upcoming_of s1) (upcoming_queues s1) (upcoming_bytes s1)"
    using i by (simp_all add: queues_inv_def)
  have d: "distinct (upcoming_queues s1)" using q(2) by (simp add: queue_ok_def)
  have "queues_inv (s2\<lparr>min_release_clock := st\<rparr>)"
    using upcoming_loop_inv [OF q d order_refl _ l] i
    by (simp add: queues_inv_def release_ok_def stalled_ok_def)
  with i show ?thesis
    unfolding check_upcoming_queues_def Let_def s1_def [symmetric] by (simp add: l)
qed

lemma update_kick_inv:
  assumes "queues_inv sq"
  shows "queues_inv (snd (update_need_kick_clock want sq))"
  using transmit_lock_inv [OF assms]
  by (auto simp: update_need_kick_clock_def Let_def queues_inv_def release_ok_def)

text \<open>Looking for what to send never reads an empty queue, and keeps all invariants.\<close>

lemma min_ready_loop_total:
  assumes "\<forall>q\<in>set qs. ready_of sq q \<noteq> []"
  shows "min_ready_loop sq bgtime qs minc \<noteq> None"
  using assms by (induction qs arbitrary: minc) (auto simp: Let_def split: list.splits)

lemma check_send_stable:
  assumes "queue_stable f" "check_send_command pn t sq = Ok w sq'"
  shows "f sq' = f sq"
proof -
  have c: "f s' = f s" if "check_upcoming_queues a s = (x, s')" for a s x s'
    using check_upcoming_stable [OF assms(1), of a s] that by simp
  have u: "f s' = f s" if "update_need_kick_clock a s = (x, s')" for a s x s'
    using update_kick_stable [OF assms(1), of a s] that by simp
  show ?thesis
    using assms(2)
    by (auto simp: check_send_command_def Let_def split: if_splits prod.splits option.splits dest!: c u)
qed

lemma check_send_inv:
  assumes "queues_inv sq" "check_send_command pn t sq = Ok w sq'"
  shows "queues_inv sq'"
proof -
  have c: "queues_inv s'" if "check_upcoming_queues a sq = (x, s')" for a x s'
    using check_upcoming_inv [OF assms(1), of a] that by simp
  have u: "queues_inv s'" if "update_need_kick_clock a s = (x, s')" "queues_inv s" for a s x s'
    using update_kick_inv [OF that(2), of a] that(1) by simp
  show ?thesis
    using assms(2)
    by (auto simp: check_send_command_def Let_def split: if_splits prod.splits option.splits dest!: c u)
qed

lemma check_send_ok:
  assumes "queues_inv sq"
  obtains w sq' where "check_send_command pn t sq = Ok w sq'"
proof -
  have m: "min_ready_loop s bg (ready_queues s) minc \<noteq> None" if "queues_inv s" for s bg minc
    using that by (intro min_ready_loop_total) (auto simp: queues_inv_def queue_ok_def)
  have "\<exists>w sq'. check_send_command pn t sq = Ok w sq'"
    unfolding check_send_command_def Let_def case_prod_beta option.case_eq_if
    by (simp add: m [OF check_upcoming_inv [OF assms]])
  then show thesis using that by blast
qed

section \<open>Building a block\<close>

text \<open>The search returns a head of a ready queue with the lowest clock.\<close>

lemma find_ready_spec:
  assumes "\<forall>q\<in>set qs. cq_ready (cqs q) \<noteq> []"
    and "\<forall>b. best = Some b \<longrightarrow> req_clock (snd b) = minc"
  shows "\<exists>r. find_ready cqs qs minc best = Some r \<and>
     (\<forall>b. r = Some b \<longrightarrow> (\<forall>q\<in>set qs. req_clock (snd b) \<le> req_clock (hd (cq_ready (cqs q)))) \<and>
        req_clock (snd b) \<le> minc) \<and>
     (r = None \<longrightarrow> best = None \<and> (\<forall>q\<in>set qs. minc \<le> req_clock (hd (cq_ready (cqs q)))))"
  using assms
proof (induction qs arbitrary: minc best)
  case Nil
  then show ?case by auto
next
  case (Cons a qs)
  then obtain m ms where m: "cq_ready (cqs a) = m # ms" by (cases "cq_ready (cqs a)") auto
  show ?case
  proof (cases "req_clock m < minc")
    case True
    with m Cons.IH [of "Some (a, m)" "req_clock m"] Cons.prems(1) show ?thesis by force
  next
    case False
    with m Cons.IH [of best minc] Cons.prems show ?thesis by force
  qed
qed

lemma find_ready_best:
  assumes "queues_inv sq" "ready_bytes sq \<noteq> 0"
  obtains q m ms where
    "find_ready (command_queues sq) (ready_queues sq) MAX_CLOCK None = Some (Some (q, m))"
    "q \<in> set (ready_queues sq)" "ready_of sq q = m # ms" "msg_ok m"
    "\<forall>q\<in>set (ready_queues sq). req_clock m \<le> req_clock (hd (ready_of sq q))"
proof -
  have ok: "queue_ok (ready_of sq) (ready_queues sq) (ready_bytes sq)" using assms(1) by (simp add: queues_inv_def)
  then have ne: "\<forall>q\<in>set (ready_queues sq). ready_of sq q \<noteq> []" by (simp add: queue_ok_def)
  obtain q0 where q0: "q0 \<in> set (ready_queues sq)"
    using ok assms(2) by (cases "ready_queues sq") (auto simp: queue_ok_def)
  obtain r where r: "find_ready (command_queues sq) (ready_queues sq) MAX_CLOCK None = Some r"
    "\<forall>b. r = Some b \<longrightarrow> (\<forall>q\<in>set (ready_queues sq). req_clock (snd b) \<le> req_clock (hd (ready_of sq q)))"
    "r = None \<longrightarrow> (\<forall>q\<in>set (ready_queues sq). MAX_CLOCK \<le> req_clock (hd (ready_of sq q)))"
    using find_ready_spec [of "ready_queues sq" "command_queues sq" None MAX_CLOCK] ne by auto
  have "msg_ok (hd (ready_of sq q))" if "q \<in> set (ready_queues sq)" for q
    using ok ne that unfolding queue_ok_def by (metis hd_in_set)
  moreover have "r \<noteq> None" using r(3) q0 calculation [OF q0] by (auto simp: msg_ok_def)
  then obtain q m where qm: "r = Some (q, m)" by auto
  ultimately have "q \<in> set (ready_queues sq)" "ready_of sq q = m # tl (ready_of sq q)" "msg_ok m"
    using find_ready_in [of "command_queues sq" "ready_queues sq" MAX_CLOCK None q m] r(1) by auto
  then show thesis using that r qm by auto
qed

lemma take_ready_queues:
  "ready_of (take_ready q m sq) = (ready_of sq)(q := tl (ready_of sq q))"
  "upcoming_of (take_ready q m sq) = upcoming_of sq"
  by (auto simp: take_ready_def Let_def fun_eq_iff)

lemma take_ready_inv:
  assumes "queues_inv sq" "q \<in> set (ready_queues sq)" "ready_of sq q = m # ms"
  shows "queues_inv (take_ready q m sq)"
proof -
  let ?s = "take_ready q m sq"
  have "queue_ok (ready_of ?s) (ready_queues ?s) (ready_bytes ?s)"
    unfolding take_ready_queues
    using queue_ok_drop [of "ready_of sq" "ready_queues sq" "ready_bytes sq" q "[m]" ms] assms
    by (simp add: queues_inv_def take_ready_def Let_def)
  then show ?thesis
    using assms(1) fun_cong [OF take_ready_queues(2) [of q m sq]] unfolding queues_inv_def release_ok_def take_ready_queues(2)
    by (simp add: take_ready_def Let_def)
qed

text \<open>Properties that building a block does not touch.\<close>

definition build_stable :: "(serialqueue \<Rightarrow> 'a) \<Rightarrow> bool" where
  "build_stable f \<longleftrightarrow>
     (\<forall>sq x. f (sq\<lparr>command_queues := x\<rparr>) = f sq) \<and> (\<forall>sq x. f (sq\<lparr>ready_queues := x\<rparr>) = f sq) \<and>
     (\<forall>sq x. f (sq\<lparr>ready_bytes := x\<rparr>) = f sq) \<and> (\<forall>sq x. f (sq\<lparr>notify_queue := x\<rparr>) = f sq)"

lemma take_ready_stable: "build_stable f \<Longrightarrow> f (take_ready q m sq) = f sq"
  by (simp add: build_stable_def take_ready_def Let_def)

text \<open>
  The messages that go into a block: \<open>taken sq ms sq'\<close> says that \<open>ms\<close> are removed one after the
  other, each one at the head of its queue and with the lowest clock of all ready messages.
\<close>

inductive taken :: "serialqueue \<Rightarrow> queue_message list \<Rightarrow> serialqueue \<Rightarrow> bool" where
  taken_Nil: "taken sq [] sq"
| taken_Cons: "q \<in> set (ready_queues sq) \<Longrightarrow> ready_of sq q \<noteq> [] \<Longrightarrow> m = hd (ready_of sq q) \<Longrightarrow>
    \<forall>q\<in>set (ready_queues sq). req_clock m \<le> req_clock (hd (ready_of sq q)) \<Longrightarrow>
    taken (take_ready q m sq) ms sq' \<Longrightarrow> taken sq (m # ms) sq'"

lemma taken_stable: "taken sq ms sq' \<Longrightarrow> build_stable f \<Longrightarrow> f sq' = f sq"
  by (induction rule: taken.induct) (simp_all add: take_ready_stable)

lemma taken_inv: "taken sq ms sq' \<Longrightarrow> queues_inv sq \<Longrightarrow> queues_inv sq'"
proof (induction rule: taken.induct)
  case (taken_Cons q sq m ms sq')
  then have "ready_of sq q = m # tl (ready_of sq q)" by (cases "ready_of sq q") auto
  with taken_Cons show ?case by (metis take_ready_inv)
qed

lemma qm_bytes_length: "msg_ok m \<Longrightarrow> length (qm_bytes m) = qm_len m"
  by (simp add: qm_bytes_def msg_ok_def)

text \<open>The messages \<open>ms\<close> go behind the first \<open>len\<close> bytes of the block.\<close>

definition built_loop ::
  "serialqueue \<Rightarrow> u8 list \<Rightarrow> nat \<Rightarrow> nat \<Rightarrow> queue_message list \<Rightarrow> u8 list \<Rightarrow> nat \<Rightarrow> serialqueue \<Rightarrow> bool"
where
  "built_loop sq buf o1 len ms buf' len' sq' \<longleftrightarrow>
     taken sq ms sq' \<and> length buf' = length buf \<and> len' = len + length (concat (map qm_bytes ms)) \<and>
     len' \<le> MESSAGE_MAX - MESSAGE_TRAILER_SIZE \<and>
     take (o1 + len') buf' = take (o1 + len) buf @ concat (map qm_bytes ms) \<and>
     (ready_bytes sq \<noteq> 0 \<and> len = MESSAGE_HEADER_SIZE \<longrightarrow> ms \<noteq> [])"

lemma built_loop_Nil:
  "len \<le> MESSAGE_MAX - MESSAGE_TRAILER_SIZE \<Longrightarrow> ready_bytes sq = 0 \<or> len \<noteq> MESSAGE_HEADER_SIZE \<Longrightarrow>
   built_loop sq buf o1 len [] buf len sq"
  by (auto simp: built_loop_def taken_Nil)

lemma build_loop_spec:
  assumes "queues_inv sq" "o1 + MESSAGE_MAX \<le> length buf" "len \<le> MESSAGE_MAX - MESSAGE_TRAILER_SIZE"
  obtains buf' len' sq' ms where "build_loop buf o1 len sq = Ok (buf', len') sq'"
    "built_loop sq buf o1 len ms buf' len' sq'"
  using assms
proof (induction buf o1 len sq arbitrary: thesis rule: build_loop.induct)
  case (1 buf o1 len sq)
  show ?case
  proof (cases "ready_bytes sq = 0")
    case True
    then have "build_loop buf o1 len sq = Ok (buf, len) sq" by (simp add: build_loop.simps)
    then show ?thesis using 1(2) built_loop_Nil 1(5) True by blast
  next
    case False
    obtain q m ms where f: "find_ready (command_queues sq) (ready_queues sq) MAX_CLOCK None = Some (Some (q, m))"
      and q: "q \<in> set (ready_queues sq)" "ready_of sq q = m # ms" "msg_ok m"
        "\<forall>q\<in>set (ready_queues sq). req_clock m \<le> req_clock (hd (ready_of sq q))"
      using find_ready_best [OF 1(3) False] by blast
    show ?thesis
    proof (cases "len + qm_len m > MESSAGE_MAX - MESSAGE_TRAILER_SIZE")
      case True
      then have "build_loop buf o1 len sq = Ok (buf, len) sq"
        by (subst build_loop.simps) (simp add: False f)
      moreover have "len \<noteq> 2" using True q(3) by (simp add: msg_ok_def)
      ultimately show ?thesis using 1(2) built_loop_Nil 1(5) by blast
    next
      case fits: False
      have lm: "length (qm_bytes m) = qm_len m" using qm_bytes_length [OF q(3)] .
      obtain buf1 where w: "write_at buf (o1 + len) (qm_bytes m) = Some buf1"
        using 1(4) fits by (simp add: write_at_def lm)
      have e: "build_loop buf o1 len sq = build_loop buf1 o1 (len + qm_len m) (take_ready q m sq)"
        by (subst build_loop.simps) (use fits in \<open>simp add: False f w\<close>)
      have i: "queues_inv (take_ready q m sq)" using take_ready_inv [OF 1(3) q(1,2)] .
      have "o1 + 64 \<le> length buf1" "len + qm_len m \<le> 64 - 3" using write_at_length [OF w] 1(4) fits by simp_all
      from 1(1) [OF False f refl refl fits w _ i this] obtain buf' len' sq' ms' where
        l: "build_loop buf1 o1 (len + qm_len m) (take_ready q m sq) = Ok (buf', len') sq'"
        and b: "built_loop (take_ready q m sq) buf1 o1 (len + qm_len m) ms' buf' len' sq'" by blast
      have n: "ready_of sq q \<noteq> []" "m = hd (ready_of sq q)" using q(2) by simp_all
      have "taken (take_ready q m sq) ms' sq'" using b by (simp add: built_loop_def)
      from taken_Cons [OF q(1) n q(4) this] have "taken sq (m # ms') sq'" .
      moreover have "take (o1 + (len + qm_len m)) buf1 = take (o1 + len) buf @ qm_bytes m"
        using write_at_take [OF w] lm by (simp add: add.assoc)
      ultimately have "built_loop sq buf o1 len (m # ms') buf' len' sq'"
        using b write_at_length [OF w] lm unfolding built_loop_def by clarsimp
      with l e show ?thesis using 1(2) by simp
    qed
  qed
qed

lemma seq_byte_send: "MESSAGE_DEST OR ucast (s AND 0x0f) = seq_byte (unat (s :: u64))"
proof -
  have m: "(0x0f :: u64) = mask 4" "(0x0f :: u8) = mask 4" by (simp_all add: mask_eq_exp_minus_1)
  have "(ucast (s AND 0x0f) :: u8) = of_nat (unat s) AND 0x0f"
    unfolding m by (rule bit_word_eqI) (auto simp: bit_simps)
  then show ?thesis by (simp add: seq_byte_def)
qed

lemma fill_block_frame:
  assumes "length p = o1" "MESSAGE_MIN \<le> len" "len \<le> length h"
  shows "fill_block (p @ h) o1 len seq =
     map_option (\<lambda>b. p @ b) (command_add_frame (seq_byte (unat seq)) h len)"
proof -
  have u0: "(p @ ys)[o1 := x] = p @ ys[0 := x]" and u: "(p @ ys)[o1 + i := x] = p @ ys[i := x]"
    and d: "drop o1 (p @ ys) = ys" for ys i and x :: u8
    using assms(1) by (simp_all add: list_update_append)
  have c: "(ucast (c AND 0xff) :: u8) = ucast (c :: u16)" for c
    by (rule word8_eqI, unfold all_less_8) (simp add: bit_simps)
  show ?thesis
    unfolding fill_block_def command_add_frame_def Let_def u0 u d c seq_byte_send msgblock_crc16_eq
    using assms by simp
qed

lemma fill_block_spec:
  assumes "MESSAGE_MIN \<le> len" "o1 + len \<le> length buf"
  shows "\<exists>buf'. fill_block buf o1 len seq = Some buf' \<and> length buf' = length buf \<and>
     take (o1 + len) buf' = take o1 buf @ make_block (seq_byte (unat seq)) (take (len - 5) (drop (o1 + 2) buf))"
proof -
  define p h where "p = take o1 buf" and "h = drop o1 buf"
  have buf: "buf = p @ h" and lp: "length p = o1" and lh: "len \<le> length h"
    using assms by (simp_all add: p_def h_def)
  obtain b where b: "command_add_frame (seq_byte (unat seq)) h len = Some b" "length b = length h"
    "take len b = make_block (seq_byte (unat seq)) (take (len - 5) (drop 2 h))"
    using command_add_frame_block [of len h "seq_byte (unat seq)"] assms(1) lh by blast
  have "fill_block buf o1 len seq = Some (p @ b)"
    unfolding buf fill_block_frame [OF lp assms(1) lh] by (simp add: b(1))
  then show ?thesis using b(2,3) lp by (intro exI [of _ "p @ b"]) (simp add: buf)
qed

text \<open>
  What \<^verbatim>\<open>build_and_send_command\<close> does: the messages \<open>ms\<close> become the payload of the next block, which
  is stored behind \<open>pn\<close> bytes of the buffer and at the end of the sent queue.
\<close>

definition built ::
  "serialqueue \<Rightarrow> u8 list \<Rightarrow> nat \<Rightarrow> queue_message list \<Rightarrow> queue_message \<Rightarrow> u8 list \<Rightarrow> nat \<Rightarrow> serialqueue \<Rightarrow> bool"
where
  "built sq buf pn ms out buf' len sq' \<longleftrightarrow>
     is_block (unat (send_seq sq)) out \<and> qm_payload out = concat (map qm_bytes ms) \<and>
     len = qm_len out \<and> length buf' = length buf \<and> take (pn + len) buf' = take pn buf @ qm_bytes out \<and>
     sent_queue sq' = sent_queue sq @ [out] \<and> send_seq sq' = send_seq sq + 1 \<and>
     need_ack_bytes sq' = need_ack_bytes sq + int len \<and>
     (\<exists>s. taken sq ms s \<and> notify_queue sq' = notify_queue s \<and> queue_part sq' = queue_part s) \<and>
     (ready_bytes sq \<noteq> 0 \<longrightarrow> ms \<noteq> []) \<and>
     receive_seq sq' = receive_seq sq \<and> rto sq' = rto sq \<and> old_sent sq' = old_sent sq \<and>
     serial_fd_type sq' = serial_fd_type sq \<and> fd_log sq' = fd_log sq \<and> input_buf sq' = input_buf sq \<and>
     input_pos sq' = input_pos sq \<and> need_sync sq' = need_sync sq"

lemma make_block_payload_nth:
  "take (length (make_block s pl) - 5) (drop 2 (make_block s pl)) = pl"
  by (simp add: make_block_def block_head_def Let_def)

lemma build_and_send_spec:
  assumes "queues_inv sq" "pn + MESSAGE_MAX \<le> length buf"
  obtains buf' len sq' ms out where
    "build_and_send_command buf pn t sq = Ok (buf', len) sq'" "built sq buf pn ms out buf' len sq'"
proof -
  obtain buf1 l sq1 ms where b: "build_loop buf pn 2 sq = Ok (buf1, l) sq1" "built_loop sq buf pn 2 ms buf1 l sq1"
    by (rule build_loop_spec [OF assms, of 2]) simp_all
  define pl where "pl = concat (map qm_bytes ms)"
  have l: "l = 2 + length pl" "length pl \<le> 59" and tk: "taken sq ms sq1" and len1: "length buf1 = length buf"
    and t1: "take (pn + l) buf1 = take (pn + 2) buf @ pl" and ne: "ready_bytes sq \<noteq> 0 \<longrightarrow> ms \<noteq> []"
    using b(2) by (auto simp: built_loop_def pl_def)
  have stable: "f sq1 = f sq" if "build_stable f" for f using taken_stable [OF tk that] .
  have ss: "send_seq sq1 = send_seq sq" by (rule stable) (simp add: build_stable_def)
  have "take (length pl) (drop (pn + 2) buf1) = drop (pn + 2) (take (pn + l) buf1)"
    by (simp add: l(1) drop_take)
  also have "\<dots> = pl" unfolding t1 using assms(2) by simp
  finally have pl: "take (l + 3 - 5) (drop (pn + 2) buf1) = pl" by (simp add: l(1))
  have p1: "take pn buf1 = take pn buf"
    using arg_cong [OF t1, of "take pn"] assms(2) by (simp add: l(1) min_def)
  define blk where "blk = make_block (seq_byte (unat (send_seq sq))) pl"
  have lb: "length blk = l + 3" by (simp add: blk_def make_block_length l(1))
  obtain buf2 where f: "fill_block buf1 pn (l + 3) (send_seq sq1) = Some buf2" "length buf2 = length buf1"
    "take (pn + (l + 3)) buf2 = take pn buf @ blk"
    using fill_block_spec [of "l + 3" pn buf1 "send_seq sq1"] assms(2) l len1
    unfolding pl p1 ss blk_def by auto
  have d2: "take (l + 3) (drop pn buf2) = blk"
    using arg_cong [OF f(3), of "drop pn"] assms(2) by (simp add: drop_take)
  have "length blk \<le> 64" using lb l by simp
  then obtain msg where w: "write_at (qm_msg message_alloc) 0 blk = Some msg" "msg = blk @ drop (length blk) (replicate 64 0)"
    by (simp add: write_at_def message_alloc_def)
  define idle where "idle = (if t > idle_time sq1 then t else idle_time sq1)
      + calculate_bittime sq1 (of_nat (pn + (l + 3)))"
  define out where "out = message_alloc\<lparr>qm_msg := msg, qm_len := l + 3, sent_time := t, receive_time := idle\<rparr>"
  define sq2 where "sq2 = (if sent_queue sq1 = [] then pollreactor_update_timer SQPT_RETRANSMIT (idle + rto sq1) sq1 else sq1)"
  define sq3 where "sq3 = (if rtt_sample_seq sq2 = 0 then sq2\<lparr>rtt_sample_seq := send_seq sq2\<rparr> else sq2)"
  define sq' where "sq' = sq3\<lparr>send_seq := send_seq sq3 + 1, need_ack_bytes := need_ack_bytes sq3 + int (l + 3),
      sent_queue := sent_queue sq3 @ [out]\<rparr>"
  have r: "build_and_send_command buf pn t sq = Ok (buf2, l + 3) sq'"
    unfolding build_and_send_command_def b(1) andthen.simps case_prod_conv Let_def f(1) option.case d2 w(1)
    unfolding sq'_def sq3_def sq2_def out_def idle_def by simp
  have out: "qm_bytes out = blk" "qm_len out = length blk" "length (qm_msg out) = 64" "qm_payload out = pl"
  proof -
    show "qm_bytes out = blk" by (simp add: out_def qm_bytes_def w(2) lb)
    show "qm_len out = length blk" "length (qm_msg out) = 64"
      using \<open>length blk \<le> 64\<close> by (simp_all add: out_def lb w(2))
    have "take (length blk - 5) (drop 2 (qm_msg out)) = take (length blk - 5) (drop 2 blk)"
      using lb l by (simp add: out_def w(2))
    then show "qm_payload out = pl"
      using make_block_payload_nth [of "seq_byte (unat (send_seq sq))" pl]
      by (simp add: qm_payload_def \<open>qm_len out = length blk\<close> blk_def [symmetric])
  qed
  have k: "g sq' = g sq" if "build_stable g" "\<And>s x. g (s\<lparr>rtt_sample_seq := x\<rparr>) = g s"
    "\<And>s p x. g (pollreactor_update_timer p x s) = g s" "\<And>s x. g (s\<lparr>send_seq := x\<rparr>) = g s"
    "\<And>s x. g (s\<lparr>need_ack_bytes := x\<rparr>) = g s" "\<And>s x. g (s\<lparr>sent_queue := x\<rparr>) = g s" for g
    using stable [OF that(1)] that(2-) by (simp add: sq'_def sq3_def sq2_def)
  have "built sq buf pn ms out buf2 (l + 3) sq'"
    unfolding built_def
  proof (intro conjI)
    show "is_block (unat (send_seq sq)) out"
      using out lb l \<open>length blk \<le> 64\<close> by (simp add: is_block_def blk_def)
    show "\<exists>s. taken sq ms s \<and> notify_queue sq' = notify_queue s \<and> queue_part sq' = queue_part s"
      by (rule exI [of _ sq1]) (simp add: tk sq'_def sq3_def sq2_def queue_part_def)
    have "sent_queue sq1 = sent_queue sq" "need_ack_bytes sq1 = need_ack_bytes sq"
      by (rule stable, simp add: build_stable_def)+
    then show "sent_queue sq' = sent_queue sq @ [out]" "need_ack_bytes sq' = need_ack_bytes sq + int (l + 3)"
      "send_seq sq' = send_seq sq + 1"
      by (simp_all add: sq'_def sq3_def sq2_def ss)
    show "receive_seq sq' = receive_seq sq" "rto sq' = rto sq" "old_sent sq' = old_sent sq"
      "serial_fd_type sq' = serial_fd_type sq" "fd_log sq' = fd_log sq" "input_buf sq' = input_buf sq"
      "input_pos sq' = input_pos sq" "need_sync sq' = need_sync sq"
      by (rule k; simp add: build_stable_def pollreactor_update_timer_def note_waketime_def)+
  qed (use out f l ne lb len1 in \<open>simp_all add: pl_def\<close>)
  with r show thesis using that by blast
qed

lemma built_queues: "built sq buf pn ms out buf' len sq' \<Longrightarrow> queues_inv sq \<Longrightarrow> queues_inv sq'"
  unfolding built_def using taken_inv queues_inv_part by blast

lemma built_window:
  assumes "built sq buf pn ms out buf' len sq'" "window_inv sq"
    and "length (sent_queue sq) < MAX_PENDING_BLOCKS" "unat (receive_seq sq) < 2 ^ 62"
  shows "window_inv sq'"
proof -
  have "unat (send_seq sq + 1) = unat (send_seq sq) + 1"
    using assms(2-4) by (subst unat_add_lem [THEN iffD1]) (auto simp: window_inv_def)
  with assms show ?thesis
    by (auto simp: built_def window_inv_def nth_append less_Suc_eq)
qed

section \<open>Sending\<close>

lemma window_closed_stable: "queue_stable window_closed"
  by (simp add: queue_stable_def window_closed_def)

lemma window_inv_stable: "queue_stable window_inv"
  by (simp add: queue_stable_def window_inv_def)

lemma open_window:
  assumes "window_inv sq" "unat (receive_seq sq) < 2 ^ 62" "\<not> window_closed sq"
  shows "length (sent_queue sq) < MAX_PENDING_BLOCKS"
proof -
  have "unat (send_seq sq - receive_seq sq) = length (sent_queue sq)"
    using assms(1) by (subst unat_sub) (auto simp: window_inv_def word_le_nat_alt)
  moreover have "receive_seq sq \<noteq> - 1"
  proof
    assume "receive_seq sq = - 1"
    then have "unat (receive_seq sq) = 2 ^ 64 - 1" by (simp add: unsigned_minus_1_eq_mask mask_eq_exp_minus_1)
    with assms(2) show False by simp
  qed
  ultimately show ?thesis using assms(3) by (simp add: window_closed_def word_le_nat_alt)
qed

lemma check_send_closed:
  assumes "window_closed sq" "check_send_command pn t sq = Ok w sq'"
  shows "w = t + 1 / 4"
proof -
  have "window_closed s" if "check_upcoming_queues a sq = (x, s)" for a x s
    using check_upcoming_stable [OF window_closed_stable, of a sq] that assms(1) by simp
  with assms(2) show ?thesis
    by (auto simp: check_send_command_def Let_def split: prod.splits)
qed

text \<open>The blocks \<open>outs\<close> are built, stored in the buffer one after the other and kept for an acknowledgement.\<close>

definition sent_blocks :: "serialqueue \<Rightarrow> queue_message list \<Rightarrow> serialqueue \<Rightarrow> bool" where
  "sent_blocks sq outs sq' \<longleftrightarrow>
     sent_queue sq' = sent_queue sq @ outs \<and> receive_seq sq' = receive_seq sq \<and>
     queues_inv sq' \<and> window_inv sq' \<and> fd_log sq' = fd_log sq \<and>
     serial_fd_type sq' = serial_fd_type sq \<and> input_buf sq' = input_buf sq \<and>
     input_pos sq' = input_pos sq \<and> need_sync sq' = need_sync sq"

lemma sent_blocks_trans:
  "sent_blocks sq a sq1 \<Longrightarrow> sent_blocks sq1 b sq2 \<Longrightarrow> sent_blocks sq (a @ b) sq2"
  by (simp add: sent_blocks_def)

lemma check_send_blocks:
  assumes "queues_inv sq" "window_inv sq" "check_send_command pn t sq = Ok w sq'"
  shows "sent_blocks sq [] sq'"
proof -
  have s: "f sq' = f sq" if "queue_stable f" for f using check_send_stable [OF that assms(3)] .
  have "window_inv sq'" using s [OF window_inv_stable] assms(2) by simp
  moreover have "sent_queue sq' = sent_queue sq" "receive_seq sq' = receive_seq sq" "fd_log sq' = fd_log sq"
    "serial_fd_type sq' = serial_fd_type sq" "input_buf sq' = input_buf sq" "input_pos sq' = input_pos sq"
    "need_sync sq' = need_sync sq"
    by (rule s, simp add: queue_stable_def)+
  ultimately show ?thesis using check_send_inv [OF assms(1,3)] by (simp add: sent_blocks_def)
qed

lemma command_loop_spec:
  assumes "queues_inv sq" "window_inv sq" "unat (receive_seq sq) < 2 ^ 62" "0 < t"
    and "length buf = SEND_BUF_SIZE" "buflen + MESSAGE_MAX \<le> SEND_BUF_SIZE"
  obtains buf' buflen' w sq' outs where "command_loop buf buflen t sq = Ok (buf', buflen', w) sq'"
    "sent_blocks sq outs sq'" "take buflen' buf' = take buflen buf @ concat (map qm_bytes outs)"
    "length buf' = SEND_BUF_SIZE" "buflen' \<le> SEND_BUF_SIZE"
  using assms
proof (induction buf buflen t sq arbitrary: thesis rule: command_loop.induct)
  case (1 buf buflen t sq)
  obtain w sq1 where c: "check_send_command buflen t sq = Ok w sq1" using check_send_ok [OF 1(3)] by blast
  note s1 = check_send_blocks [OF 1(3,4) c]
  show ?case
  proof (cases "w = 0")
    case False
    then have "command_loop buf buflen t sq = Ok (buf, buflen, w) sq1"
      by (subst command_loop.simps) (simp add: c)
    then show ?thesis using 1(2) [of buf buflen w sq1 "[]"] s1 1(7,8) by simp
  next
    case True
    have "\<not> window_closed sq1"
      using check_send_closed [OF _ c] True 1(6) check_send_stable [OF window_closed_stable c] by auto
    then have op: "length (sent_queue sq1) < 12" "unat (receive_seq sq1) < 2 ^ 62"
      using open_window [of sq1] s1 1(5) by (simp_all add: sent_blocks_def)
    obtain buf1 len sq2 ms out where b: "build_and_send_command buf buflen t sq1 = Ok (buf1, len) sq2"
      "built sq1 buf buflen ms out buf1 len sq2"
      by (rule build_and_send_spec [of sq1 buflen buf t]) (use s1 1(7,8) in \<open>simp_all add: sent_blocks_def\<close>)
    have "sent_blocks sq1 [out] sq2"
      using b(2) built_queues [OF b(2)] built_window [OF b(2) _ op] s1 by (simp add: sent_blocks_def built_def)
    with s1 have s2: "sent_blocks sq [out] sq2" using sent_blocks_trans [of sq "[]" sq1 "[out]" sq2] by simp
    have len: "len \<le> 64" "length buf1 = 768" "take (buflen + len) buf1 = take buflen buf @ qm_bytes out"
      using b(2) 1(7) by (auto simp: built_def is_block_def)
    show ?thesis
    proof (cases "buflen + len + MESSAGE_MAX > SEND_BUF_SIZE")
      case full: True
      then have "command_loop buf buflen t sq = Ok (buf1, buflen + len, w) sq2"
        by (subst command_loop.simps) (simp add: c True b(1))
      then show ?thesis using 1(2) [of buf1 "buflen + len" w sq2 "[out]"] s2 len 1(8) by simp
    next
      case room: False
      then have e: "command_loop buf buflen t sq = command_loop buf1 (buflen + len) t sq2"
        by (subst command_loop.simps) (simp add: c True b(1))
      have "queues_inv sq2" "window_inv sq2" "unat (receive_seq sq2) < 2 ^ 62"
        using s2 1(5) by (simp_all add: sent_blocks_def)
      then obtain buf' buflen' w' sq' outs where r: "command_loop buf1 (buflen + len) t sq2 = Ok (buf', buflen', w') sq'"
        "sent_blocks sq2 outs sq'" "take buflen' buf' = take (buflen + len) buf1 @ concat (map qm_bytes outs)"
        "length buf' = 768" "buflen' \<le> 768"
        using 1(1) [OF c _ b(1) refl room] True 1(6) len(2) room by (metis not_less)
      show ?thesis
        by (rule 1(2) [of buf' buflen' w' sq' "out # outs"])
          (use e r sent_blocks_trans [OF s2 r(2)] len(3) in simp_all)
    qed
  qed
qed

text \<open>Writing keeps the invariants.\<close>

lemma do_write_inv [simp]:
  "queues_inv (do_write buf sq) = queues_inv sq" "window_inv (do_write buf sq) = window_inv sq"
  by (simp_all add: queues_inv_def release_ok_def window_inv_def)

lemma do_write_log:
  "serial_fd_type sq \<noteq> SQT_CAN \<Longrightarrow> fd_log (do_write buf sq) = fd_log sq @ [Fd_write buf]"
  by (simp add: do_write_def fd_emit_def)

text \<open>
  What a callback hands to the operating system: \<open>wrote sq buf sq'\<close> is one write of \<open>buf\<close>. On CAN the
  buffer is cut into frames of 8 bytes, and a failing write ends the sequence.
\<close>

definition wrote :: "serialqueue \<Rightarrow> u8 list \<Rightarrow> serialqueue \<Rightarrow> bool" where
  "wrote sq buf sq' \<longleftrightarrow> (serial_fd_type sq \<noteq> SQT_CAN \<longrightarrow> fd_log sq' = fd_log sq @ [Fd_write buf])"

definition sends_blocks :: "serialqueue \<Rightarrow> queue_message list \<Rightarrow> serialqueue \<Rightarrow> bool" where
  "sends_blocks sq outs sq' \<longleftrightarrow>
     sent_queue sq' = sent_queue sq @ outs \<and> receive_seq sq' = receive_seq sq \<and>
     queues_inv sq' \<and> window_inv sq' \<and> (if outs = [] then fd_log sq' = fd_log sq
       else wrote sq (concat (map qm_bytes outs)) sq') \<and>
     serial_fd_type sq' = serial_fd_type sq \<and> input_buf sq' = input_buf sq \<and>
     input_pos sq' = input_pos sq \<and> need_sync sq' = need_sync sq"

lemma block_nonempty: "is_block n qm \<Longrightarrow> qm_bytes qm \<noteq> []"
  by (auto simp: is_block_def qm_bytes_def)

lemma command_event_spec:
  assumes "queues_inv sq" "window_inv sq" "unat (receive_seq sq) < 2 ^ 62" "0 < t"
  obtains w sq' outs where "command_event t sq = Ok w sq'" "sends_blocks sq outs sq'"
proof -
  obtain buf buflen w sq1 outs where l: "command_loop (replicate SEND_BUF_SIZE 0) 0 t sq = Ok (buf, buflen, w) sq1"
    "sent_blocks sq outs sq1" "take buflen buf = concat (map qm_bytes outs)" "length buf = 768" "buflen \<le> 768"
    by (rule command_loop_spec [OF assms, of "replicate SEND_BUF_SIZE 0" 0]) simp_all
  show thesis
  proof (cases "buflen = 0")
    case True
    have "outs = []"
    proof (rule ccontr)
      assume "outs \<noteq> []"
      then obtain o1 os where o1: "outs = o1 # os" by (cases outs) auto
      then have "sent_queue sq1 ! length (sent_queue sq) = o1" "length (sent_queue sq) < length (sent_queue sq1)"
        using l(2) by (simp_all add: sent_blocks_def)
      moreover have "\<forall>i<length (sent_queue sq1). \<exists>n. is_block n (sent_queue sq1 ! i)"
        using l(2) unfolding sent_blocks_def window_inv_def by blast
      ultimately have "\<exists>n. is_block n o1" by metis
      then show False using block_nonempty l(3) True o1 by auto
    qed
    moreover have "command_event t sq = Ok w sq1" by (simp add: command_event_def l(1) True)
    ultimately show thesis using that [of w sq1 "[]"] l(2) by (simp add: sends_blocks_def sent_blocks_def)
  next
    case False
    define sq2 where "sq2 = do_write (concat (map qm_bytes outs)) sq1"
    define sq3 where "sq3 = sq2\<lparr>bytes_write := bytes_write sq2 + of_nat buflen\<rparr>"
    define sq' where "sq' = sq3\<lparr>idle_time := (if t > idle_time sq3 then t else idle_time sq3)
        + calculate_bittime sq3 (of_nat buflen)\<rparr>"
    have e: "command_event t sq = Ok 0 sq'"
      unfolding command_event_def l(1) andthen.simps case_prod_conv Let_def l(3)
      using False by (simp add: sq'_def sq3_def sq2_def)
    have k: "f sq' = f sq2" if "\<And>s x. f (s\<lparr>bytes_write := x\<rparr>) = f s" "\<And>s x. f (s\<lparr>idle_time := x\<rparr>) = f s" for f
      by (simp add: sq'_def sq3_def that)
    have "queues_inv sq' = queues_inv sq2" "window_inv sq' = window_inv sq2" "sent_queue sq' = sent_queue sq2"
      "receive_seq sq' = receive_seq sq2" "fd_log sq' = fd_log sq2" "serial_fd_type sq' = serial_fd_type sq2"
      "input_buf sq' = input_buf sq2" "input_pos sq' = input_pos sq2" "need_sync sq' = need_sync sq2"
      by (rule k; simp add: queues_inv_def release_ok_def window_inv_def)+
    note k' = this
    have "outs \<noteq> []" using l(3) False l(4,5) by auto
    then have "sends_blocks sq outs sq'"
      using l(2) do_write_log [of sq1 "concat (map qm_bytes outs)"]
      by (simp add: sends_blocks_def sent_blocks_def k' wrote_def sq2_def)
    with e show thesis using that by blast
  qed
qed

text \<open>A retransmission writes a sync byte and all unacknowledged blocks, and the local array has room for them.\<close>

lemma retransmit_copy_spec:
  assumes "\<forall>qm\<in>set qms. qm_len qm \<le> MESSAGE_MAX \<and> length (qm_msg qm) = MESSAGE_MAX"
    and "buflen + MESSAGE_MAX * length qms \<le> length buf"
  obtains buf' buflen' first' where "retransmit_copy qms (buf, buflen, first) = Some (buf', buflen', first')"
    "take buflen' buf' = take buflen buf @ concat (map qm_bytes qms)"
  using assms
proof (induction qms arbitrary: buf buflen first thesis)
  case Nil
  then show ?case by simp
next
  case (Cons qm qms)
  have l: "length (qm_bytes qm) = qm_len qm" using Cons.prems(2) by (simp add: qm_bytes_def)
  then obtain buf1 where w: "write_at buf buflen (qm_bytes qm) = Some buf1"
    using Cons.prems(2,3) by (simp add: write_at_def)
  have "buflen + qm_len qm + 64 * length qms \<le> length buf1"
    using Cons.prems(2,3) write_at_length [OF w] by simp
  moreover have "\<forall>qm\<in>set qms. qm_len qm \<le> 64 \<and> length (qm_msg qm) = 64" using Cons.prems(2) by simp
  ultimately obtain buf' buflen' first' where
    "retransmit_copy qms (buf1, buflen + qm_len qm, if first = 0 then qm_len qm + 1 else first) = Some (buf', buflen', first')"
    "take buflen' buf' = take (buflen + qm_len qm) buf1 @ concat (map qm_bytes qms)"
    using Cons.IH by blast
  then show ?case using Cons.prems(1) w write_at_take [OF w] l by simp
qed

lemma retransmit_event_spec:
  assumes "window_inv sq" "queues_inv sq"
  obtains w sq' where "retransmit_event t sq = Ok w sq'" "queues_inv sq'" "window_inv sq'"
    "sent_queue sq' = sent_queue sq" "receive_seq sq' = receive_seq sq" "send_seq sq' = send_seq sq"
    "input_buf sq' = input_buf sq" "input_pos sq' = input_pos sq" "need_sync sq' = need_sync sq"
    "serial_fd_type sq = SQT_UART \<Longrightarrow>
       fd_log sq' = fd_log sq @ [Fd_flush, Fd_write (MESSAGE_SYNC # concat (map qm_bytes (sent_queue sq)))]"
proof -
  define sq1 where "sq1 = (if serial_fd_type sq = SQT_UART then snd (fd_emit Fd_flush sq) else sq)"
  have f1: "f sq1 = f sq" if "\<And>s x. f (s\<lparr>fd_log := x\<rparr>) = f s" for f
    by (simp add: sq1_def fd_emit_def that)
  have b: "\<forall>qm\<in>set (sent_queue sq). qm_len qm \<le> 64 \<and> length (qm_msg qm) = 64"
    using assms(1) by (auto simp: window_inv_def is_block_def in_set_conv_nth)
  have "length (sent_queue sq) \<le> 12" using assms(1) by (simp add: window_inv_def)
  then obtain buf buflen first where c: "retransmit_copy (sent_queue sq1) (MESSAGE_SYNC # replicate (64 * 12) 0, 1, 0) = Some (buf, buflen, first)"
    "take buflen buf = MESSAGE_SYNC # concat (map qm_bytes (sent_queue sq))"
    by (rule_tac retransmit_copy_spec [OF b, of 1 "MESSAGE_SYNC # replicate (64 * 12) 0" 0])
      (simp_all add: f1 [of sent_queue])
  define sq2 where "sq2 = do_write (take buflen buf) sq1"
  define sq3 where "sq3 = sq2\<lparr>bytes_retransmit := bytes_retransmit sq2 + of_nat buflen\<rparr>"
  define sq4 where "sq4 = (if pollreactor_get_timer SQPT_RETRANSMIT sq3 = PR_NOW
      then sq3\<lparr>ignore_nak_seq := (if receive_seq sq3 < retransmit_seq sq3 then retransmit_seq sq3 else receive_seq sq3)\<rparr>
      else sq3\<lparr>rto := (if rto sq3 * 2 > MAX_RTO then MAX_RTO else rto sq3 * 2), ignore_nak_seq := send_seq sq3\<rparr>)"
  define sq' where "sq' = sq4\<lparr>retransmit_seq := send_seq sq4, rtt_sample_seq := 0,
      idle_time := t + calculate_bittime sq4 (of_nat buflen)\<rparr>"
  have e: "retransmit_event t sq = Ok (t + rto sq' + calculate_bittime sq' (of_nat first)) sq'"
    unfolding retransmit_event_def sq1_def [symmetric] Let_def c(1) option.case case_prod_conv
    unfolding sq'_def sq4_def sq3_def sq2_def ..
  have k: "f sq' = f sq" if "\<And>s x. f (s\<lparr>bytes_retransmit := x\<rparr>) = f s" "\<And>s x. f (s\<lparr>ignore_nak_seq := x\<rparr>) = f s"
    "\<And>s x. f (s\<lparr>rto := x\<rparr>) = f s" "\<And>s x. f (s\<lparr>retransmit_seq := x\<rparr>) = f s" "\<And>s x. f (s\<lparr>rtt_sample_seq := x\<rparr>) = f s"
    "\<And>s x. f (s\<lparr>idle_time := x\<rparr>) = f s" "\<And>s. f (do_write (take buflen buf) s) = f s"
    "\<And>s x. f (s\<lparr>fd_log := x\<rparr>) = f s" for f
    using f1 [of f] by (simp add: sq'_def sq4_def sq3_def sq2_def that)
  have g: "queues_inv sq' = queues_inv sq" "sent_queue sq' = sent_queue sq" "receive_seq sq' = receive_seq sq"
    "send_seq sq' = send_seq sq" "input_buf sq' = input_buf sq" "input_pos sq' = input_pos sq"
    "need_sync sq' = need_sync sq" "serial_fd_type sq' = serial_fd_type sq"
    "need_ack_bytes sq' = need_ack_bytes sq" "old_sent sq' = old_sent sq"
    by (rule k; simp add: queues_inv_def release_ok_def)+
  have "rto sq1 = rto sq" by (rule f1) simp
  then have "MIN_RTO \<le> rto sq'" "rto sq' \<le> MAX_RTO"
    using assms(1) by (auto simp: sq'_def sq4_def sq3_def sq2_def window_inv_def)
  then have "window_inv sq'" using assms(1) g by (simp add: window_inv_def)
  moreover have "fd_log sq' = fd_log sq @ [Fd_flush, Fd_write (MESSAGE_SYNC # concat (map qm_bytes (sent_queue sq)))]"
    if "serial_fd_type sq = SQT_UART"
  proof -
    have "fd_log sq' = fd_log sq2" by (simp add: sq'_def sq4_def sq3_def)
    with that c(2) show ?thesis by (simp add: sq2_def sq1_def do_write_def fd_emit_def)
  qed
  ultimately show thesis using that [OF e] assms(2) g by simp
qed

end
