(* ===== verification/Serialqueue_Inv.thy ===== *)
theory Serialqueue_Inv
  imports Serialqueue_Props
begin

text \<open>
  The host's serial queue as a whole: every sequence of callbacks and calls of other threads keeps
  the invariants, the callbacks note every timer they set, and a thread that goes to sleep is woken
  in time.
\<close>

section \<open>Reading\<close>

lemma input_event_spec:
  assumes "window_inv sq" "unat (send_seq sq) < 2 ^ 63" "input_inv sq"
    and "\<And>data. rd = Read_bytes data \<Longrightarrow> input_pos sq + length data \<le> INPUT_BUF_SIZE"
    and "\<And>cid data. rd = Read_can cid data \<Longrightarrow> length data \<le> 8"
  obtains sq' where "input_event rd t sq = Ok () sq'" "window_inv sq'" "input_inv sq'"
    "unat (send_seq sq') < 2 ^ 63" "queue_part sq' = queue_part sq"
proof -
  have store: "\<exists>sq'. (case write_at (input_buf sq) (input_pos sq) data of None \<Rightarrow> Fault
      | Some buf \<Rightarrow> input_loop t (sq\<lparr>input_buf := buf, input_pos := input_pos sq + length data\<rparr>)) = Ok () sq' \<and>
      window_inv sq' \<and> unat (send_seq sq') < 2 ^ 63 \<and> input_inv sq' \<and> queue_part sq' = queue_part sq"
    if le: "input_pos sq + length data \<le> 4096" for data
  proof -
    obtain buf where w: "write_at (input_buf sq) (input_pos sq) data = Some buf"
      using le assms(3) by (simp add: write_at_def input_inv_def)
    let ?s = "sq\<lparr>input_buf := buf, input_pos := input_pos sq + length data\<rparr>"
    have "window_inv ?s" "unat (send_seq ?s) < 2 ^ 63" "queue_part ?s = queue_part sq"
      "length (input_buf ?s) = 4096" "input_pos ?s \<le> 4096"
      using assms(1-3) le write_at_length [OF w]
      by (simp_all add: window_inv_def queue_part_def input_inv_def)
    with input_loop_total [of ?s t] w show ?thesis by simp
  qed
  have small: "input_pos sq + n \<le> 4096" if "n \<le> 8" for n using assms(3) that by (simp add: input_inv_def)
  have exit: "window_inv (pollreactor_do_exit sq)" "input_inv (pollreactor_do_exit sq)"
    "send_seq (pollreactor_do_exit sq) = send_seq sq" "queue_part (pollreactor_do_exit sq) = queue_part sq"
    using assms(1,3) by (simp_all add: pollreactor_do_exit_def window_inv_def input_inv_def queue_part_def)
  show thesis
  proof (cases rd)
    case Read_fail
    then show thesis using that [of "pollreactor_do_exit sq"] exit assms(2) by (simp add: input_event_def)
  next
    case (Read_bytes data)
    with store [of data] assms(4) show thesis using that by (auto simp: input_event_def)
  next
    case (Read_can cid data)
    show thesis
    proof (cases "cid = client_id sq + 1")
      case True
      with Read_can store [of data] small assms(5) show thesis using that by (auto simp: input_event_def)
    next
      case False
      with Read_can show thesis using that [of sq] assms(1-3) by (simp add: input_event_def)
    qed
  qed
qed

section \<open>All operations\<close>

lemma seq_byte_dest: "seq_byte n AND NOT MESSAGE_SEQ_MASK = MESSAGE_DEST"
  unfolding seq_byte_def by (rule word8_eqI, unfold all_less_8) (simp add: bit_simps bitblast)

lemma block_valid:
  assumes "is_block n qm"
  shows "valid_block (qm_bytes qm) \<and> qm_bytes qm ! 1 = seq_byte n"
proof -
  have "length (qm_payload qm) \<le> 59" using assms by (auto simp: is_block_def qm_payload_def)
  then have "valid_block (make_block (seq_byte n) (qm_payload qm))" by (rule make_block_valid [OF _ seq_byte_dest])
  with assms make_block_nth(2) show ?thesis by (simp add: is_block_def)
qed

text \<open>
  The steps of the background thread and of the threads that use the queue. A \<^verbatim>\<open>read\<close> returns at
  most what it was asked for and a CAN frame has at most 8 bytes; event times are positive; and the
  64-bit sequence numbers stay far from their end.
\<close>

inductive sq_step :: "serialqueue \<Rightarrow> serialqueue \<Rightarrow> bool" where
  step_command: "0 < t \<Longrightarrow> unat (receive_seq sq) < 2 ^ 62 \<Longrightarrow> command_event t sq = Ok w sq' \<Longrightarrow> sq_step sq sq'"
| step_retransmit: "retransmit_event t sq = Ok w sq' \<Longrightarrow> sq_step sq sq'"
| step_bytes: "unat (send_seq sq) < 2 ^ 63 \<Longrightarrow> input_pos sq + length data \<le> INPUT_BUF_SIZE \<Longrightarrow>
    input_event (Read_bytes data) t sq = Ok () sq' \<Longrightarrow> sq_step sq sq'"
| step_can: "unat (send_seq sq) < 2 ^ 63 \<Longrightarrow> length data \<le> 8 \<Longrightarrow>
    input_event (Read_can cid data) t sq = Ok () sq' \<Longrightarrow> sq_step sq sq'"
| step_eof: "input_event Read_fail t sq = Ok () sq' \<Longrightarrow> sq_step sq sq'"
| step_kick: "kick_event t sq = Ok () sq' \<Longrightarrow> sq_step sq sq'"
| step_send: "\<forall>m\<in>set ms. msg_ok m \<Longrightarrow> sq_step sq (serialqueue_send_batch cq ms sq)"
| step_pull: "serialqueue_pull sq = Ok r sq' \<Longrightarrow> sq_step sq sq'"
| step_extract: "serialqueue_extract_old sentq mx sq = (r, sq') \<Longrightarrow> sq_step sq sq'"
| step_fastreader: "sq_step sq (serialqueue_add_fastreader fr sq)"
| step_rm_fastreader: "sq_step sq (serialqueue_rm_fastreader fr sq)"
| step_frequency: "sq_step sq (serialqueue_set_wire_frequency f sq)"
| step_window: "sq_step sq (serialqueue_set_receive_window n sq)"
| step_clock: "sq_step sq (serialqueue_set_clock_est f ct cc sq)"
| step_exit: "sq_step sq (serialqueue_exit sq)"

definition sq_inv :: "serialqueue \<Rightarrow> bool" where
  "sq_inv sq \<longleftrightarrow> window_inv sq \<and> queues_inv sq \<and> input_inv sq"

text \<open>The fields the invariants read.\<close>

definition inv_part where
  "inv_part sq =
     (queue_part sq, serial_fd_type sq, receive_seq sq, send_seq sq, sent_queue sq, need_ack_bytes sq, rto sq,
      input_buf sq, input_pos sq)"

lemma sq_inv_part:
  "inv_part sq' = inv_part sq \<Longrightarrow> length (old_sent sq') = length (old_sent sq) \<Longrightarrow> sq_inv sq' = sq_inv sq"
  using queues_inv_part [of sq' sq]
  by (simp add: inv_part_def sq_inv_def window_inv_def input_inv_def)

lemma sq_inv_other_ops:
  assumes "sq_inv sq"
  shows "kick_event t sq = Ok () sq' \<Longrightarrow> sq_inv sq'"
    "serialqueue_pull sq = Ok r sq' \<Longrightarrow> sq_inv sq'"
    "serialqueue_extract_old sentq mx sq = (x, sq') \<Longrightarrow> sq_inv sq'"
    "sq_inv (serialqueue_add_fastreader fr sq)" "sq_inv (serialqueue_rm_fastreader fr sq)"
    "sq_inv (serialqueue_set_wire_frequency f sq)" "sq_inv (serialqueue_set_receive_window n sq)"
    "sq_inv (serialqueue_set_clock_est f ct cc sq)" "sq_inv (serialqueue_exit sq)"
proof -
  note part = sq_inv_part [THEN iffD2, OF _ _ assms] inv_part_def queue_part_def
  have o: "length (old_sent sq) = 100" using assms by (simp add: sq_inv_def window_inv_def)
  show "kick_event t sq = Ok () sq' \<Longrightarrow> sq_inv sq'"
    by (auto simp: kick_event_def pollreactor_update_timer_def note_waketime_def part)
  show "serialqueue_pull sq = Ok r sq' \<Longrightarrow> sq_inv sq'"
    by (auto simp: serialqueue_pull_def Let_def part split: list.splits if_splits)
  show "serialqueue_extract_old sentq mx sq = (x, sq') \<Longrightarrow> sq_inv sq'"
    by (auto simp: serialqueue_extract_old_def debug_queue_alloc_def Let_def o part split: if_splits)
  show "sq_inv (serialqueue_add_fastreader fr sq)" "sq_inv (serialqueue_rm_fastreader fr sq)"
    "sq_inv (serialqueue_set_wire_frequency f sq)" "sq_inv (serialqueue_set_receive_window n sq)"
    "sq_inv (serialqueue_set_clock_est f ct cc sq)" "sq_inv (serialqueue_exit sq)"
    by (rule part(1); simp add: inv_part_def queue_part_def serialqueue_add_fastreader_def
        serialqueue_rm_fastreader_def serialqueue_set_wire_frequency_def serialqueue_set_receive_window_def
        serialqueue_set_clock_est_def serialqueue_exit_def kick_bg_thread_def pollreactor_do_exit_def)+
qed

lemma input_event_inv:
  assumes "sq_inv sq" "unat (send_seq sq) < 2 ^ 63" "input_event rd t sq = Ok () sq'"
    and "\<And>data. rd = Read_bytes data \<Longrightarrow> input_pos sq + length data \<le> INPUT_BUF_SIZE"
    and "\<And>cid data. rd = Read_can cid data \<Longrightarrow> length data \<le> 8"
  shows "sq_inv sq'"
proof -
  have "window_inv sq" "input_inv sq" using assms(1) by (simp_all add: sq_inv_def)
  then obtain s where "input_event rd t sq = Ok () s" "window_inv s" "input_inv s" "queue_part s = queue_part sq"
    using input_event_spec [of sq rd t] assms(2,4,5) by metis
  then show ?thesis using queues_inv_part [of s sq] assms(1,3) by (simp add: sq_inv_def)
qed

lemma sq_step_inv:
  assumes "sq_step sq sq'" "sq_inv sq"
  shows "sq_inv sq'"
  using assms
proof (induction rule: sq_step.induct)
  case (step_command t sq w sq')
  then have i: "queues_inv sq" "window_inv sq" "input_inv sq" by (simp_all add: sq_inv_def)
  obtain w1 s outs where c: "command_event t sq = Ok w1 s" "sends_blocks sq outs s"
    by (rule command_event_spec [OF i(1,2) step_command(2,1)])
  have "s = sq'" using c(1) step_command(3) by simp
  with c(2) i show ?case by (simp add: sends_blocks_def sq_inv_def input_inv_def)
next
  case (step_retransmit t sq w sq')
  then have i: "queues_inv sq" "window_inv sq" "input_inv sq" by (simp_all add: sq_inv_def)
  obtain w1 s where r: "retransmit_event t sq = Ok w1 s" "queues_inv s" "window_inv s"
    "input_buf s = input_buf sq" "input_pos s = input_pos sq"
    by (rule retransmit_event_spec [OF i(2,1), of t])
  have "s = sq'" using r(1) step_retransmit(1) by simp
  with r i show ?case by (simp add: sq_inv_def input_inv_def)
next
  case (step_bytes sq data t sq')
  then show ?case using input_event_inv [of sq "Read_bytes data" t sq'] by simp
next
  case (step_can sq data cid t sq')
  then show ?case using input_event_inv [of sq "Read_can cid data" t sq'] by simp
next
  case (step_eof t sq sq')
  then have "sq' = pollreactor_do_exit sq" by (simp add: input_event_def)
  then have "sq_inv sq' = sq_inv sq"
    by (intro sq_inv_part) (simp_all add: pollreactor_do_exit_def inv_part_def queue_part_def)
  with step_eof show ?case by simp
next
  case (step_send ms sq cq)
  have "window_inv (serialqueue_send_batch cq ms sq) = window_inv sq"
    "input_inv (serialqueue_send_batch cq ms sq) = input_inv sq"
    by (rule send_batch_stable; simp add: queue_stable_def window_inv_def input_inv_def)+
  with send_batch_inv [of sq ms cq] step_send show ?case by (simp add: sq_inv_def)
next
  case (step_kick t sq sq')
  then show ?case using sq_inv_other_ops(1) by blast
next
  case (step_pull sq r sq')
  then show ?case using sq_inv_other_ops(2) by blast
next
  case (step_extract sentq mx sq r sq')
  then show ?case using sq_inv_other_ops(3) by blast
qed (simp_all add: sq_inv_other_ops(4-9))

lemma alloc_inv:
  assumes "fd_type \<noteq> SQT_DEBUGFILE" "\<forall>b\<in>set sends. \<forall>(cq, ms)\<in>set b. \<forall>m\<in>set ms. msg_ok m"
  shows "sq_inv (serialqueue_alloc fd_type cid now_fn sends ok_fn)"
  using assms
  by (auto simp: serialqueue_alloc_def sq_inv_def window_inv_def queues_inv_def queue_ok_def release_ok_def
      input_inv_def debug_queue_alloc_def)

lemma sq_steps_inv: "sq_step\<^sup>*\<^sup>* sq sq' \<Longrightarrow> sq_inv sq \<Longrightarrow> sq_inv sq'"
  by (induction rule: rtranclp_induct) (auto intro: sq_step_inv)

section \<open>Timers\<close>

lemma update_receive_seq_noted: "pr_noted (pr sq) (pr (update_receive_seq t rseq sq))"
proof -
  define sq1 where "sq1 = (ack_loop rseq (receive_seq sq) (sent_queue sq) sq)\<lparr>receive_seq := rseq\<rparr>"
  define sq2 where "sq2 = pollreactor_update_timer SQPT_COMMAND PR_NOW sq1"
  define sq3 where "sq3 = (if rtt_sample_seq sq2 \<noteq> 0 \<and> rseq > rtt_sample_seq sq2 \<and> last_receive_sent_time sq2 \<noteq> 0
      then update_rto t sq2 else sq2)"
  have p: "pr sq1 = pr sq" "pr sq3 = pr sq2" by (simp_all add: sq1_def sq3_def)
  have "pr_noted (pr sq1) (pr sq2)" unfolding sq2_def by (rule pr_noted_update)
  then have "pr_noted (pr sq) (pr sq3)" by (simp add: p)
  moreover have "\<exists>x. update_receive_seq t rseq sq = pollreactor_update_timer SQPT_RETRANSMIT x sq3"
    unfolding update_receive_seq_def Let_def sq1_def [symmetric] sq2_def [symmetric] sq3_def [symmetric]
    by (cases "sent_queue sq3") auto
  ultimately show ?thesis using pr_noted_trans pr_noted_update by metis
qed

lemma process_message_noted:
  assumes "process_message rseq len sq = Ok d sq'"
  shows "pr_noted (pr sq) (pr sq')"
  using assms
  by (auto simp: process_message_def Let_def get_monotonic_def pr_noted_update split: if_splits option.splits)

lemma dispatch_fastreader_pr: "pr (dispatch_fastreader t len frs sq) = pr sq"
  by (rule dispatch_fastreader_keeps) simp

lemma receive_append_wake_pr: "pr (receive_append_wake msgs sq) = pr sq"
  by (simp add: receive_append_wake_def Let_def)

lemma handle_message_noted:
  assumes "handle_message t len sq = Ok u sq'"
  shows "pr_noted (pr sq) (pr sq')"
proof (cases "receive_rseq sq \<noteq> receive_seq sq \<and> receive_rseq sq > send_seq sq \<and> receive_seq sq \<noteq> 1")
  case True
  with assms show ?thesis by (auto simp: handle_message_def Let_def)
next
  case False
  define sq1 where "sq1 = (if receive_rseq sq \<noteq> receive_seq sq then update_receive_seq t (receive_rseq sq) sq else sq)"
  have n1: "pr_noted (pr sq) (pr sq1)" by (simp add: sq1_def update_receive_seq_noted)
  from assms False obtain s2 d s3 where "process_message (receive_rseq sq) len s2 = Ok d s3" "pr s2 = pr sq1" "pr sq' = pr s3"
    unfolding handle_message_def Let_def sq1_def [symmetric]
    by (auto simp: andthen_Ok_iff dispatch_fastreader_pr receive_append_wake_pr split: if_splits prod.splits)
  with process_message_noted n1 show ?thesis by (metis pr_noted_trans)
qed

lemma input_loop_noted:
  assumes "input_loop t sq = Ok u sq'"
  shows "pr_noted (pr sq) (pr sq')"
  using assms
proof (induction t sq rule: input_loop.induct)
  case (1 t sq)
  obtain len ns where c: "msgblock_check (need_sync sq) (input_buf sq) (input_pos sq) = (len, ns)"
    by (cases "msgblock_check (need_sync sq) (input_buf sq) (input_pos sq)")
  define sq1 where "sq1 = sq\<lparr>need_sync := ns\<rparr>"
  have sh: "pr (input_shift n s) = pr s" for n s by (simp add: input_shift_def Let_def)
  consider "len = 0" | "len > 0" | "len < 0" by linarith
  then show ?case
  proof cases
    case 1
    with \<open>input_loop t sq = Ok u sq'\<close> show ?thesis by (subst (asm) input_loop.simps) (auto simp: c)
  next
    case 2
    from \<open>input_loop t sq = Ok u sq'\<close> 2 obtain s2 where
      h: "handle_message t (nat len) sq1 = Ok () s2" and l: "input_loop t (input_shift (nat len) s2) = Ok u sq'"
      by (subst (asm) input_loop.simps) (auto simp: c sq1_def andthen_Ok_iff)
    have "pr_noted (pr s2) (pr sq')" using 1(1) [OF c [symmetric] refl sq1_def _ 2 h] l 2 sh by simp
    with handle_message_noted [OF h] show ?thesis by (simp add: sq1_def) (rule pr_noted_trans)
  next
    case 3
    then have "input_loop t (input_shift (nat (- len)) (sq1\<lparr>bytes_invalid := bytes_invalid sq1 + of_int (- len)\<rparr>)) = Ok u sq'"
      using \<open>input_loop t sq = Ok u sq'\<close> by (subst (asm) input_loop.simps) (simp add: c sq1_def)
    with 1(2) [OF c [symmetric] refl sq1_def] 3 show ?thesis by (simp add: sh) (simp add: sq1_def)
  qed
qed

lemma input_event_noted:
  assumes "input_event rd t sq = Ok u sq'"
  shows "pr_noted (pr sq) (pr sq')"
  using assms input_loop_noted
  by (fastforce simp: input_event_def pr_noted_exit split: read_result.splits if_splits option.splits)

lemma do_write_noted: "pr_noted (pr sq) (pr (do_write buf sq))"
  by (simp add: pr_noted_def)

lemma retransmit_event_noted:
  assumes "retransmit_event t sq = Ok w sq'"
  shows "pr_noted (pr sq) (pr sq')"
  using assms
  by (auto simp: retransmit_event_def Let_def pr_noted_def fd_emit_def split: option.splits if_splits)

lemma build_loop_pr: "build_loop buf o1 len sq = Ok r sq' \<Longrightarrow> pr sq' = pr sq"
proof (induction buf o1 len sq rule: build_loop.induct)
  case (1 buf o1 len sq)
  have "pr (take_ready q m sq) = pr sq" for q m by (simp add: take_ready_def Let_def)
  with 1 show ?case
    by (subst (asm) (2) build_loop.simps) (fastforce split: if_splits option.splits prod.splits)
qed

lemma build_and_send_noted:
  assumes "build_and_send_command buf pn t sq = Ok r sq'"
  shows "pr_noted (pr sq) (pr sq')"
proof -
  from assms obtain buf1 l s1 where b: "build_loop buf pn 2 sq = Ok (buf1, l) s1"
    by (auto simp: build_and_send_command_def andthen_Ok_iff)
  obtain buf2 msg where f: "fill_block buf1 pn (l + 3) (send_seq s1) = Some buf2"
    "write_at (qm_msg message_alloc) 0 (take (l + 3) (drop pn buf2)) = Some msg"
    using assms by (auto simp: build_and_send_command_def b Let_def split: option.splits)
  have "pr sq' = pr s1 \<or> (\<exists>x. pr sq' = pr (pollreactor_update_timer SQPT_RETRANSMIT x s1))"
    using assms f by (auto simp: build_and_send_command_def b Let_def split: if_splits)
  then show ?thesis using build_loop_pr [OF b] pr_noted_update [of s1] by auto
qed

lemma check_send_pr: "check_send_command pn t sq = Ok w sq' \<Longrightarrow> pr sq' = pr sq"
  by (rule check_send_stable) (simp add: queue_stable_def)

lemma command_loop_noted:
  assumes "command_loop buf buflen t sq = Ok r sq'"
  shows "pr_noted (pr sq) (pr sq')"
  using assms
proof (induction buf buflen t sq rule: command_loop.induct)
  case (1 buf buflen t sq)
  then obtain w s1 where c: "check_send_command buflen t sq = Ok w s1"
    by (subst (asm) (2) command_loop.simps) (auto simp: andthen_Ok_iff)
  show ?case
  proof (cases "w = 0")
    case False
    with 1(2) c check_send_pr [OF c] show ?thesis by (subst (asm) command_loop.simps) auto
  next
    case True
    with 1(2) c obtain buf1 len s2 where b: "build_and_send_command buf buflen t s1 = Ok (buf1, len) s2"
      by (subst (asm) command_loop.simps) (auto simp: andthen_Ok_iff)
    have n: "pr_noted (pr sq) (pr s2)" using build_and_send_noted [OF b] check_send_pr [OF c] by simp
    show ?thesis
    proof (cases "buflen + len + MESSAGE_MAX > SEND_BUF_SIZE")
      case full: True
      with 1(2) c True b n show ?thesis by (subst (asm) command_loop.simps) auto
    next
      case room: False
      with 1(2) c True b have "command_loop buf1 (buflen + len) t s2 = Ok r sq'"
        by (subst (asm) command_loop.simps) auto
      then show ?thesis using 1(1) [OF c _ b refl room] True n pr_noted_trans by blast
    qed
  qed
qed

lemma command_event_noted:
  assumes "command_event t sq = Ok w sq'"
  shows "pr_noted (pr sq) (pr sq')"
proof -
  from assms obtain r s where l: "command_loop (replicate SEND_BUF_SIZE 0) 0 t sq = Ok r s"
    and p: "pr_noted (pr s) (pr sq')"
    by (auto simp: command_event_def andthen_Ok_iff Let_def pr_noted_def split: if_splits prod.splits)
  from command_loop_noted [OF l] p show ?thesis by (rule pr_noted_trans)
qed

lemma kick_event_noted: "kick_event t sq = Ok u sq' \<Longrightarrow> pr_noted (pr sq) (pr sq')"
  using pr_noted_update [of "sq\<lparr>pipe_kicks := pipe_kicks sq - 4096\<rparr>" 1 0] by (auto simp: kick_event_def)

text \<open>\<open>rd\<close> is what the next \<^verbatim>\<open>read\<close> on the serial file descriptor returns.\<close>

interpretation sqr: reactor_client "[retransmit_event, command_event]"
    "[\<lambda>t sq. input_event (rd sq) t sq, kick_event]" for rd
  by unfold_locales
    (auto dest: retransmit_event_noted command_event_noted input_event_noted kick_event_noted)

section \<open>Sleeping\<close>

text \<open>The time at which the callback wants to run again when there is nothing to send yet.\<close>

lemma update_kick_sleep:
  assumes "queues_inv sq" "update_need_kick_clock want sq = (False, sq')"
  shows "need_kick_clock sq' = want \<and> want \<le> min_release_clock sq' \<and> queues_inv sq'"
proof -
  have "queues_inv sq'" using update_kick_inv [OF assms(1), of want] assms(2) by simp
  with assms(2) show ?thesis by (auto simp: update_need_kick_clock_def Let_def split: if_splits)
qed

lemma check_send_sleep:
  assumes "queues_inv sq" "check_send_command 0 t sq = Ok w sq'" "\<not> window_closed sq" "w \<noteq> PR_NOW" "w \<noteq> t"
  shows "need_kick_clock sq' \<le> min_release_clock sq'"
proof -
  have c: "queues_inv s \<and> \<not> window_closed s" if "check_upcoming_queues a sq = (x, s)" for a x s
    using check_upcoming_inv [OF assms(1), of a] check_upcoming_stable [OF window_closed_stable, of a sq] that assms(3)
    by simp
  have "\<exists>s want. queues_inv s \<and> update_need_kick_clock want s = (False, sq')"
    using assms(2,4,5)
    by (auto simp: check_send_command_def Let_def split: if_splits prod.splits option.splits dest!: c)
  then show ?thesis using update_kick_sleep by blast
qed

section \<open>Properties\<close>

definition demo_sq :: serialqueue where
  "demo_sq = serialqueue_alloc SQT_UART 0 (\<lambda>_. 1) [] (\<lambda>_. True)"

definition demo_msg :: queue_message where
  "demo_msg = message_alloc\<lparr>qm_len := 2, req_clock := 1000\<rparr>"

lemma demo_sq_inv: "sq_inv demo_sq"
  unfolding demo_sq_def by (rule alloc_inv) simp_all

text \<open>
  C9: whatever the callbacks and the other threads do, a serial queue stays well formed: at most 12
  blocks wait for an acknowledgement, they carry consecutive sequence numbers from
  \<^verbatim>\<open>receive_seq\<close> to \<^verbatim>\<open>send_seq\<close> and are valid blocks, the byte counters are the sums of the
  lengths of the queued messages, the retransmit timeout is within its limits, and the input
  buffer holds less than one block.
\<close>

theorem serialqueue_well_formed:
  assumes "fd_type \<noteq> SQT_DEBUGFILE" "\<forall>b\<in>set sends. \<forall>(cq, ms)\<in>set b. \<forall>m\<in>set ms. msg_ok m"
    and "sq_step\<^sup>*\<^sup>* (serialqueue_alloc fd_type cid now_fn sends ok_fn) sq"
  shows "length (sent_queue sq) \<le> MAX_PENDING_BLOCKS \<and>
     unat (send_seq sq) = unat (receive_seq sq) + length (sent_queue sq) \<and>
     (\<forall>i<length (sent_queue sq). is_block (unat (receive_seq sq) + i) (sent_queue sq ! i)) \<and>
     need_ack_bytes sq = sum_len (sent_queue sq) \<and>
     ready_bytes sq = (\<Sum>q\<in>set (ready_queues sq). sum_len (cq_ready (command_queues sq q))) \<and>
     upcoming_bytes sq = (\<Sum>q\<in>set (upcoming_queues sq). sum_len (cq_upcoming (command_queues sq q))) \<and>
     MIN_RTO \<le> rto sq \<and> rto sq \<le> MAX_RTO \<and> input_pos sq < MESSAGE_MAX"
  using sq_steps_inv [OF assms(3) alloc_inv [OF assms(1,2)]]
  by (simp add: sq_inv_def window_inv_def queues_inv_def queue_ok_def input_inv_def)

lemma demo_steps: "sq_step\<^sup>*\<^sup>* demo_sq (serialqueue_send_batch 0 [demo_msg] demo_sq)"
  by (rule r_into_rtranclp, rule step_send) (simp add: demo_msg_def message_alloc_def msg_ok_def)

theorem serialqueue_well_formed_witness:
  "upcoming_bytes (serialqueue_send_batch 0 [demo_msg] demo_sq) = 2 \<and>
   upcoming_bytes (serialqueue_send_batch 0 [demo_msg] demo_sq) =
     (\<Sum>q\<in>set (upcoming_queues (serialqueue_send_batch 0 [demo_msg] demo_sq)).
        sum_len (cq_upcoming (command_queues (serialqueue_send_batch 0 [demo_msg] demo_sq) q)))"
  using serialqueue_well_formed [OF _ _ demo_steps [unfolded demo_sq_def], folded demo_sq_def]
    send_batch_queues(4) [of "[demo_msg]" 0 demo_sq]
  by (simp add: demo_sq_def demo_msg_def message_alloc_def serialqueue_alloc_def)

text \<open>
  C10: no callback of the background thread reads or writes outside its buffers or follows a bad
  pointer: in every well formed state the command, retransmit and input callbacks end normally, for
  any bytes from the wire.
\<close>

theorem serialqueue_callbacks_safe:
  assumes "sq_inv sq" "unat (receive_seq sq) < 2 ^ 62" "0 < t" "input_pos sq + length data \<le> INPUT_BUF_SIZE"
  shows "no_fault (command_event t sq) \<and> no_fault (retransmit_event t sq) \<and>
     no_fault (input_event (Read_bytes data) t sq)"
proof -
  have i: "queues_inv sq" "window_inv sq" "input_inv sq" using assms(1) by (simp_all add: sq_inv_def)
  have s: "unat (send_seq sq) < 2 ^ 63" using i(2) assms(2) by (simp add: window_inv_def)
  have "no_fault (command_event t sq)" by (rule command_event_spec [OF i(1,2) assms(2,3)]) simp
  moreover have "no_fault (retransmit_event t sq)" by (rule retransmit_event_spec [OF i(2,1), of t]) simp
  moreover have "no_fault (input_event (Read_bytes data) t sq)"
    by (rule input_event_spec [OF i(2) s i(3), of "Read_bytes data" t]) (use assms(4) in simp_all)
  ultimately show ?thesis by simp
qed

theorem serialqueue_callbacks_safe_witness:
  "no_fault (input_event (Read_bytes [5, 0x10, 0, 0, 0x7e]) 1 demo_sq)"
  using serialqueue_callbacks_safe [OF demo_sq_inv, of 1 "[5, 0x10, 0, 0, 0x7e]"]
  by (simp add: demo_sq_def serialqueue_alloc_def)


definition demo_ran :: serialqueue where
  "demo_ran = demo_sq\<lparr>os_now_reads := 2,
     pr := \<lparr>pr_next_timer = 0, pr_waketime = [PR_NEVER, 0], pr_must_exit = False\<rparr>\<rparr>"

lemma demo_run:
  "pollreactor_run [retransmit_event, command_event] [\<lambda>t sq. input_event Read_fail t sq, kick_event] [Poll_ready [1]] demo_sq =
     Ok (1, True) demo_ran"
  by (simp add: pollreactor_run_def demo_ran_def demo_sq_def serialqueue_alloc_def get_monotonic_def pollreactor_check_timers_def
      pollreactor_alloc_def kick_event_def pollreactor_update_timer_def note_waketime_def numeral_2_eq_2 Let_def)



lemma demo_sleep: "check_send_command 0 1 demo_sq = Ok PR_NEVER (demo_sq\<lparr>need_kick_clock := 1\<rparr>)"
  by (simp add: check_send_command_def demo_sq_def serialqueue_alloc_def check_upcoming_queues_def transmit_lock_def
      window_closed_def update_need_kick_clock_def clock_from_time_def trunc_real_def calculate_bittime_def Let_def)


text \<open>
  C12: a block the host builds is a valid block with the next sequence number. Its payload is the
  concatenation of whole messages, each the one with the lowest \<^verbatim>\<open>req_clock\<close> of all ready messages when it is
  taken; the block is kept for retransmission, and with something ready it is not empty.
\<close>

theorem build_command_block:
  assumes "queues_inv sq" "pn + MESSAGE_MAX \<le> length buf"
  shows "\<exists>buf' sq' ms out. build_and_send_command buf pn t sq = Ok (buf', qm_len out) sq' \<and>
     valid_block (qm_bytes out) \<and> qm_bytes out ! 1 = seq_byte (unat (send_seq sq)) \<and>
     qm_payload out = concat (map qm_bytes ms) \<and> (\<exists>s. taken sq ms s \<and> queue_part sq' = queue_part s) \<and>
     (ready_bytes sq \<noteq> 0 \<longrightarrow> ms \<noteq> []) \<and>
     take (pn + qm_len out) buf' = take pn buf @ qm_bytes out \<and>
     sent_queue sq' = sent_queue sq @ [out] \<and> send_seq sq' = send_seq sq + 1"
proof -
  obtain buf' len sq' ms out where b: "build_and_send_command buf pn t sq = Ok (buf', len) sq'"
    "built sq buf pn ms out buf' len sq'"
    by (rule build_and_send_spec [OF assms])
  have "valid_block (qm_bytes out) \<and> qm_bytes out ! 1 = seq_byte (unat (send_seq sq))"
    using b(2) block_valid [of "unat (send_seq sq)" out] by (simp add: built_def)
  with b show ?thesis
    by (intro exI [of _ buf'] exI [of _ sq'] exI [of _ ms] exI [of _ out]) (auto simp: built_def)
qed

definition demo_ready :: serialqueue where
  "demo_ready = snd (check_upcoming_queues 5 (serialqueue_send_batch 0 [demo_msg] demo_sq))"

lemma demo_ready_inv: "queues_inv demo_ready" "ready_bytes demo_ready = 2" "send_seq demo_ready = 1"
proof -
  have "queues_inv demo_sq" using demo_sq_inv by (simp add: sq_inv_def)
  then show "queues_inv demo_ready"
    unfolding demo_ready_def
    by (intro check_upcoming_inv send_batch_inv) (simp_all add: demo_msg_def message_alloc_def msg_ok_def)
  show "ready_bytes demo_ready = 2"
    by (simp add: demo_ready_def demo_sq_def serialqueue_alloc_def demo_msg_def message_alloc_def limit_min_clock_def
        serialqueue_send_batch_def kick_bg_thread_def check_upcoming_queues_def transmit_lock_def Let_def)
  have "send_seq demo_ready = send_seq (serialqueue_send_batch 0 [demo_msg] demo_sq)"
    unfolding demo_ready_def by (rule check_upcoming_stable) (simp add: queue_stable_def)
  also have "\<dots> = send_seq demo_sq" by (rule send_batch_stable) (simp add: queue_stable_def)
  finally show "send_seq demo_ready = 1" by (simp add: demo_sq_def serialqueue_alloc_def)
qed

theorem build_command_block_witness:
  "\<exists>out. valid_block (qm_bytes out) \<and> qm_bytes out ! 1 = 0x11 \<and>
     (\<exists>sq' :: serialqueue. sent_queue sq' = sent_queue demo_ready @ [out] \<and> send_seq sq' = 2)"
proof -
  have s: "seq_byte (unat (send_seq demo_ready)) = 0x11" "send_seq demo_ready + 1 = 2"
    by (simp_all add: demo_ready_inv seq_byte_def)
  have "0 + 64 \<le> length (replicate 64 (0 :: u8))" by simp
  from build_command_block [OF demo_ready_inv(1) this, of 1, unfolded s] show ?thesis by blast
qed

end
