(* ===== verification/Serial_Link.thy ===== *)
theory Serial_Link
  imports Serialqueue_Inv Serial_Irq
begin

text \<open>
  The serial link as a whole: the host's serial queue (\<^verbatim>\<open>src/klippy/chelper/serialqueue.c\<close>) and the
  console of the micro-controller (\<^verbatim>\<open>src/src/command.c\<close>, \<^verbatim>\<open>src/src/generic/serial_irq.c\<close>) with a wire
  in each direction that delivers blocks in order but may lose any of them. A damaged block counts
  as lost: it fails its checksum.
\<close>

section \<open>Frames of the console\<close>

text \<open>A message the console can send: an acknowledgement, or a response with room reserved for it.\<close>

definition sendable :: "command_encoder \<Rightarrow> cmd_arg list \<Rightarrow> bool" where
  "sendable ce args \<longleftrightarrow> ce = encode_acknak \<and> args = [] \<or> encoder_ok ce \<and> args_match (ce_param_types ce) args"

lemma console_sendf_keeps:
  assumes "console_sendf ce args s = Ok u s'"
  shows "next_sequence s' = next_sequence s" "sync_state s' = sync_state s" "in_sendf s' = in_sendf s"
  using assms
  by (auto simp: console_sendf_def sendf_make_room_def Let_def split: prod.splits option.splits encode_result.splits if_splits)

lemma frame_seq_byte:
  assumes "command_encode_and_frame int16 seq buf bs ce args = Encoded n buf'" "n \<noteq> 0"
  shows "5 \<le> n \<and> buf' ! 1 = seq"
  using assms
  by (auto simp: command_encode_and_frame_def command_add_frame_def Let_def nth_list_update
      split: encode_result.splits if_splits option.splits)

lemma sendable_size: "sendable ce args \<Longrightarrow> args_match (ce_param_types ce) args \<and>
    5 \<le> unat (ce_max_size ce) \<and> unat (ce_max_size ce) \<le> 64"
  by (auto simp: sendable_def encoder_ok_def encode_acknak_def)

text \<open>What the console adds to the transmit buffer is nothing or one valid block with the sequence expected next.\<close>

lemma console_sendf_frame:
  assumes t: "tx_ok s" and ce: "sendable ce args" and r: "console_sendf ce args s = Ok u s'"
    and seq: "next_sequence s AND NOT MESSAGE_SEQ_MASK = MESSAGE_DEST"
  obtains out where "tx_ok s'" "tx_pending s' = tx_pending s @ out"
    "out = [] \<or> valid_block out \<and> out ! 1 = next_sequence s"
proof (cases "sendf_make_room ce s")
  case (Pair opt s1)
  show thesis
  proof (cases opt)
    case None
    with Pair sendf_make_room_spec [OF t, of ce] r that [of "[]"] show thesis by (auto simp: console_sendf_def)
  next
    case (Some m)
    then have s1: "tx_ok s1" "tx_pending s1 = tx_pending s" "transmit_max s1 = m" "next_sequence s1 = next_sequence s"
      "m + unat (ce_max_size ce) \<le> 96 \<or> m + unat (ce_min_size ce) \<le> 96"
      using Pair sendf_make_room_spec [OF t, of ce] by auto
    let ?b = "drop m (transmit_buf s1)"
    have lb: "length ?b = 96 - m" using s1(1,3) by (simp add: tx_ok_def)
    obtain n buf where e: "command_encode_and_frame (mach_avr s1) (next_sequence s1) ?b (96 - m) ce args = Encoded n buf"
      and s': "s' = (if n = 0 then s1\<lparr>transmit_buf := take m (transmit_buf s1) @ buf\<rparr>
        else s1\<lparr>transmit_buf := take m (transmit_buf s1) @ buf, transmit_max := m + n\<rparr>)"
      using r Pair Some by (auto simp: console_sendf_def Let_def split: encode_result.splits if_splits)
    have room: "5 \<le> 96 - m"
    proof (rule ccontr)
      assume less: "\<not> 5 \<le> 96 - m"
      have m96: "m \<le> 96" using s1(1,3) by (simp add: tx_ok_def)
      from less s1(5) ce m96 have ack: "ce = encode_acknak" "args = []"
        by (auto simp: sendable_def encoder_ok_def)
      have "command_encodef (mach_avr s1) ?b (96 - m) encode_acknak [] = Encoded 5 ?b"
        by (simp add: command_encodef_def encode_acknak_def Let_def)
      moreover have "command_add_frame (next_sequence s1) ?b 5 = None" using less lb by (simp add: command_add_frame_def)
      ultimately show False using e ack by (simp add: command_encode_and_frame_def)
    qed
    obtain n' buf' where b: "command_encode_and_frame (mach_avr s1) (next_sequence s1) ?b (96 - m) ce args = Encoded n' buf'"
      "length buf' = length ?b" "n' \<le> 96 - m" "n' \<noteq> 0 \<longrightarrow> valid_block (take n' buf')"
      using encode_and_frame_bounds [of ce args "96 - m" ?b "next_sequence s1" "mach_avr s1"]
        sendable_size [OF ce] lb room seq s1(4) by auto
    have nb: "n' = n" "buf' = buf" using e b(1) by simp_all
    have a: "tx_ok (s1\<lparr>transmit_buf := take m (transmit_buf s1) @ buf, transmit_max := m + n\<rparr>) \<and>
        tx_pending (s1\<lparr>transmit_buf := take m (transmit_buf s1) @ buf, transmit_max := m + n\<rparr>) = tx_pending s1 @ take n buf"
      using tx_pending_append [OF s1(1), of buf n] b(2,3) lb s1(3) by (simp add: nb)
    show thesis
    proof (cases "n = 0")
      case True
      with a s' s1(2,3) that [of "[]"] show thesis by (simp add: tx_ok_def tx_pending_def)
    next
      case False
      with frame_seq_byte [OF e False] b(4) have "valid_block (take n buf) \<and> take n buf ! 1 = next_sequence s"
        by (simp add: nb s1(4))
      with a s' s1(2) False that [of "take n buf"] show thesis by simp
    qed
  qed
qed

section \<open>The link\<close>

text \<open>
  Both ends, the blocks on their way, the payloads of all blocks the host has built and the payloads
  of all blocks the micro-controller has accepted.
\<close>

record link =
  lk_host :: serialqueue
  lk_mcu :: serial
  lk_down :: "u8 list list"
  lk_up :: "u8 list list"
  lk_built :: "u8 list list"
  lk_accepted :: "u8 list list"

definition block_payload :: "u8 list \<Rightarrow> u8 list" where
  "block_payload b = take (length b - MESSAGE_MIN) (drop MESSAGE_HEADER_SIZE b)"

text \<open>The block the console added to its transmit buffer, if any.\<close>

definition emitted :: "serial \<Rightarrow> serial \<Rightarrow> u8 list list" where
  "emitted m m' =
     (let out = drop (length (tx_pending m)) (tx_pending m') in if out = [] then [] else [out])"

text \<open>What the handlers of the micro-controller leave alone.\<close>

definition console_part where
  "console_part m = (next_sequence m, sync_state m, in_sendf m, transmit_buf m, transmit_pos m, transmit_max m)"

text \<open>
  The steps. The host builds new blocks, repeats the unacknowledged ones, reads a block or gets
  messages to send. The micro-controller handles a block as \<^verbatim>\<open>console_task\<close> does: \<^verbatim>\<open>command_find_block\<close>
  accepts it or answers it with a nak; the commands of an accepted block run, and may send responses, before
  its acknowledgement, which \<^verbatim>\<open>command_send_ack\<close> sends as any other message. A wire may lose a block.
\<close>

inductive link_step :: "link \<Rightarrow> link \<Rightarrow> bool" where
  host_build: "0 < t \<Longrightarrow> unat (receive_seq (lk_host l)) < 2 ^ 62 \<Longrightarrow> command_event t (lk_host l) = Ok w h \<Longrightarrow>
    outs = drop (length (sent_queue (lk_host l))) (sent_queue h) \<Longrightarrow>
    link_step l (l\<lparr>lk_host := h, lk_down := lk_down l @ map qm_bytes outs,
                   lk_built := lk_built l @ map qm_payload outs\<rparr>)"
| host_repeat: "retransmit_event t (lk_host l) = Ok w h \<Longrightarrow>
    link_step l (l\<lparr>lk_host := h, lk_down := lk_down l @ map qm_bytes (sent_queue (lk_host l))\<rparr>)"
| host_read: "lk_up l = b # us \<Longrightarrow> unat (send_seq (lk_host l)) < 2 ^ 63 \<Longrightarrow>
    input_event (Read_bytes b) t (lk_host l) = Ok () h \<Longrightarrow> link_step l (l\<lparr>lk_host := h, lk_up := us\<rparr>)"
| host_queue: "\<forall>m\<in>set ms. msg_ok m \<Longrightarrow>
    link_step l (l\<lparr>lk_host := serialqueue_send_batch cq ms (lk_host l)\<rparr>)"
| mcu_accept: "lk_down l = b # ds \<Longrightarrow>
    command_find_block console_sendf b (length b) (lk_mcu l) = Ok (ret, n) m1 \<Longrightarrow> 0 < ret \<Longrightarrow>
    link_step l (l\<lparr>lk_mcu := m1, lk_down := ds, lk_accepted := lk_accepted l @ [block_payload b]\<rparr>)"
| mcu_refuse: "lk_down l = b # ds \<Longrightarrow>
    command_find_block console_sendf b (length b) (lk_mcu l) = Ok (ret, n) m1 \<Longrightarrow> ret \<le> 0 \<Longrightarrow>
    link_step l (l\<lparr>lk_mcu := m1, lk_down := ds, lk_up := lk_up l @ emitted (lk_mcu l) m1\<rparr>)"
| mcu_respond: "sendable ce args \<Longrightarrow> command_sendf console_sendf ce args (lk_mcu l) = Ok () m \<Longrightarrow>
    link_step l (l\<lparr>lk_mcu := m, lk_up := lk_up l @ emitted (lk_mcu l) m\<rparr>)"
| mcu_transmit: "serial_get_tx_byte (lk_mcu l) = Ok x m \<Longrightarrow> link_step l (l\<lparr>lk_mcu := m\<rparr>)"
| mcu_run: "console_part m = console_part (lk_mcu l) \<Longrightarrow> link_step l (l\<lparr>lk_mcu := m\<rparr>)"
| lose_down: "lk_down l = xs @ b # ys \<Longrightarrow> link_step l (l\<lparr>lk_down := xs @ ys\<rparr>)"
| lose_up: "lk_up l = xs @ b # ys \<Longrightarrow> link_step l (l\<lparr>lk_up := xs @ ys\<rparr>)"

text \<open>A link whose two ends have agreed on a number; number 1 is the host before its first contact.\<close>

definition link_init :: "nat \<Rightarrow> link \<Rightarrow> bool" where
  "link_init n0 l \<longleftrightarrow>
     2 \<le> n0 \<and> n0 < 2 ^ 60 \<and> sq_inv (lk_host l) \<and> unat (receive_seq (lk_host l)) = n0 \<and> sent_queue (lk_host l) = [] \<and>
     input_pos (lk_host l) = 0 \<and> need_sync (lk_host l) = 0 \<and>
     tx_ok (lk_mcu l) \<and> \<not> in_sendf (lk_mcu l) \<and> next_sequence (lk_mcu l) = seq_byte n0 \<and> sync_state (lk_mcu l) AND CF_NEED_SYNC = 0 \<and>
     lk_down l = [] \<and> lk_up l = [] \<and> lk_built l = [] \<and> lk_accepted l = []"

section \<open>Sequence bytes\<close>

lemma seq_byte_and: "seq_byte n AND 0x0f = of_nat n AND 0x0f"
  by (simp add: seq_byte_def bit.conj_disj_distrib2 and.assoc)

lemma of_nat_low: "(of_nat n :: 'a :: len word) AND mask 4 = of_nat (n mod 16)"
proof -
  have "(of_nat n :: 'a word) AND mask 4 = take_bit 4 (of_nat n)" by (simp add: take_bit_eq_mask)
  also have "\<dots> = of_nat (take_bit 4 n)" by (rule of_nat_take_bit [symmetric])
  finally show ?thesis by (simp add: take_bit_eq_mod)
qed

lemma mask4: "(0x0f :: u8) = mask 4" "(0x0f :: u64) = mask 4" by (simp_all add: mask_eq_exp_minus_1)

lemma seq_byte_low: "seq_byte n AND 0x0f = of_nat (n mod 16)"
  unfolding seq_byte_and unfolding mask4 of_nat_low ..

lemma seq_byte_ucast: "(ucast (seq_byte n) :: u64) AND 0x0f = of_nat n AND 0x0f"
proof -
  have "(ucast (seq_byte n) :: u64) AND 0x0f = ucast (seq_byte n AND 0x0f)" by (simp add: unsigned_and_eq)
  also have "\<dots> = ucast (of_nat (n mod 16) :: u8)" by (simp only: seq_byte_low)
  also have "\<dots> = of_nat (n mod 16)"
    unfolding unsigned_of_nat using take_bit_nat_eq_self [of "n mod 16" 8]
    by (simp add: less_trans [OF mod_less_divisor])
  finally show ?thesis unfolding mask4 of_nat_low .
qed

lemma seq_byte_mod: "seq_byte (n mod 16) = seq_byte n"
  using seq_byte_low [of n] seq_byte_low [of "n mod 16"]
  by (simp add: seq_byte_def bit.conj_disj_distrib2 and.assoc)

lemma seq_byte_eq_iff: "seq_byte a = seq_byte b \<longleftrightarrow> a mod 16 = b mod 16"
proof
  assume "seq_byte a = seq_byte b"
  then have "(of_nat (a mod 16) :: u8) = of_nat (b mod 16)" using seq_byte_low by metis
  moreover have "unat (of_nat (n mod 16) :: u8) = n mod 16" for n by (rule unat_of_nat_small) simp
  ultimately show "a mod 16 = b mod 16" by metis
qed (metis seq_byte_mod)

text \<open>The numbers a receiver can confuse are at least 16 apart.\<close>

lemma mod_near: "a \<le> b \<Longrightarrow> a mod 16 = b mod 16 \<Longrightarrow> b < a + 16 \<Longrightarrow> a = b" for a b :: nat
  using mod_eq_dvd_iff_nat [of a b 16] nat_dvd_not_less [of "b - a" 16] by fastforce

lemma seq_byte_near: "seq_byte a = seq_byte b \<Longrightarrow> a < b + 16 \<Longrightarrow> b < a + 16 \<Longrightarrow> a = b"
  unfolding seq_byte_eq_iff using mod_near [of a b] mod_near [of b a] by linarith

lemma and_mask_cong: "x AND mask n = y AND mask n \<Longrightarrow> (x + z) AND mask n = (y + z) AND mask n" for x y z :: "'a :: len word"
  by (metis mask_eqs(1))

lemma seq_byte_Suc: "((seq_byte n + 1) AND 0x0f) OR 0x10 = seq_byte (Suc n)"
proof -
  have m: "(0x0f :: u8) = mask 4" by (simp add: mask_eq_exp_minus_1)
  have "(seq_byte n + 1) AND 0x0f = (of_nat n + 1) AND 0x0f"
    using and_mask_cong [OF seq_byte_and [of n, unfolded m]] by (simp add: m)
  then show ?thesis by (simp add: seq_byte_def or.commute add.commute)
qed

text \<open>A sequence byte within 15 of the last acknowledged number is read back exactly.\<close>

lemma receive_rseq_exact:
  assumes "input_buf sq ! 1 = seq_byte a" "unat (receive_seq sq) \<le> a" "a < unat (receive_seq sq) + 16"
    and "unat (receive_seq sq) < 2 ^ 63"
  shows "unat (receive_rseq sq) = a"
proof -
  define r where "r = unat (receive_seq sq)"
  obtain d where d: "d < 16" "unat (receive_rseq sq) = r + d"
    "of_nat d = (ucast (input_buf sq ! 1) - receive_seq sq) AND 0x0f"
    using receive_rseq_near [OF assms(4)] unfolding r_def by blast
  have "(ucast (seq_byte a) - receive_seq sq) AND 0x0f = (ucast (seq_byte a) + - of_nat r) AND mask 4"
    unfolding mask4 by (simp add: r_def)
  also have "\<dots> = (of_nat a + - of_nat r) AND mask 4"
    by (rule and_mask_cong [OF seq_byte_ucast [unfolded mask4]])
  also have "(of_nat a + - of_nat r :: u64) = of_nat (a - r)" using assms(2) by (simp add: r_def of_nat_diff)
  also have "of_nat (a - r) AND mask 4 = (of_nat ((a - r) mod 16) :: u64)" by (rule of_nat_low)
  also have "(a - r) mod 16 = a - r" using assms(3) by (simp add: r_def)
  finally have "(of_nat d :: u64) = of_nat (a - r)" unfolding d(3) assms(1) .
  moreover have "unat (of_nat d :: u64) = d" using d(1) by (intro unat_of_nat_small) simp
  moreover have "unat (of_nat (a - r) :: u64) = a - r"
    using assms(3) by (intro unat_of_nat_small) (simp add: r_def)
  ultimately have "d = a - r" by metis
  with d(2) assms(2) show ?thesis by (simp add: r_def)
qed

section \<open>Reading one block\<close>

lemma msgblock_check_block:
  assumes "valid_block b" "length b \<le> length buf" "take (length b) buf = b"
  shows "msgblock_check 0 buf (length b) = (int (length b), 0)"
  using msgblock_check_pos_iff [of "length b" buf "length b"] assms by simp

lemma input_block:
  assumes "sq_inv sq" "unat (send_seq sq) < 2 ^ 63" "input_pos sq = 0" "need_sync sq = 0" "valid_block b"
    and "input_event (Read_bytes b) t sq = Ok () sq'"
  obtains s1 s2 where "handle_message t (length b) s1 = Ok () s2" "s1 = sq\<lparr>input_buf := input_buf s1, input_pos := length b\<rparr>"
    "take (length b) (input_buf s1) = b" "sq' = input_shift (length b) s2" "input_pos sq' = 0" "need_sync sq' = 0"
proof -
  have lb: "5 \<le> length b" "length b \<le> 64" using assms(5) by (simp_all add: valid_block_def)
  then have ne: "b \<noteq> []" by auto
  have li: "length (input_buf sq) = 4096" using assms(1) by (simp add: sq_inv_def input_inv_def)
  then obtain buf where w: "write_at (input_buf sq) 0 b = Some buf" using lb by (simp add: write_at_def)
  define s1 where "s1 = sq\<lparr>input_buf := buf, input_pos := length b\<rparr>"
  have tk: "take (length b) buf = b" using write_at_take [OF w] by simp
  have lbuf: "length buf = 4096" using write_at_length [OF w] li by simp
  have c: "msgblock_check 0 buf (length b) = (int (length b), 0)"
    using msgblock_check_block [OF assms(5) _ tk] lbuf lb by simp
  have f: "need_sync s1 = 0" "input_buf s1 = buf" "input_pos s1 = length b" using assms(4) by (simp_all add: s1_def)
  have "input_loop t s1 = Ok () sq'"
    using assms(6) w by (simp add: input_event_def assms(3) s1_def)
  then have "andthen (handle_message t (length b) (s1\<lparr>need_sync := 0\<rparr>))
      (\<lambda>_ sq. input_loop t (input_shift (length b) sq)) = Ok () sq'"
    using ne by (subst (asm) input_loop.simps) (simp add: f c Let_def)
  moreover have "s1\<lparr>need_sync := need_sync s1\<rparr> = s1" by simp
  ultimately have "andthen (handle_message t (length b) s1)
      (\<lambda>_ sq. input_loop t (input_shift (length b) sq)) = Ok () sq'" by (simp only: f(1))
  then obtain u s2 where h0: "handle_message t (length b) s1 = Ok u s2"
    and l: "input_loop t (input_shift (length b) s2) = Ok () sq'"
    unfolding andthen_Ok_iff by blast
  have h: "handle_message t (length b) s1 = Ok () s2" using h0 by (cases u) simp
  define s3 where "s3 = input_shift (length b) s2"
  have pos: "input_pos s3 = 0" using handle_message_input(1) [OF h] f(3) by (simp add: s3_def)
  have "need_sync (acked t s1) = need_sync s1" by (simp add: acked_def)
  then have ns: "need_sync s3 = 0"
    using handle_message_frame(4) [OF h] f(1) by (simp add: s3_def input_shift_def Let_def)
  have "input_loop t s3 = Ok () s3"
    by (subst input_loop.simps) (simp add: pos ns msgblock_check_def)
  with l have sq': "sq' = s3" by (simp add: s3_def)
  have e1: "s1 = sq\<lparr>input_buf := input_buf s1, input_pos := length b\<rparr>" by (simp add: s1_def)
  have e2: "take (length b) (input_buf s1) = b" using tk f(2) by simp
  show thesis
    by (rule that [OF h e1 e2 sq' [unfolded s3_def]]) (simp_all add: sq' pos ns)
qed

section \<open>The invariant of the link\<close>

text \<open>
  The numbers \<open>D\<close> of the blocks on their way down, and the numbers \<open>A\<close> the blocks on their way up
  acknowledge, are ghosts of the invariant. A block on its way down is less than a window ahead of
  what the micro-controller expects and at most a window behind.
\<close>

definition host_side :: "nat \<Rightarrow> link \<Rightarrow> bool" where
  "host_side n0 l \<longleftrightarrow>
     sq_inv (lk_host l) \<and> input_pos (lk_host l) = 0 \<and> need_sync (lk_host l) = 0 \<and>
     2 \<le> n0 \<and> n0 \<le> unat (receive_seq (lk_host l)) \<and>
     unat (send_seq (lk_host l)) = n0 + length (lk_built l) \<and>
     map qm_payload (sent_queue (lk_host l)) = drop (unat (receive_seq (lk_host l)) - n0) (lk_built l) \<and>
     (\<forall>p\<in>set (lk_built l). length p \<le> MESSAGE_PAYLOAD_MAX)"

definition mcu_side :: "nat \<Rightarrow> link \<Rightarrow> bool" where
  "mcu_side n0 l \<longleftrightarrow>
     tx_ok (lk_mcu l) \<and> \<not> in_sendf (lk_mcu l) \<and> sync_state (lk_mcu l) AND CF_NEED_SYNC = 0 \<and>
     next_sequence (lk_mcu l) = seq_byte (n0 + length (lk_accepted l)) \<and>
     lk_accepted l = take (length (lk_accepted l)) (lk_built l)"

definition block_at :: "nat \<Rightarrow> u8 list list \<Rightarrow> nat \<Rightarrow> u8 list" where
  "block_at n0 ps d = make_block (seq_byte d) (ps ! (d - n0))"

definition down_ok :: "nat \<Rightarrow> nat list \<Rightarrow> link \<Rightarrow> bool" where
  "down_ok n0 D l \<longleftrightarrow>
     lk_down l = map (block_at n0 (lk_built l)) D \<and>
     (\<forall>d\<in>set D. n0 \<le> d \<and> d < n0 + length (lk_built l) \<and>
        n0 + length (lk_accepted l) \<le> d + MAX_PENDING_BLOCKS) \<and>
     sorted_wrt (\<lambda>x y. x < y + MAX_PENDING_BLOCKS) D"

definition answers :: "nat \<Rightarrow> u8 list \<Rightarrow> bool" where
  "answers a b \<longleftrightarrow> valid_block b \<and> b ! 1 = seq_byte a"

definition up_ok :: "nat \<Rightarrow> nat list \<Rightarrow> link \<Rightarrow> bool" where
  "up_ok n0 A l \<longleftrightarrow>
     sorted (unat (receive_seq (lk_host l)) # A @ [n0 + length (lk_accepted l)]) \<and> list_all2 answers A (lk_up l)"

definition link_inv :: "nat \<Rightarrow> nat list \<Rightarrow> nat list \<Rightarrow> link \<Rightarrow> bool" where
  "link_inv n0 D A l \<longleftrightarrow> host_side n0 l \<and> mcu_side n0 l \<and> down_ok n0 D l \<and> up_ok n0 A l"

text \<open>The numbers of the two ends: acknowledged, expected, sent, and the width of the window.\<close>

lemma link_inv_order:
  assumes "link_inv n0 D A l"
  shows "unat (receive_seq (lk_host l)) \<le> n0 + length (lk_accepted l)"
    "length (lk_accepted l) \<le> length (lk_built l)"
    "n0 + length (lk_built l) = unat (receive_seq (lk_host l)) + length (sent_queue (lk_host l))"
    "length (sent_queue (lk_host l)) \<le> 12"
proof -
  show "unat (receive_seq (lk_host l)) \<le> n0 + length (lk_accepted l)"
    using assms by (simp add: link_inv_def up_ok_def)
  show "length (lk_accepted l) \<le> length (lk_built l)"
    using assms unfolding link_inv_def mcu_side_def by (metis length_take min.cobounded1)
  show "n0 + length (lk_built l) = unat (receive_seq (lk_host l)) + length (sent_queue (lk_host l))"
    "length (sent_queue (lk_host l)) \<le> 12"
    using assms by (simp_all add: link_inv_def host_side_def sq_inv_def window_inv_def)
qed

text \<open>The unacknowledged blocks, as the host repeats them.\<close>

lemma unacked_blocks:
  assumes "host_side n0 l"
  shows "map qm_bytes (sent_queue (lk_host l)) =
     map (block_at n0 (lk_built l)) [unat (receive_seq (lk_host l))..<n0 + length (lk_built l)]"
proof (rule nth_equalityI)
  let ?r = "unat (receive_seq (lk_host l))" and ?q = "sent_queue (lk_host l)"
  have w: "window_inv (lk_host l)" and n: "n0 \<le> ?r" "unat (send_seq (lk_host l)) = n0 + length (lk_built l)"
    and p: "map qm_payload ?q = drop (?r - n0) (lk_built l)"
    using assms by (simp_all add: host_side_def sq_inv_def)
  have len: "n0 + length (lk_built l) = ?r + length ?q" using w n by (simp add: window_inv_def)
  then show "length (map qm_bytes ?q) = length (map (block_at n0 (lk_built l)) [?r..<n0 + length (lk_built l)])" by simp
  fix i assume "i < length (map qm_bytes ?q)"
  then have i: "i < length ?q" by simp
  then have "qm_bytes (?q ! i) = make_block (seq_byte (?r + i)) (qm_payload (?q ! i))"
    using w by (simp add: window_inv_def is_block_def)
  moreover have "qm_payload (?q ! i) = lk_built l ! (?r - n0 + i)"
    using i len n(1) arg_cong [OF p, of "\<lambda>xs. xs ! i"] by simp
  moreover have "?r - n0 + i = ?r + i - n0" using n(1) by simp
  ultimately show "map qm_bytes ?q ! i = map (block_at n0 (lk_built l)) [?r..<n0 + length (lk_built l)] ! i"
    using i len by (simp add: block_at_def)
qed

lemma block_at_valid:
  assumes "host_side n0 l" "n0 \<le> d" "d < n0 + length (lk_built l)"
  shows "valid_block (block_at n0 (lk_built l) d)" "block_at n0 (lk_built l) d ! 1 = seq_byte d"
    "block_payload (block_at n0 (lk_built l) d) = lk_built l ! (d - n0)"
proof -
  have "length (lk_built l ! (d - n0)) \<le> 59" using assms by (auto simp: host_side_def)
  then show "valid_block (block_at n0 (lk_built l) d)"
    unfolding block_at_def by (rule make_block_valid [OF _ seq_byte_dest])
  show "block_at n0 (lk_built l) d ! 1 = seq_byte d" unfolding block_at_def by (rule make_block_nth(2))
  show "block_payload (block_at n0 (lk_built l) d) = lk_built l ! (d - n0)"
    unfolding block_payload_def block_at_def by (rule make_block_payload_nth)
qed

lemma block_at_append: "n0 \<le> d \<Longrightarrow> d < n0 + length xs \<Longrightarrow> block_at n0 (xs @ ys) d = block_at n0 xs d"
  unfolding block_at_def by (subst nth_append_left) auto

section \<open>The steps of the host\<close>

lemma host_reads:
  assumes "sq_inv sq" "unat (send_seq sq) < 2 ^ 63" "input_pos sq = 0" "need_sync sq = 0" "answers a b"
    and "unat (receive_seq sq) \<le> a" "a \<le> unat (send_seq sq)" "input_event (Read_bytes b) t sq = Ok () sq'"
  shows "sq_inv sq' \<and> input_pos sq' = 0 \<and> need_sync sq' = 0 \<and> unat (receive_seq sq') = a \<and>
     send_seq sq' = send_seq sq \<and> sent_queue sq' = drop (a - unat (receive_seq sq)) (sent_queue sq)"
proof -
  have b: "valid_block b" "b ! 1 = seq_byte a" "5 \<le> length b" "length b \<le> 64"
    using assms(5) unfolding answers_def valid_block_def by blast+
  obtain s1 s2 where h: "handle_message t (length b) s1 = Ok () s2"
    and s1: "s1 = sq\<lparr>input_buf := input_buf s1, input_pos := length b\<rparr>" "take (length b) (input_buf s1) = b"
    and sq': "sq' = input_shift (length b) s2" "input_pos sq' = 0" "need_sync sq' = 0"
    using input_block [OF assms(1-4) b(1) assms(8)] by blast
  have k: "f s1 = f sq" if "\<And>s x. f (s\<lparr>input_buf := x\<rparr>) = f s" "\<And>s x. f (s\<lparr>input_pos := x\<rparr>) = f s" for f
    by (subst s1(1)) (simp add: that)
  have s1f: "window_inv s1 = window_inv sq" "receive_seq s1 = receive_seq sq" "send_seq s1 = send_seq sq"
    "sent_queue s1 = sent_queue sq" by (rule k; simp add: window_inv_def)+
  have w: "window_inv s1" using assms(1) s1f(1) by (simp add: sq_inv_def)
  have l: "unat (send_seq sq) = unat (receive_seq sq) + length (sent_queue sq)" "length (sent_queue sq) \<le> 12"
    using w s1f by (simp_all add: window_inv_def)
  have "input_buf s1 ! 1 = b ! 1" using s1(2) b(3) nth_take [of 1 "length b" "input_buf s1"] by simp
  then have rs: "unat (receive_rseq s1) = a"
    using receive_rseq_exact [of s1 a] b(2) assms(2,6,7) l s1f by simp
  have "unat (receive_seq (acked t s1)) = a \<and> send_seq (acked t s1) = send_seq sq \<and>
      sent_queue (acked t s1) = drop (a - unat (receive_seq sq)) (sent_queue sq)"
  proof (cases "a = unat (receive_seq sq)")
    case True
    then have "receive_rseq s1 = receive_seq s1" using rs s1f(2) by (simp add: word_unat_eq_iff)
    then show ?thesis using True s1f by (simp add: acked_def)
  next
    case False
    define i where "i = a - unat (receive_seq sq) - 1"
    have i: "unat (receive_rseq s1) = unat (receive_seq s1) + Suc i" "i < length (sent_queue s1)"
      "Suc i = a - unat (receive_seq sq)" using False assms(6,7) rs l s1f by (simp_all add: i_def)
    have "\<not> receive_rseq s1 > send_seq s1" "receive_rseq s1 \<noteq> receive_seq s1"
      using assms(7) rs s1f False by (auto simp: word_less_nat_alt)
    then have "acked t s1 = update_receive_seq t (receive_rseq s1) s1" by (simp add: acked_def seq_accepted_def)
    moreover note u = update_receive_seq_acks [OF w i(1,2), of t]
    moreover have "unat (send_seq (update_receive_seq t (receive_rseq s1) s1)) =
        unat (receive_seq (update_receive_seq t (receive_rseq s1) s1)) +
        length (sent_queue (update_receive_seq t (receive_rseq s1) s1))" using u(1) by (simp add: window_inv_def)
    ultimately show ?thesis using i s1f l assms(6) by simp
  qed
  then have "unat (receive_seq s2) = a \<and> send_seq s2 = send_seq sq \<and>
      sent_queue s2 = drop (a - unat (receive_seq sq)) (sent_queue sq)"
    by (simp add: handle_message_frame [OF h])
  moreover have "sq_inv sq'" by (rule input_event_inv [OF assms(1,2,8)]) (use assms(3) b(4) in auto)
  ultimately show ?thesis using sq'(2,3) by (simp add: sq'(1) input_shift_def Let_def)
qed

lemma link_host_read:
  assumes "link_inv n0 D A l" "lk_up l = b # us" "unat (send_seq (lk_host l)) < 2 ^ 63"
    and "input_event (Read_bytes b) t (lk_host l) = Ok () h"
  shows "\<exists>A'. link_inv n0 D A' (l\<lparr>lk_host := h, lk_up := us\<rparr>)"
proof -
  let ?r = "unat (receive_seq (lk_host l))"
  obtain a A' where A: "A = a # A'" "answers a b" "list_all2 answers A' us"
    using assms(1,2) by (auto simp: link_inv_def up_ok_def list_all2_Cons2)
  have o: "?r \<le> a" "a \<le> n0 + length (lk_accepted l)" "sorted (a # A' @ [n0 + length (lk_accepted l)])"
    using assms(1) A(1) by (simp_all add: link_inv_def up_ok_def)
  note ord = link_inv_order [OF assms(1)]
  have hs: "host_side n0 l" using assms(1) by (simp add: link_inv_def)
  then have "a \<le> unat (send_seq (lk_host l))" using o(2) ord(2) by (simp add: host_side_def)
  then have h: "sq_inv h" "input_pos h = 0" "need_sync h = 0" "unat (receive_seq h) = a"
    "send_seq h = send_seq (lk_host l)" "sent_queue h = drop (a - ?r) (sent_queue (lk_host l))"
    using host_reads [OF _ assms(3) _ _ A(2) o(1) _ assms(4)] hs by (simp_all add: host_side_def)
  have "map qm_payload (sent_queue h) = drop (a - n0) (lk_built l)"
    using hs h(6) o(1) by (simp add: host_side_def drop_map [symmetric])
  then have "host_side n0 (l\<lparr>lk_host := h, lk_up := us\<rparr>)" using hs h o(1) by (simp add: host_side_def)
  moreover have "up_ok n0 A' (l\<lparr>lk_host := h, lk_up := us\<rparr>)" using o(3) A(3) h(4) by (simp add: up_ok_def)
  ultimately show ?thesis using assms(1) by (auto simp: link_inv_def mcu_side_def down_ok_def)
qed

text \<open>A step of the host that keeps the window and what is on its way.\<close>

lemma link_host_keeps:
  assumes "link_inv n0 D A l" "sq_inv h" "sent_queue h = sent_queue (lk_host l)" "receive_seq h = receive_seq (lk_host l)"
    and "send_seq h = send_seq (lk_host l)" "input_pos h = input_pos (lk_host l)" "need_sync h = need_sync (lk_host l)"
  shows "link_inv n0 D A (l\<lparr>lk_host := h\<rparr>)"
  using assms by (simp add: link_inv_def host_side_def mcu_side_def down_ok_def up_ok_def)

lemma link_host_queue:
  assumes "link_inv n0 D A l" "\<forall>m\<in>set ms. msg_ok m"
  shows "link_inv n0 D A (l\<lparr>lk_host := serialqueue_send_batch cq ms (lk_host l)\<rparr>)"
proof (rule link_host_keeps [OF assms(1)])
  let ?h = "lk_host l"
  show "sq_inv (serialqueue_send_batch cq ms ?h)"
    by (rule sq_step_inv [OF step_send [OF assms(2)]]) (use assms(1) in \<open>simp add: link_inv_def host_side_def\<close>)
  show "sent_queue (serialqueue_send_batch cq ms ?h) = sent_queue ?h"
    "receive_seq (serialqueue_send_batch cq ms ?h) = receive_seq ?h"
    "send_seq (serialqueue_send_batch cq ms ?h) = send_seq ?h"
    "input_pos (serialqueue_send_batch cq ms ?h) = input_pos ?h"
    "need_sync (serialqueue_send_batch cq ms ?h) = need_sync ?h"
    by (rule send_batch_stable; simp add: queue_stable_def)+
qed

text \<open>Numbers appended to those on their way: a window is at most 12 wide.\<close>

lemma window_append:
  assumes "sorted_wrt (\<lambda>x y. x < y + 12) D" "\<forall>d\<in>set D. d < m + (12 :: nat)" "n \<le> m + 12"
  shows "sorted_wrt (\<lambda>x y. x < y + 12) (D @ [m..<n])"
proof -
  have "sorted_wrt (\<lambda>x y. x < y + 12) [m..<n]"
    by (rule sorted_wrt_mono_rel [OF _ sorted_wrt_upt]) simp
  with assms show ?thesis by (fastforce simp: sorted_wrt_append)
qed

lemma link_host_repeat:
  assumes "link_inv n0 D A l" "retransmit_event t (lk_host l) = Ok w h"
  shows "\<exists>D'. link_inv n0 D' A (l\<lparr>lk_host := h, lk_down := lk_down l @ map qm_bytes (sent_queue (lk_host l))\<rparr>)"
proof -
  let ?r = "unat (receive_seq (lk_host l))" and ?s = "n0 + length (lk_built l)" and ?l' = "l\<lparr>lk_host := h\<rparr>"
  have hs: "host_side n0 l" and dn: "down_ok n0 D l" using assms(1) by (simp_all add: link_inv_def)
  then have q: "window_inv (lk_host l)" "queues_inv (lk_host l)" "input_inv (lk_host l)"
    by (simp_all add: host_side_def sq_inv_def)
  obtain w' h' where r: "retransmit_event t (lk_host l) = Ok w' h'" "queues_inv h'" "window_inv h'"
    "sent_queue h' = sent_queue (lk_host l)" "receive_seq h' = receive_seq (lk_host l)"
    "send_seq h' = send_seq (lk_host l)" "input_buf h' = input_buf (lk_host l)"
    "input_pos h' = input_pos (lk_host l)" "need_sync h' = need_sync (lk_host l)"
    by (rule retransmit_event_spec [OF q(1,2), of t]) blast
  have h: "h' = h" using r(1) assms(2) by simp
  have "sq_inv h" using r q(3) unfolding h by (simp add: sq_inv_def input_inv_def)
  then have i: "link_inv n0 D A ?l'" using r by (intro link_host_keeps [OF assms(1)]) (simp_all add: h)
  note ord = link_inv_order [OF assms(1)]
  have n0: "n0 \<le> ?r" using hs by (simp add: host_side_def)
  have d: "\<forall>d\<in>set D. d < ?r + 12" using dn ord(3,4) by (fastforce simp: down_ok_def)
  have "down_ok n0 (D @ [?r..<?s]) (l\<lparr>lk_host := h, lk_down := lk_down l @ map qm_bytes (sent_queue (lk_host l))\<rparr>)"
    using dn ord n0 window_append [OF _ d, of ?s] unacked_blocks [OF hs] by (auto simp: down_ok_def)
  with i show ?thesis
    by (intro exI [of _ "D @ [?r..<?s]"]) (simp add: link_inv_def host_side_def mcu_side_def up_ok_def)
qed

lemma host_builds:
  assumes "host_side n0 l" "0 < t" "unat (receive_seq (lk_host l)) < 2 ^ 62" "command_event t (lk_host l) = Ok w h"
    and "outs = drop (length (sent_queue (lk_host l))) (sent_queue h)"
    and "unat (receive_seq (lk_host l)) \<le> n0 + length (lk_built l)"
  shows "host_side n0 (l\<lparr>lk_host := h, lk_down := d, lk_built := lk_built l @ map qm_payload outs\<rparr>)"
    "sent_queue h = sent_queue (lk_host l) @ outs" "receive_seq h = receive_seq (lk_host l)"
proof -
  have q: "queues_inv (lk_host l)" "window_inv (lk_host l)" "input_inv (lk_host l)"
    using assms(1) by (simp_all add: host_side_def sq_inv_def)
  obtain w' h' os where c: "command_event t (lk_host l) = Ok w' h'" "sends_blocks (lk_host l) os h'"
    by (rule command_event_spec [OF q(1,2) assms(3,2)]) blast
  have h': "h' = h" using c(1) assms(4) by simp
  have sb: "sends_blocks (lk_host l) os h" using c(2) unfolding h' .
  then have s: "sent_queue h = sent_queue (lk_host l) @ os" "receive_seq h = receive_seq (lk_host l)"
    "queues_inv h" "window_inv h" "input_buf h = input_buf (lk_host l)" "input_pos h = input_pos (lk_host l)"
    "need_sync h = need_sync (lk_host l)"
    unfolding sends_blocks_def by blast+
  have os: "os = outs" using assms(5) s(1) by simp
  show "sent_queue h = sent_queue (lk_host l) @ outs" "receive_seq h = receive_seq (lk_host l)" using s os by simp_all
  have "sq_inv h" using s(3-6) q(3) by (simp add: sq_inv_def input_inv_def)
  moreover have "unat (send_seq h) = unat (receive_seq (lk_host l)) + length (sent_queue (lk_host l)) + length outs"
    "unat (send_seq (lk_host l)) = unat (receive_seq (lk_host l)) + length (sent_queue (lk_host l))"
    using s(1,2,4) q(2) os by (simp_all add: window_inv_def)
  moreover have "length (qm_payload qm) \<le> 59" if "qm \<in> set outs" for qm
  proof -
    have "qm \<in> set (sent_queue h)" using that s(1) os by simp
    then have "qm_len qm \<le> 64" using s(4) by (auto simp: window_inv_def is_block_def in_set_conv_nth)
    then show ?thesis by (simp add: qm_payload_def)
  qed
  ultimately show "host_side n0 (l\<lparr>lk_host := h, lk_down := d, lk_built := lk_built l @ map qm_payload outs\<rparr>)"
    using assms(1,6) s(1,2,6,7) os by (auto simp: host_side_def)
qed

lemma link_host_build:
  assumes "link_inv n0 D A l" "0 < t" "unat (receive_seq (lk_host l)) < 2 ^ 62" "command_event t (lk_host l) = Ok w h"
    and "outs = drop (length (sent_queue (lk_host l))) (sent_queue h)"
  shows "\<exists>D'. link_inv n0 D' A (l\<lparr>lk_host := h, lk_down := lk_down l @ map qm_bytes outs,
     lk_built := lk_built l @ map qm_payload outs\<rparr>)" (is "\<exists>D'. link_inv n0 D' A ?l'")
proof -
  let ?r = "unat (receive_seq (lk_host l))" and ?s = "n0 + length (lk_built l)"
  note ord = link_inv_order [OF assms(1)]
  have inv: "host_side n0 l" "mcu_side n0 l" "down_ok n0 D l" "up_ok n0 A l"
    using assms(1) by (simp_all add: link_inv_def)
  have rs: "?r \<le> ?s" using ord by simp
  note b = host_builds [OF inv(1) assms(2-5) rs]
  let ?s' = "?s + length outs"
  have "map qm_bytes (sent_queue h) = map (block_at n0 (lk_built ?l')) [?r..<?s']"
    using unacked_blocks [OF b(1)] b(3) by (simp add: add.assoc)
  then have "drop (length (sent_queue (lk_host l))) (map qm_bytes (sent_queue h)) =
      drop (length (sent_queue (lk_host l))) (map (block_at n0 (lk_built ?l')) [?r..<?s'])" by simp
  then have new: "map qm_bytes outs = map (block_at n0 (lk_built ?l')) [?s..<?s']"
    using b(2) ord(3) by (simp add: drop_map)
  have old: "map (block_at n0 (lk_built ?l')) D = map (block_at n0 (lk_built l)) D"
    using inv(3) by (auto simp: down_ok_def block_at_append)
  have d: "\<forall>d\<in>set D. d < ?s + 12" using inv(3) by (auto simp: down_ok_def)
  have "window_inv h" using b(1) by (simp add: host_side_def sq_inv_def)
  then have "length outs \<le> 12" using b(2) by (simp add: window_inv_def)
  then have "down_ok n0 (D @ [?s..<?s']) ?l'"
    using inv(3) new old ord(2) window_append [OF _ d, of ?s'] by (auto simp: down_ok_def)
  moreover have "mcu_side n0 ?l'" "up_ok n0 A ?l'" using inv(2,4) ord(2) b(3) by (simp_all add: mcu_side_def up_ok_def)
  ultimately show ?thesis using b(1) unfolding link_inv_def by blast
qed

section \<open>The steps of the micro-controller\<close>

lemma emitted_append: "tx_pending m' = tx_pending m @ out \<Longrightarrow> emitted m m' = (if out = [] then [] else [out])"
  by (simp add: emitted_def)

lemma mcu_sends:
  assumes "tx_ok m" "\<not> in_sendf m" "next_sequence m = seq_byte n" "sendable ce args"
    and "command_sendf console_sendf ce args m = Ok u m'"
  shows "tx_ok m'" "\<not> in_sendf m'" "next_sequence m' = seq_byte n" "sync_state m' = sync_state m"
    "emitted m m' = [] \<or> (\<exists>b. emitted m m' = [b] \<and> answers n b)"
proof -
  let ?m = "m\<lparr>in_sendf := True\<rparr>"
  obtain v s where c: "console_sendf ce args ?m = Ok v s" and m': "m' = s\<lparr>in_sendf := False\<rparr>"
    using assms(2,5) by (auto simp: command_sendf_def andthen_Ok_iff)
  have t: "tx_ok ?m" "next_sequence ?m AND NOT MESSAGE_SEQ_MASK = MESSAGE_DEST"
    using assms(1,3) seq_byte_dest [of n] by (simp_all add: tx_ok_def)
  obtain out where out: "tx_ok s" "tx_pending s = tx_pending ?m @ out"
    "out = [] \<or> valid_block out \<and> out ! 1 = next_sequence ?m"
    by (rule console_sendf_frame [OF t(1) assms(4) c t(2)])
  show "tx_ok m'" "\<not> in_sendf m'" "next_sequence m' = seq_byte n" "sync_state m' = sync_state m"
    using out(1) console_sendf_keeps [OF c] assms(3) by (simp_all add: m' tx_ok_def)
  have "tx_pending m' = tx_pending m @ out" using out(2) by (simp add: m' tx_pending_def)
  from emitted_append [OF this] out(3) assms(3)
  show "emitted m m' = [] \<or> (\<exists>b. emitted m m' = [b] \<and> answers n b)" by (auto simp: answers_def)
qed

text \<open>How the console treats a whole block: it accepts the number it expects and answers any other.\<close>

lemma mcu_finds:
  assumes "sync_state m AND CF_NEED_SYNC = 0" "next_sequence m = seq_byte n" "valid_block b"
    and "command_find_block console_sendf b (length b) m = Ok (ret, k) m'"
  shows "if b ! 1 = seq_byte n
     then ret = 1 \<and> m' = m\<lparr>sync_state := sync_state m AND NOT CF_NEED_VALID, next_sequence := seq_byte (Suc n)\<rparr>
     else ret = - 1 \<and> command_sendf console_sendf encode_acknak [] (m\<lparr>sync_state := sync_state m AND NOT CF_NEED_VALID\<rparr>) = Ok () m'"
proof -
  have "\<exists>n\<le>length b. valid_block (take n b)" using assms(3) by (intro exI [of _ "length b"]) simp
  then show ?thesis
    using assms(4) unfolding command_find_block_cases [OF assms(1) order_refl]
    by (auto simp: assms(2) Let_def seq_byte_Suc [simplified] find_block_nak_def andthen_Ok_iff)
qed

text \<open>A step of the micro-controller that keeps the number it expects: it may have answered with that number.\<close>

lemma link_mcu_keeps:
  assumes "link_inv n0 D A l" "down_ok n0 D' (l\<lparr>lk_down := ds\<rparr>)" "tx_ok m \<and> \<not> in_sendf m"
    "sync_state m AND CF_NEED_SYNC = 0" "next_sequence m = next_sequence (lk_mcu l)"
    and "e = [] \<or> (\<exists>b. e = [b] \<and> answers (n0 + length (lk_accepted l)) b)"
  shows "\<exists>D A. link_inv n0 D A (l\<lparr>lk_mcu := m, lk_down := ds, lk_up := lk_up l @ e\<rparr>)"
proof -
  have "\<exists>A'. up_ok n0 A' (l\<lparr>lk_up := lk_up l @ e\<rparr>)"
    using assms(6)
  proof
    assume "e = []"
    then show ?thesis using assms(1) by (auto simp: link_inv_def up_ok_def intro!: exI [of _ A])
  next
    assume "\<exists>b. e = [b] \<and> answers (n0 + length (lk_accepted l)) b"
    then show ?thesis using assms(1)
      by (intro exI [of _ "A @ [n0 + length (lk_accepted l)]"])
        (auto simp: link_inv_def up_ok_def sorted_append list_all2_appendI)
  qed
  then show ?thesis
    using assms(1-5) by (auto simp: link_inv_def host_side_def mcu_side_def down_ok_def up_ok_def)
qed

lemma down_tail:
  assumes "down_ok n0 D l" "lk_down l = xs @ b # ys"
  obtains D1 d D2 where "D = D1 @ d # D2" "length D1 = length xs" "b = block_at n0 (lk_built l) d"
    "down_ok n0 (D1 @ D2) (l\<lparr>lk_down := xs @ ys\<rparr>)"
proof -
  have m: "map (block_at n0 (lk_built l)) D = xs @ b # ys" using assms by (simp add: down_ok_def)
  then obtain D1 d D2 where "D = D1 @ d # D2" "xs = map (block_at n0 (lk_built l)) D1"
    "b = block_at n0 (lk_built l) d" "ys = map (block_at n0 (lk_built l)) D2"
    by (auto simp: map_eq_append_conv map_eq_Cons_conv)
  then show thesis using assms(1) that by (auto simp: down_ok_def sorted_wrt_append)
qed

lemma sync_valid: "sync_state m AND CF_NEED_SYNC = 0 \<Longrightarrow> (sync_state m AND NOT CF_NEED_VALID) AND CF_NEED_SYNC = 0"
  by (metis and.assoc and.commute and_zero_eq)

lemma link_mcu_find:
  assumes "link_inv n0 D A l" "lk_down l = b # ds" "command_find_block console_sendf b (length b) (lk_mcu l) = Ok (ret, n) m1"
  shows "0 < ret \<Longrightarrow> \<exists>D' A'. link_inv n0 D' A' (l\<lparr>lk_mcu := m1, lk_down := ds, lk_accepted := lk_accepted l @ [block_payload b]\<rparr>)"
    "ret \<le> 0 \<Longrightarrow> \<exists>D' A'. link_inv n0 D' A' (l\<lparr>lk_mcu := m1, lk_down := ds, lk_up := lk_up l @ emitted (lk_mcu l) m1\<rparr>)"
proof -
  let ?E = "n0 + length (lk_accepted l)"
  have inv: "host_side n0 l" "mcu_side n0 l" "down_ok n0 D l" "up_ok n0 A l" using assms(1) by (simp_all add: link_inv_def)
  note ord = link_inv_order [OF assms(1)]
  obtain D1 d D2 where D: "D = D1 @ d # D2" "b = block_at n0 (lk_built l) d" "down_ok n0 (D1 @ D2) (l\<lparr>lk_down := [] @ ds\<rparr>)"
    and D1: "D1 = []"
    using assms(2) by (rule_tac down_tail [OF inv(3), of "[]" b ds]) auto
  have d: "n0 \<le> d" "d < n0 + length (lk_built l)" "?E \<le> d + 12" "\<forall>y\<in>set D2. d < y + 12"
    using inv(3) D(1) D1 by (auto simp: down_ok_def)
  note b = block_at_valid [OF inv(1) d(1,2), folded D(2)]
  have m: "tx_ok (lk_mcu l) \<and> \<not> in_sendf (lk_mcu l)" "sync_state (lk_mcu l) AND CF_NEED_SYNC = 0" "next_sequence (lk_mcu l) = seq_byte ?E"
    using inv(2) by (simp_all add: mcu_side_def)
  note f = mcu_finds [OF m(2,3) b(1) assms(3)]
  have same: "d = ?E" if "b ! 1 = seq_byte ?E" using that b(2) d ord by (intro seq_byte_near) simp_all
  show "\<exists>D' A'. link_inv n0 D' A' (l\<lparr>lk_mcu := m1, lk_down := ds, lk_accepted := lk_accepted l @ [block_payload b]\<rparr>)"
    if "0 < ret"
  proof -
    have e: "b ! 1 = seq_byte ?E" "m1 = (lk_mcu l)\<lparr>sync_state := sync_state (lk_mcu l) AND NOT CF_NEED_VALID,
        next_sequence := seq_byte (Suc ?E)\<rparr>" using f that by (auto split: if_splits)
    let ?l = "l\<lparr>lk_mcu := m1, lk_down := ds, lk_accepted := lk_accepted l @ [block_payload b]\<rparr>"
    have "block_payload b = lk_built l ! length (lk_accepted l)" using b(3) same [OF e(1)] by simp
    then have "mcu_side n0 ?l"
      using inv(2) e(2) d(2) same [OF e(1)] sync_valid [OF m(2)]
      by (simp add: mcu_side_def tx_ok_def take_Suc_conv_app_nth)
    moreover have "down_ok n0 D2 ?l" using D(3) D1 d(4) same [OF e(1)] by (fastforce simp: down_ok_def)
    moreover have "up_ok n0 A ?l" using inv(4) by (auto simp: up_ok_def sorted_append)
    moreover have "host_side n0 ?l" using inv(1) by (simp add: host_side_def)
    ultimately show ?thesis unfolding link_inv_def by blast
  qed
  show "\<exists>D' A'. link_inv n0 D' A' (l\<lparr>lk_mcu := m1, lk_down := ds, lk_up := lk_up l @ emitted (lk_mcu l) m1\<rparr>)"
    if "ret \<le> 0"
  proof -
    let ?m = "(lk_mcu l)\<lparr>sync_state := sync_state (lk_mcu l) AND NOT CF_NEED_VALID\<rparr>"
    have c: "command_sendf console_sendf encode_acknak [] ?m = Ok () m1" using f that by (auto split: if_splits)
    have "tx_ok ?m" "\<not> in_sendf ?m" "next_sequence ?m = seq_byte ?E" "sendable encode_acknak []"
      using m by (simp_all add: tx_ok_def sendable_def)
    note s = mcu_sends [OF this c]
    have "emitted ?m m1 = emitted (lk_mcu l) m1" by (simp add: emitted_def tx_pending_def)
    with s D(3) D1 sync_valid [OF m(2)] m(3) show ?thesis
      by (intro link_mcu_keeps [OF assms(1), of D2]) simp_all
  qed
qed

lemma link_mcu_respond:
  assumes "link_inv n0 D A l" "sendable ce args" "command_sendf console_sendf ce args (lk_mcu l) = Ok () m"
  shows "\<exists>D A. link_inv n0 D A (l\<lparr>lk_mcu := m, lk_up := lk_up l @ emitted (lk_mcu l) m\<rparr>)"
proof -
  have m: "mcu_side n0 l" "down_ok n0 D (l\<lparr>lk_down := lk_down l\<rparr>)" using assms(1) by (simp_all add: link_inv_def)
  then have "tx_ok (lk_mcu l)" "\<not> in_sendf (lk_mcu l)" "next_sequence (lk_mcu l) = seq_byte (n0 + length (lk_accepted l))"
    by (simp_all add: mcu_side_def)
  note s = mcu_sends [OF this assms(2,3)]
  have "\<exists>D A. link_inv n0 D A (l\<lparr>lk_mcu := m, lk_down := lk_down l, lk_up := lk_up l @ emitted (lk_mcu l) m\<rparr>)"
    using s m(1) by (intro link_mcu_keeps [OF assms(1) m(2)]) (simp_all add: mcu_side_def)
  then show ?thesis by simp
qed

lemma link_mcu_local:
  assumes "link_inv n0 D A l" "tx_ok m" "in_sendf m = in_sendf (lk_mcu l)" "sync_state m = sync_state (lk_mcu l)"
    and "next_sequence m = next_sequence (lk_mcu l)"
  shows "link_inv n0 D A (l\<lparr>lk_mcu := m\<rparr>)"
  using assms by (simp add: link_inv_def host_side_def mcu_side_def down_ok_def up_ok_def)

section \<open>Reachable links\<close>

lemma link_init_inv: "link_init n0 l \<Longrightarrow> link_inv n0 [] [] l"
  by (auto simp: link_init_def link_inv_def host_side_def mcu_side_def down_ok_def up_ok_def sq_inv_def window_inv_def)

lemma link_step_inv:
  assumes "link_step l l'" "link_inv n0 D A l"
  shows "\<exists>D A. link_inv n0 D A l'"
  using assms(1)
proof cases
  case (host_build t w h outs)
  then show ?thesis using link_host_build [OF assms(2)] by blast
next
  case (host_repeat t w h)
  then show ?thesis using link_host_repeat [OF assms(2)] by blast
next
  case (host_read b us t h)
  then show ?thesis using link_host_read [OF assms(2)] by blast
next
  case (host_queue ms cq)
  then show ?thesis using link_host_queue [OF assms(2)] by blast
next
  case (mcu_accept b ds ret n m1)
  then show ?thesis using link_mcu_find(1) [OF assms(2)] by blast
next
  case (mcu_refuse b ds ret n m1)
  then show ?thesis using link_mcu_find(2) [OF assms(2)] by blast
next
  case (mcu_respond ce args m)
  then show ?thesis using link_mcu_respond [OF assms(2)] by blast
next
  case (mcu_transmit x m)
  have "mcu_side n0 l" using assms(2) by (simp add: link_inv_def)
  then have "tx_ok m" "in_sendf m = in_sendf (lk_mcu l)" "sync_state m = sync_state (lk_mcu l)"
    "next_sequence m = next_sequence (lk_mcu l)"
    using mcu_transmit(2) by (auto simp: mcu_side_def serial_get_tx_byte_def tx_ok_def split: if_splits)
  then show ?thesis using link_mcu_local [OF assms(2)] mcu_transmit(1) by blast
next
  case (mcu_run m)
  have "mcu_side n0 l" using assms(2) by (simp add: link_inv_def)
  then have "tx_ok m" using mcu_run(2) by (simp add: mcu_side_def console_part_def tx_ok_def)
  then show ?thesis using link_mcu_local [OF assms(2), of m] mcu_run by (auto simp: console_part_def)
next
  case (lose_down xs b ys)
  have "down_ok n0 D l" using assms(2) by (simp add: link_inv_def)
  from down_tail [OF this lose_down(2)] obtain D' where "down_ok n0 D' (l\<lparr>lk_down := xs @ ys\<rparr>)" by blast
  then show ?thesis using assms(2) lose_down(1)
    by (intro exI [of _ D'] exI [of _ A]) (simp add: link_inv_def host_side_def mcu_side_def up_ok_def)
next
  case (lose_up xs b ys)
  have "list_all2 answers A (xs @ b # ys)" using assms(2) lose_up(2) by (simp add: link_inv_def up_ok_def)
  then obtain A1 a A2 where "A = A1 @ a # A2" "list_all2 answers A1 xs" "list_all2 answers A2 ys"
    by (auto simp: list_all2_append2 list_all2_Cons2)
  then have "up_ok n0 (A1 @ A2) (l\<lparr>lk_up := xs @ ys\<rparr>)"
    using assms(2) by (auto simp: link_inv_def up_ok_def sorted_append intro: list_all2_appendI)
  then show ?thesis using assms(2) lose_up(1)
    by (intro exI [of _ D] exI [of _ "A1 @ A2"]) (simp add: link_inv_def host_side_def mcu_side_def down_ok_def)
qed

lemma link_reach_inv: "link_step\<^sup>*\<^sup>* l l' \<Longrightarrow> link_inv n0 D A l \<Longrightarrow> \<exists>D A. link_inv n0 D A l'"
  by (induction arbitrary: D A rule: rtranclp_induct) (blast, metis link_step_inv)

section \<open>A link that stops losing blocks\<close>

text \<open>The transmit buffer drains, and an acknowledgement then finds room.\<close>

lemma mcu_drains:
  assumes "tx_ok (lk_mcu l)"
  obtains m where "link_step\<^sup>*\<^sup>* l (l\<lparr>lk_mcu := m\<rparr>)" "tx_ok m" "tx_pending m = []"
    "in_sendf m = in_sendf (lk_mcu l)" "sync_state m = sync_state (lk_mcu l)" "next_sequence m = next_sequence (lk_mcu l)"
  using assms
proof (induction "transmit_max (lk_mcu l) - transmit_pos (lk_mcu l)" arbitrary: l thesis)
  case 0
  then have "l = l\<lparr>lk_mcu := lk_mcu l\<rparr>" "tx_pending (lk_mcu l) = []" by (simp_all add: tx_pending_def)
  with 0(2) [of "lk_mcu l"] 0(3) show ?case by simp
next
  case (Suc k)
  define m where "m = (lk_mcu l)\<lparr>transmit_pos := Suc (transmit_pos (lk_mcu l))\<rparr>"
  have "serial_get_tx_byte (lk_mcu l) = Ok (Some (transmit_buf (lk_mcu l) ! transmit_pos (lk_mcu l))) m"
    using Suc(2,4) by (auto simp: serial_get_tx_byte_def tx_ok_def m_def)
  then have st: "link_step l (l\<lparr>lk_mcu := m\<rparr>)" by (rule mcu_transmit)
  have "k = transmit_max (lk_mcu (l\<lparr>lk_mcu := m\<rparr>)) - transmit_pos (lk_mcu (l\<lparr>lk_mcu := m\<rparr>))"
    "tx_ok (lk_mcu (l\<lparr>lk_mcu := m\<rparr>))" using Suc(2,4) by (auto simp: m_def tx_ok_def)
  then obtain m' where r: "link_step\<^sup>*\<^sup>* (l\<lparr>lk_mcu := m\<rparr>) (l\<lparr>lk_mcu := m, lk_mcu := m'\<rparr>)" "tx_ok m'" "tx_pending m' = []"
    "in_sendf m' = in_sendf m" "sync_state m' = sync_state m" "next_sequence m' = next_sequence m"
    by (rule_tac Suc(1) [of "l\<lparr>lk_mcu := m\<rparr>"]) simp_all
  then show ?case using converse_rtranclp_into_rtranclp [OF st r(1)]
    by (intro Suc(3) [of m']) (simp_all add: m_def)
qed

lemma console_ack_emits:
  assumes t: "tx_ok s" "tx_pending s = []"
  obtains s' out where "console_sendf encode_acknak [] s = Ok () s'" "tx_pending s' = out" "out \<noteq> []"
proof -
  have z: "unat (ce_max_size encode_acknak) = 5" by (simp add: encode_acknak_def)
  obtain s1 where r: "sendf_make_room encode_acknak s = (Some (transmit_max s1), s1)" "tx_ok s1"
    "transmit_max s1 + 5 \<le> 96" "tx_pending s1 = []"
    using sendf_make_room_spec [OF t(1), of encode_acknak] t(2) by (auto simp: encode_acknak_def)
  let ?b = "drop (transmit_max s1) (transmit_buf s1)"
  have lb: "length ?b = 96 - transmit_max s1" using r(2) by (simp add: tx_ok_def)
  have e: "command_encodef (mach_avr s1) ?b (96 - transmit_max s1) encode_acknak [] = Encoded 5 ?b"
    by (simp add: command_encodef_def Let_def z)
  have "5 \<le> length ?b" using lb r(3) by linarith
  then obtain b2 where b2: "command_add_frame (next_sequence s1) ?b 5 = Some b2"
    using command_add_frame_block [of 5 ?b "next_sequence s1"] by blast
  then have l2: "length b2 = length ?b" by (auto simp: command_add_frame_def Let_def split: if_splits)
  let ?s = "s1\<lparr>transmit_buf := take (transmit_max s1) (transmit_buf s1) @ b2, transmit_max := transmit_max s1 + 5\<rparr>"
  have "console_sendf encode_acknak [] s = Ok () ?s"
    by (simp add: console_sendf_def r(1) command_encode_and_frame_def e b2 Let_def)
  moreover have "tx_pending ?s = [] @ take 5 b2"
    using tx_pending_append [OF r(2), of b2 5] r(3,4) l2 lb by simp
  moreover have "take 5 b2 \<noteq> []" using l2 \<open>5 \<le> length ?b\<close> by auto
  ultimately show thesis by (intro that [of ?s "take 5 b2"]) simp_all
qed

lemma mcu_ack:
  assumes "tx_ok m" "\<not> in_sendf m" "tx_pending m = []"
  obtains m' where "command_sendf console_sendf encode_acknak [] m = Ok () m'" "emitted m m' \<noteq> []"
proof -
  have "tx_ok (m\<lparr>in_sendf := True\<rparr>)" "tx_pending (m\<lparr>in_sendf := True\<rparr>) = []"
    using assms by (simp_all add: tx_ok_def tx_pending_def)
  then obtain s out where s: "console_sendf encode_acknak [] (m\<lparr>in_sendf := True\<rparr>) = Ok () s" "tx_pending s = out" "out \<noteq> []"
    by (rule console_ack_emits)
  have "tx_pending (s\<lparr>in_sendf := False\<rparr>) = tx_pending m @ out" using s(2) assms(3) by (simp add: tx_pending_def)
  from emitted_append [OF this] s assms(2) show thesis
    by (intro that [of "s\<lparr>in_sendf := False\<rparr>"]) (simp_all add: command_sendf_def)
qed

text \<open>The micro-controller handles the first block of those the host repeated.\<close>

definition repeating :: "nat \<Rightarrow> nat \<Rightarrow> link \<Rightarrow> bool" where
  "repeating n0 x l \<longleftrightarrow>
     (\<exists>D A. link_inv n0 D A l) \<and> n0 \<le> x \<and> x \<le> n0 + length (lk_accepted l) \<and>
     n0 + length (lk_built l) \<le> x + MAX_PENDING_BLOCKS \<and>
     lk_down l = map (block_at n0 (lk_built l)) [x..<n0 + length (lk_built l)]"

lemma mcu_find_total:
  fixes m :: serial
  assumes "tx_ok m" "\<not> in_sendf m" "tx_pending m = []" "sync_state m AND CF_NEED_SYNC = 0" "next_sequence m = seq_byte n"
    and "valid_block b"
  obtains ret k m' where "command_find_block console_sendf b (length b) m = Ok (ret, k) m'"
    "0 < ret \<longleftrightarrow> b ! 1 = seq_byte n"
proof -
  let ?m = "m\<lparr>sync_state := sync_state m AND NOT CF_NEED_VALID\<rparr>"
  have r: "tx_ok ?m" "\<not> in_sendf ?m" "tx_pending ?m = []" using assms by (simp_all add: tx_ok_def tx_pending_def)
  obtain m1 where a: "command_sendf console_sendf encode_acknak [] ?m = Ok () m1" "emitted ?m m1 \<noteq> []"
    by (rule mcu_ack [OF r])
  have k: "find_block_nak console_sendf k ?m = Ok (- 1, k) m1" for k unfolding find_block_nak_def a(1) by simp
  have "\<exists>n\<le>length b. valid_block (take n b)" using assms(6) by (intro exI [of _ "length b"]) simp
  then have "\<exists>ret k m'. command_find_block console_sendf b (length b) m = Ok (ret, k) m'"
    unfolding command_find_block_cases [OF assms(4) order_refl] Let_def by (simp add: k [simplified])
  then obtain ret k m' where f: "command_find_block console_sendf b (length b) m = Ok (ret, k) m'" by blast
  with mcu_finds [OF assms(4-6) f] that show thesis by (auto split: if_splits)
qed

lemma repeating_step:
  assumes "repeating n0 x l" "x < n0 + length (lk_built l)"
  obtains l' where "link_step\<^sup>*\<^sup>* l l'" "repeating n0 (Suc x) l'" "lk_host l' = lk_host l" "lk_built l' = lk_built l"
proof -
  let ?E = "n0 + length (lk_accepted l)" and ?b = "block_at n0 (lk_built l) x"
  let ?ds = "map (block_at n0 (lk_built l)) [Suc x..<n0 + length (lk_built l)]"
  obtain D A where inv: "link_inv n0 D A l" using assms(1) unfolding repeating_def by blast
  have x: "n0 \<le> x" "x \<le> ?E" "n0 + length (lk_built l) \<le> x + 12" "lk_down l = ?b # ?ds"
    using assms by (simp_all add: repeating_def upt_conv_Cons)
  have m: "host_side n0 l" "tx_ok (lk_mcu l)" "\<not> in_sendf (lk_mcu l)" "sync_state (lk_mcu l) AND CF_NEED_SYNC = 0"
    "next_sequence (lk_mcu l) = seq_byte ?E" using inv by (simp_all add: link_inv_def mcu_side_def)
  note b = block_at_valid [OF m(1) x(1) assms(2)]
  obtain m1 where d: "link_step\<^sup>*\<^sup>* l (l\<lparr>lk_mcu := m1\<rparr>)" "tx_ok m1" "tx_pending m1 = []" "in_sendf m1 = in_sendf (lk_mcu l)"
    "sync_state m1 = sync_state (lk_mcu l)" "next_sequence m1 = next_sequence (lk_mcu l)"
    by (rule mcu_drains [OF m(2)])
  obtain ret k m2 where f: "command_find_block console_sendf ?b (length ?b) m1 = Ok (ret, k) m2" "0 < ret \<longleftrightarrow> ?b ! 1 = seq_byte ?E"
    by (rule mcu_find_total [OF d(2) _ d(3) _ _ b(1), of ?E]) (use m d in simp_all)
  have eq: "?b ! 1 = seq_byte ?E \<longleftrightarrow> x = ?E"
    using b(2) seq_byte_near [of x ?E] x link_inv_order(2) [OF inv] by auto
  define l' where "l' = (if 0 < ret then l\<lparr>lk_mcu := m2, lk_down := ?ds, lk_accepted := lk_accepted l @ [block_payload ?b]\<rparr>
      else l\<lparr>lk_mcu := m2, lk_down := ?ds, lk_up := lk_up l @ emitted m1 m2\<rparr>)"
  have "link_step (l\<lparr>lk_mcu := m1\<rparr>) l'"
    using mcu_accept [of "l\<lparr>lk_mcu := m1\<rparr>", OF _ _ ] mcu_refuse [of "l\<lparr>lk_mcu := m1\<rparr>"] f(1) x(4)
    by (cases "0 < ret") (simp_all add: l'_def)
  then have st: "link_step\<^sup>*\<^sup>* l l'" using d(1) by simp
  have l': "lk_host l' = lk_host l" "lk_built l' = lk_built l" "lk_down l' = ?ds"
    "length (lk_accepted l') = length (lk_accepted l) + (if x = ?E then 1 else 0)"
    using f(2) eq by (simp_all add: l'_def)
  have "repeating n0 (Suc x) l'"
    unfolding repeating_def l' using link_reach_inv [OF st inv] x(1-3) by auto
  with st l'(1,2) show thesis by (rule_tac that)
qed

lemma repeating_done:
  assumes "repeating n0 x l" "n0 + length (lk_built l) = x + k"
  obtains l' where "link_step\<^sup>*\<^sup>* l l'" "repeating n0 (n0 + length (lk_built l)) l'" "lk_host l' = lk_host l" "lk_built l' = lk_built l"
  using assms
proof (induction k arbitrary: l x thesis)
  case 0
  then show ?case using 0(1) [of l] by simp
next
  case (Suc k)
  have "x < n0 + length (lk_built l)" using Suc(4) by simp
  then obtain l1 where l1: "link_step\<^sup>*\<^sup>* l l1" "repeating n0 (Suc x) l1" "lk_host l1 = lk_host l" "lk_built l1 = lk_built l"
    by (rule repeating_step [OF Suc(3)])
  obtain l' where "link_step\<^sup>*\<^sup>* l1 l'" "repeating n0 (n0 + length (lk_built l1)) l'" "lk_host l' = lk_host l1" "lk_built l' = lk_built l1"
    by (rule Suc(1) [OF _ l1(2)]) (use Suc(4) l1 in simp_all)
  then show ?case using Suc(2) [of l'] l1 rtranclp_trans [OF l1(1)] by simp
qed

text \<open>Blocks on their way may all get lost.\<close>

lemma lose_all_down: "link_step\<^sup>*\<^sup>* l (l\<lparr>lk_down := []\<rparr>)"
proof (induction "lk_down l" arbitrary: l)
  case Nil
  then have "l\<lparr>lk_down := []\<rparr> = l" by simp
  then show ?case by simp
next
  case (Cons b ds)
  have "link_step l (l\<lparr>lk_down := [] @ ds\<rparr>)" by (rule lose_down) (simp add: Cons(2) [symmetric])
  then show ?case using Cons(1) [of "l\<lparr>lk_down := ds\<rparr>"] by (simp add: converse_rtranclp_into_rtranclp)
qed

lemma lose_up_but: "lk_up l = us @ vs \<Longrightarrow> link_step\<^sup>*\<^sup>* l (l\<lparr>lk_up := vs\<rparr>)"
proof (induction us arbitrary: l)
  case Nil
  then have "l\<lparr>lk_up := vs\<rparr> = l" by simp
  then show ?case by simp
next
  case (Cons b us)
  have "link_step l (l\<lparr>lk_up := [] @ (us @ vs)\<rparr>)" by (rule lose_up) (simp add: Cons(2))
  then show ?case using Cons(1) [of "l\<lparr>lk_up := us @ vs\<rparr>"] by (simp add: converse_rtranclp_into_rtranclp)
qed

text \<open>When everything was accepted, one acknowledgement empties the window.\<close>

lemma link_acks:
  assumes "link_inv n0 D A l" "length (lk_accepted l) = length (lk_built l)" "n0 + length (lk_built l) < 2 ^ 63"
  obtains l' where "link_step\<^sup>*\<^sup>* l l'" "lk_built l' = lk_built l" "lk_accepted l' = lk_accepted l"
    "sent_queue (lk_host l') = []"
proof -
  let ?S = "n0 + length (lk_built l)"
  have m: "tx_ok (lk_mcu l)" "\<not> in_sendf (lk_mcu l)" "next_sequence (lk_mcu l) = seq_byte ?S"
    using assms(1,2) by (simp_all add: link_inv_def mcu_side_def)
  obtain m1 where d: "link_step\<^sup>*\<^sup>* l (l\<lparr>lk_mcu := m1\<rparr>)" "tx_ok m1" "tx_pending m1 = []" "in_sendf m1 = in_sendf (lk_mcu l)"
    "sync_state m1 = sync_state (lk_mcu l)" "next_sequence m1 = next_sequence (lk_mcu l)"
    by (rule mcu_drains [OF m(1)])
  have n: "\<not> in_sendf m1" "next_sequence m1 = seq_byte ?S" using d m by simp_all
  obtain m2 where a: "command_sendf console_sendf encode_acknak [] m1 = Ok () m2" "emitted m1 m2 \<noteq> []"
    by (rule mcu_ack [OF d(2) n(1) d(3)])
  have sd: "sendable encode_acknak []" by (simp add: sendable_def)
  obtain b where b: "emitted m1 m2 = [b]" "answers ?S b" using mcu_sends(5) [OF d(2) n sd a(1)] a(2) by auto
  define l1 where "l1 = l\<lparr>lk_mcu := m2, lk_up := lk_up l @ [b]\<rparr>"
  define l2 where "l2 = l1\<lparr>lk_up := [b]\<rparr>"
  have "link_step (l\<lparr>lk_mcu := m1\<rparr>) l1" using mcu_respond [OF sd, of "l\<lparr>lk_mcu := m1\<rparr>" m2] a(1) b(1) by (simp add: l1_def)
  moreover have "link_step\<^sup>*\<^sup>* l1 l2" unfolding l2_def by (rule lose_up_but [of _ "lk_up l"]) (simp add: l1_def)
  ultimately have s2: "link_step\<^sup>*\<^sup>* l l2" using d(1) by (meson rtranclp.rtrancl_into_rtrancl rtranclp_trans)
  obtain D2 A2 where i2: "link_inv n0 D2 A2 l2" using link_reach_inv [OF s2 assms(1)] by blast
  have l2: "lk_host l2 = lk_host l" "lk_built l2 = lk_built l" "lk_accepted l2 = lk_accepted l" "lk_up l2 = [b]"
    by (simp_all add: l2_def l1_def)
  have h: "sq_inv (lk_host l2)" "input_pos (lk_host l2) = 0" "need_sync (lk_host l2) = 0"
    "unat (send_seq (lk_host l2)) = ?S" "unat (receive_seq (lk_host l2)) \<le> ?S"
    using i2 link_inv_order(1) [OF i2] l2 assms(2) by (simp_all add: link_inv_def host_side_def)
  have s63: "unat (send_seq (lk_host l2)) < 2 ^ 63" using assms(3) h(4) by simp
  have lb: "length b \<le> 64" using b(2) by (simp add: answers_def valid_block_def)
  obtain h' where r: "input_event (Read_bytes b) 0 (lk_host l2) = Ok () h'"
    using h(1,2) s63 lb by (rule_tac input_event_spec [of "lk_host l2" "Read_bytes b" 0]) (simp_all add: sq_inv_def)
  have "unat (receive_seq h') = ?S \<and> send_seq h' = send_seq (lk_host l2) \<and> sq_inv h'"
    using host_reads [OF h(1) s63 h(2,3) b(2) h(5) _ r] h(4) by simp
  moreover have "unat (send_seq h') = unat (receive_seq h') + length (sent_queue h')" if "sq_inv h'"
    using that by (simp add: sq_inv_def window_inv_def)
  ultimately have "sent_queue h' = []" using h(4) by simp
  moreover have "link_step\<^sup>*\<^sup>* l (l2\<lparr>lk_host := h', lk_up := []\<rparr>)"
    using s2 host_read [OF l2(4) s63 r] by (rule rtranclp.rtrancl_into_rtrancl)
  ultimately show thesis using l2 by (intro that [of "l2\<lparr>lk_host := h', lk_up := []\<rparr>"]) simp_all
qed

lemma link_recovers:
  assumes "link_inv n0 D A l" "n0 + length (lk_built l) < 2 ^ 63"
  obtains l' where "link_step\<^sup>*\<^sup>* l l'" "lk_built l' = lk_built l" "lk_accepted l' = lk_built l" "sent_queue (lk_host l') = []"
proof -
  let ?S = "n0 + length (lk_built l)"
  define l1 where "l1 = l\<lparr>lk_down := []\<rparr>"
  have s1: "link_step\<^sup>*\<^sup>* l l1" unfolding l1_def by (rule lose_all_down)
  obtain D1 A1 where i1: "link_inv n0 D1 A1 l1" using link_reach_inv [OF s1 assms(1)] by blast
  then have h1: "host_side n0 l1" by (simp add: link_inv_def)
  then have q: "window_inv (lk_host l1)" "queues_inv (lk_host l1)" by (simp_all add: host_side_def sq_inv_def)
  obtain w h where r: "retransmit_event 0 (lk_host l1) = Ok w h" by (rule retransmit_event_spec [OF q, of 0])
  define l2 where "l2 = l1\<lparr>lk_host := h, lk_down := lk_down l1 @ map qm_bytes (sent_queue (lk_host l1))\<rparr>"
  have s2: "link_step l1 l2" unfolding l2_def by (rule host_repeat [OF r])
  have "repeating n0 (unat (receive_seq (lk_host l1))) l2"
    using link_step_inv [OF s2 i1] unacked_blocks [OF h1] link_inv_order [OF i1] h1
    by (auto simp: repeating_def l2_def l1_def host_side_def)
  moreover have "n0 + length (lk_built l2) = unat (receive_seq (lk_host l1)) + length (sent_queue (lk_host l1))"
    using link_inv_order(3) [OF i1] by (simp add: l2_def)
  ultimately obtain l3 where s3: "link_step\<^sup>*\<^sup>* l2 l3" "repeating n0 (n0 + length (lk_built l2)) l3"
    "lk_host l3 = lk_host l2" "lk_built l3 = lk_built l2" by (rule repeating_done)
  have b: "lk_built l3 = lk_built l" using s3(4) by (simp add: l2_def l1_def)
  obtain D3 A3 where i3: "link_inv n0 D3 A3 l3" using s3(2) unfolding repeating_def by blast
  have "length (lk_accepted l3) = length (lk_built l3)"
    using s3(2,4) link_inv_order(2) [OF i3] by (simp add: repeating_def)
  moreover have "lk_accepted l3 = take (length (lk_accepted l3)) (lk_built l3)"
    using i3 by (simp add: link_inv_def mcu_side_def)
  ultimately have acc: "lk_accepted l3 = lk_built l" using b by simp
  obtain l' where "link_step\<^sup>*\<^sup>* l3 l'" "lk_built l' = lk_built l3" "lk_accepted l' = lk_accepted l3"
    "sent_queue (lk_host l') = []"
    using link_acks [OF i3] acc b assms(2) by metis
  moreover have "link_step\<^sup>*\<^sup>* l l3" using s1 s2 s3(1) by (meson rtranclp.rtrancl_into_rtrancl rtranclp_trans)
  ultimately show thesis using that acc b by (metis rtranclp_trans)
qed

section \<open>Sending what is due\<close>

text \<open>When \<^verbatim>\<open>check_send_command\<close> asks for a block now, the callback builds at least one.\<close>

lemma command_event_builds:
  assumes "queues_inv sq" "window_inv sq" "unat (receive_seq sq) < 2 ^ 62" "0 < t"
    and "check_send_command 0 t sq = Ok PR_NOW sq1"
  obtains w sq' out outs where "command_event t sq = Ok w sq'" "sent_queue sq' = sent_queue sq @ out # outs"
proof -
  let ?buf = "replicate 768 0 :: u8 list"
  have s1: "sent_blocks sq [] sq1" by (rule check_send_blocks [OF assms(1,2,5)])
  have "\<not> window_closed sq1"
    using check_send_closed [OF _ assms(5)] assms(4) check_send_stable [OF window_closed_stable assms(5)] by auto
  then have op: "length (sent_queue sq1) < 12" "unat (receive_seq sq1) < 2 ^ 62"
    using open_window [of sq1] s1 assms(3) by (simp_all add: sent_blocks_def)
  have q1: "queues_inv sq1" using s1 by (simp add: sent_blocks_def)
  obtain buf1 len sq2 ms out where b: "build_and_send_command ?buf 0 t sq1 = Ok (buf1, len) sq2"
    "built sq1 ?buf 0 ms out buf1 len sq2"
    by (rule build_and_send_spec [OF q1, of 0 ?buf t]) simp_all
  have s2: "sent_queue sq2 = sent_queue sq @ [out]" "queues_inv sq2" "window_inv sq2" "receive_seq sq2 = receive_seq sq"
    "len \<le> 64" "length buf1 = 768"
    using b(2) built_queues [OF b(2)] built_window [OF b(2) _ op] s1 by (auto simp: sent_blocks_def built_def is_block_def)
  have e: "command_loop ?buf 0 t sq = command_loop buf1 len t sq2"
    using s2(5) by (subst command_loop.simps) (simp add: assms(5) b(1))
  obtain buf' buflen' w' sq' outs where r: "command_loop buf1 len t sq2 = Ok (buf', buflen', w') sq'" "sent_blocks sq2 outs sq'"
    by (rule command_loop_spec [of sq2 t buf1 len]) (use s2 assms(3,4) in simp_all)
  have sent: "sent_queue sq' = sent_queue sq @ out # outs" using r(2) s2(1) by (simp add: sent_blocks_def)
  obtain w h where "command_event t sq = Ok w h" "sent_queue h = sent_queue sq'"
    using e r(1) by (cases "buflen' = 0") (simp_all add: command_event_def Let_def)
  then show thesis using that sent by metis
qed

section \<open>Properties\<close>

definition demo_link :: link where
  "demo_link = \<lparr>lk_host = demo_sq\<lparr>receive_seq := 2, send_seq := 2\<rparr>, lk_mcu = demo_serial\<lparr>next_sequence := 0x12\<rparr>,
     lk_down = [], lk_up = [], lk_built = [], lk_accepted = []\<rparr>"

lemma demo_link_init: "link_init 2 demo_link"
proof -
  have "sq_inv (demo_sq\<lparr>receive_seq := 2, send_seq := 2\<rparr>)"
    using demo_sq_inv
    by (auto simp: sq_inv_def window_inv_def queues_inv_def release_ok_def input_inv_def demo_sq_def serialqueue_alloc_def)
  then show ?thesis
    by (simp add: link_init_def demo_link_def demo_sq_def serialqueue_alloc_def tx_ok_def demo_serial_simps seq_byte_def)
qed

lemma demo_link_due:
  "\<exists>sq1. check_send_command 0 1 (serialqueue_send_batch 0 [demo_msg] (lk_host demo_link)) = Ok PR_NOW sq1"
  by (simp add: demo_link_def demo_sq_def serialqueue_alloc_def demo_msg_def message_alloc_def limit_min_clock_def
      serialqueue_send_batch_def kick_bg_thread_def check_send_command_def check_upcoming_queues_def transmit_lock_def
      window_closed_def clock_from_time_def trunc_real_def calculate_bittime_def Let_def)

lemma demo_link_built: obtains l where "link_step\<^sup>*\<^sup>* demo_link l" "lk_built l \<noteq> []" "length (lk_built l) \<le> 12"
proof -
  define l1 where "l1 = demo_link\<lparr>lk_host := serialqueue_send_batch 0 [demo_msg] (lk_host demo_link)\<rparr>"
  have st: "link_step demo_link l1" unfolding l1_def
    by (rule host_queue) (simp add: demo_msg_def message_alloc_def msg_ok_def)
  obtain D A where i: "link_inv 2 D A l1" using link_step_inv [OF st link_init_inv [OF demo_link_init]] by blast
  have b: "lk_built l1 = []" "receive_seq (lk_host l1) = 2" "sent_queue (lk_host l1) = []"
    using send_batch_stable [of receive_seq 0 "[demo_msg]"] send_batch_stable [of sent_queue 0 "[demo_msg]"]
    by (simp_all add: l1_def demo_link_def queue_stable_def demo_sq_def serialqueue_alloc_def)
  have q: "queues_inv (lk_host l1)" "window_inv (lk_host l1)" "unat (receive_seq (lk_host l1)) < 2 ^ 62" "(0 :: real) < 1"
    using i b(2) by (simp_all add: link_inv_def host_side_def sq_inv_def)
  obtain sq1 where c: "check_send_command 0 1 (lk_host l1) = Ok PR_NOW sq1"
    using demo_link_due by (auto simp: l1_def)
  obtain w h out outs where e: "command_event 1 (lk_host l1) = Ok w h" "sent_queue h = sent_queue (lk_host l1) @ out # outs"
    by (rule command_event_builds [OF q c])
  define l2 where "l2 = l1\<lparr>lk_host := h, lk_down := lk_down l1 @ map qm_bytes (out # outs),
      lk_built := lk_built l1 @ map qm_payload (out # outs)\<rparr>"
  have "link_step l1 l2" unfolding l2_def by (rule host_build [OF q(4,3) e(1)]) (simp add: e(2))
  then have s2: "link_step\<^sup>*\<^sup>* demo_link l2" using st by simp
  obtain D A where i2: "link_inv 2 D A l2" using link_reach_inv [OF s2 link_init_inv [OF demo_link_init]] by blast
  have "length (lk_built l2) \<le> 12" using link_inv_order(4) [OF i2] e(2) b by (simp add: l2_def)
  with s2 show thesis using that [of l2] by (simp add: l2_def)
qed

text \<open>
  C1: the serial link delivers. Whatever both ends do and however many blocks are lost on the way,
  the micro-controller accepts exactly the blocks the host built, each once and in order, up to
  some point; all that the host takes as acknowledged was accepted; and the host still holds the
  payloads of all others.
\<close>

theorem serial_link_exactly_once:
  assumes "link_init n0 l0" "link_step\<^sup>*\<^sup>* l0 l"
  shows "lk_accepted l = take (length (lk_accepted l)) (lk_built l) \<and>
     (\<exists>k\<le>length (lk_accepted l). unat (receive_seq (lk_host l)) = n0 + k \<and>
        map qm_payload (sent_queue (lk_host l)) = drop k (lk_built l))"
proof -
  obtain D A where i: "link_inv n0 D A l" using link_reach_inv [OF assms(2) link_init_inv [OF assms(1)]] by blast
  then have h: "n0 \<le> unat (receive_seq (lk_host l))"
    "map qm_payload (sent_queue (lk_host l)) = drop (unat (receive_seq (lk_host l)) - n0) (lk_built l)"
    "lk_accepted l = take (length (lk_accepted l)) (lk_built l)"
    by (simp_all add: link_inv_def host_side_def mcu_side_def)
  with link_inv_order(1) [OF i] show ?thesis
    by (intro conjI exI [of _ "unat (receive_seq (lk_host l)) - n0"]) simp_all
qed

theorem serial_link_exactly_once_witness:
  "\<exists>l. link_step\<^sup>*\<^sup>* demo_link l \<and> lk_built l \<noteq> [] \<and> lk_accepted l = take (length (lk_accepted l)) (lk_built l)"
proof -
  obtain l where "link_step\<^sup>*\<^sup>* demo_link l" "lk_built l \<noteq> []" by (rule demo_link_built)
  with serial_link_exactly_once [OF demo_link_init this(1)] show ?thesis by blast
qed



end
