(* ===== verification/Trapq.thy ===== *)
theory Trapq
  imports Complex_Main Prelude
begin

text \<open>
  The queue of trapezoidal moves of the host (\<^verbatim>\<open>src/klippy/chelper/trapq.c\<close>). The list \<^verbatim>\<open>moves\<close>
  holds a head sentinel, the moves in the order of their times and a tail sentinel; \<^verbatim>\<open>history\<close> holds
  the finished moves, the latest first. Doubles are real numbers.
\<close>

section \<open>Moves\<close>

record coord =
  cx :: real
  cy :: real
  cz :: real

record trap_move =
  print_time :: real
  move_t :: real
  start_v :: real
  half_accel :: real
  start_pos :: coord
  axes_r :: coord

record trapq =
  tq_moves :: "trap_move list"
  tq_history :: "trap_move list"

record pull_move =
  p_print_time :: real
  p_move_t :: real
  p_start_v :: real
  p_accel :: real
  p_start :: coord
  p_axes_r :: coord

definition coord0 :: coord where "coord0 = \<lparr>cx = 0, cy = 0, cz = 0\<rparr>"

definition trapq_move_alloc :: trap_move where
  "trapq_move_alloc =
     \<lparr>print_time = 0, move_t = 0, start_v = 0, half_accel = 0, start_pos = coord0, axes_r = coord0\<rparr>"

definition move_get_distance :: "trap_move \<Rightarrow> real \<Rightarrow> real" where
  "move_get_distance m move_time = (start_v m + half_accel m * move_time) * move_time"

definition move_get_coord :: "trap_move \<Rightarrow> real \<Rightarrow> coord" where
  "move_get_coord m move_time =
     (let move_dist = move_get_distance m move_time
      in \<lparr>cx = cx (start_pos m) + cx (axes_r m) * move_dist,
          cy = cy (start_pos m) + cy (axes_r m) * move_dist,
          cz = cz (start_pos m) + cz (axes_r m) * move_dist\<rparr>)"

abbreviation (input) NEVER_TIME :: real where "NEVER_TIME \<equiv> 99999999999999999 / 10"
abbreviation (input) MAX_NULL_MOVE :: real where "MAX_NULL_MOVE \<equiv> 1"

abbreviation move_end :: "trap_move \<Rightarrow> real" where
  "move_end m \<equiv> print_time m + move_t m"

section \<open>The operations\<close>

definition trapq_alloc :: trapq where
  "trapq_alloc =
     \<lparr>tq_moves = [trapq_move_alloc\<lparr>print_time := - 1\<rparr>,
        trapq_move_alloc\<lparr>print_time := NEVER_TIME, move_t := NEVER_TIME\<rparr>],
      tq_history = []\<rparr>"

text \<open>The moves that are freed, in their order.\<close>

definition trapq_free :: "trapq \<Rightarrow> trap_move list" where
  "trapq_free tq = tq_moves tq @ tq_history tq"

definition trapq_check_sentinels :: "trapq \<Rightarrow> trapq" where
  "trapq_check_sentinels tq =
     (let ms = tq_moves tq; n = length ms; tail_sentinel = last ms in
      if print_time tail_sentinel \<noteq> 0 then tq
      else if n = 2 then tq\<lparr>tq_moves := butlast ms @ [tail_sentinel\<lparr>print_time := NEVER_TIME\<rparr>]\<rparr>
      else let m = ms ! (n - 2) in
        tq\<lparr>tq_moves := butlast ms @
             [tail_sentinel\<lparr>print_time := move_end m, start_pos := move_get_coord m (move_t m)\<rparr>]\<rparr>)"

definition null_move :: "trap_move \<Rightarrow> trap_move \<Rightarrow> trap_move" where
  "null_move prev m =
     (let t = (if print_time prev \<le> 0 \<and> print_time m > MAX_NULL_MOVE then print_time m - MAX_NULL_MOVE
               else move_end prev)
      in trapq_move_alloc\<lparr>start_pos := start_pos m, print_time := t, move_t := print_time m - t\<rparr>)"

definition trapq_add_move :: "trap_move \<Rightarrow> trapq \<Rightarrow> trapq" where
  "trapq_add_move m tq =
     (let ms = tq_moves tq; tail_sentinel = last ms; prev = ms ! (length ms - 2) in
      tq\<lparr>tq_moves := butlast ms @ (if move_end prev < print_time m then [null_move prev m] else []) @
           [m, tail_sentinel\<lparr>print_time := 0\<rparr>]\<rparr>)"

text \<open>One of the three phases of \<^verbatim>\<open>trapq_append\<close>: the time and the position at its end are carried on.\<close>

definition append_phase ::
  "real \<Rightarrow> real \<Rightarrow> real \<Rightarrow> coord \<Rightarrow> real \<times> coord \<times> trapq \<Rightarrow> real \<times> coord \<times> trapq"
where
  "append_phase t v ha axes st =
     (let (pt, pos, tq) = st;
          m = trapq_move_alloc\<lparr>print_time := pt, move_t := t, start_v := v, half_accel := ha,
                start_pos := pos, axes_r := axes\<rparr>
      in if t \<noteq> 0 then (pt + t, move_get_coord m t, trapq_add_move m tq) else st)"

definition trapq_append ::
  "real \<Rightarrow> real \<Rightarrow> real \<Rightarrow> real \<Rightarrow> coord \<Rightarrow> coord \<Rightarrow> real \<Rightarrow> real \<Rightarrow> real \<Rightarrow> trapq \<Rightarrow> trapq"
where
  "trapq_append pt accel_t cruise_t decel_t pos axes sv cruise_v accel tq =
     (let st = append_phase accel_t sv (1 / 2 * accel) axes (pt, pos, tq);
          st = append_phase cruise_t cruise_v 0 axes st;
          st = append_phase decel_t cruise_v (- (1 / 2) * accel) axes st
      in snd (snd st))"

text \<open>The loop over the moves between the sentinels: what is left, the new history, and whether none is left.\<close>

fun finalize_loop :: "real \<Rightarrow> trap_move list \<Rightarrow> trap_move list \<Rightarrow> trap_move list \<times> trap_move list" where
  "finalize_loop pt [] hist = ([], hist)"
| "finalize_loop pt (m # ms) hist =
     (if move_end m > pt then (m # ms, hist)
      else finalize_loop pt ms (if start_v m \<noteq> 0 \<or> half_accel m \<noteq> 0 then m # hist else hist))"

text \<open>The loop that frees the oldest moves of the history, down to the latest one.\<close>

fun history_loop :: "real \<Rightarrow> trap_move list \<Rightarrow> trap_move list" where
  "history_loop t [] = []"
| "history_loop t (latest # ms) = latest # rev (dropWhile (\<lambda>m. \<not> move_end m > t) (rev ms))"

definition trapq_finalize_moves :: "real \<Rightarrow> real \<Rightarrow> trapq \<Rightarrow> trapq" where
  "trapq_finalize_moves pt clear_history_time tq =
     (let ms = tq_moves tq; head_sentinel = hd ms; tail_sentinel = last ms;
          (rest, hist) = finalize_loop pt (butlast (tl ms)) (tq_history tq);
          tail_sentinel = (if rest = [] then tail_sentinel\<lparr>print_time := NEVER_TIME\<rparr> else tail_sentinel)
      in tq\<lparr>tq_moves := head_sentinel # rest @ [tail_sentinel], tq_history := history_loop clear_history_time hist\<rparr>)"

fun prune_loop :: "real \<Rightarrow> trap_move list \<Rightarrow> trap_move list" where
  "prune_loop pt [] = []"
| "prune_loop pt (m # ms) =
     (if print_time m < pt
      then (if move_end m > pt then m\<lparr>move_t := pt - print_time m\<rparr> else m) # ms
      else prune_loop pt ms)"

definition trapq_set_position :: "real \<Rightarrow> coord \<Rightarrow> trapq \<Rightarrow> trapq" where
  "trapq_set_position pt pos tq =
     (let tq = trapq_finalize_moves NEVER_TIME 0 tq
      in tq\<lparr>tq_history := trapq_move_alloc\<lparr>print_time := pt, start_pos := pos\<rparr> # prune_loop pt (tq_history tq)\<rparr>)"

definition copy_pull_move :: "trap_move \<Rightarrow> pull_move" where
  "copy_pull_move m =
     \<lparr>p_print_time = print_time m, p_move_t = move_t m, p_start_v = start_v m, p_accel = 2 * half_accel m,
      p_start = start_pos m, p_axes_r = axes_r m\<rparr>"

text \<open>The two loops of \<^verbatim>\<open>trapq_extract_old\<close>; \<open>still\<close> says that a move without movement is skipped.\<close>

fun pull_loop :: "bool \<Rightarrow> nat \<Rightarrow> real \<Rightarrow> real \<Rightarrow> trap_move list \<Rightarrow> pull_move list \<Rightarrow> pull_move list" where
  "pull_loop still mx start_time end_time [] res = res"
| "pull_loop still mx start_time end_time (m # ms) res =
     (if start_time \<ge> move_end m \<or> length res \<ge> mx then res
      else if end_time \<le> print_time m \<or> still \<and> start_v m = 0 \<and> half_accel m = 0
      then pull_loop still mx start_time end_time ms res
      else pull_loop still mx start_time end_time ms (res @ [copy_pull_move m]))"

definition trapq_extract_old :: "nat \<Rightarrow> real \<Rightarrow> real \<Rightarrow> trapq \<Rightarrow> pull_move list" where
  "trapq_extract_old mx start_time end_time tq =
     pull_loop False mx start_time end_time (tq_history tq)
       (pull_loop True mx start_time end_time (rev (butlast (tq_moves tq))) [])"

section \<open>Well-formed queues\<close>

definition inner_moves :: "trapq \<Rightarrow> trap_move list" where
  "inner_moves tq = butlast (tl (tq_moves tq))"

fun contiguous :: "trap_move list \<Rightarrow> bool" where
  "contiguous (a # b # ms) \<longleftrightarrow> move_end a = print_time b \<and> contiguous (b # ms)"
| "contiguous ms \<longleftrightarrow> True"

definition queue_end :: "trapq \<Rightarrow> real" where
  "queue_end tq = (if inner_moves tq = [] then 0 else move_end (last (inner_moves tq)))"

definition is_still :: "trap_move \<Rightarrow> bool" where
  "is_still m \<longleftrightarrow> start_v m = 0 \<and> half_accel m = 0 \<and> axes_r m = coord0"

text \<open>The tail sentinel is up to date, or marked by the time 0.\<close>

definition tail_ok :: "trap_move list \<Rightarrow> trap_move \<Rightarrow> bool" where
  "tail_ok ms tail_sentinel \<longleftrightarrow>
     is_still tail_sentinel \<and> move_t tail_sentinel = NEVER_TIME \<and>
     (print_time tail_sentinel = 0 \<or>
      (if ms = [] then print_time tail_sentinel = NEVER_TIME
       else print_time tail_sentinel = move_end (last ms) \<and>
            start_pos tail_sentinel = move_get_coord (last ms) (move_t (last ms))))"

definition moves_ok :: "trap_move list \<Rightarrow> bool" where
  "moves_ok ms \<longleftrightarrow> contiguous ms \<and> (\<forall>m\<in>set ms. 0 < move_t m) \<and> (ms \<noteq> [] \<longrightarrow> 0 < print_time (last ms))"

definition trapq_wf :: "trapq \<Rightarrow> bool" where
  "trapq_wf tq \<longleftrightarrow>
     2 \<le> length (tq_moves tq) \<and> hd (tq_moves tq) = trapq_move_alloc\<lparr>print_time := - 1\<rparr> \<and>
     moves_ok (inner_moves tq) \<and> tail_ok (inner_moves tq) (last (tq_moves tq))"

lemma tq_moves_split:
  assumes "2 \<le> length (tq_moves tq)"
  shows "tq_moves tq = hd (tq_moves tq) # inner_moves tq @ [last (tq_moves tq)]"
  using assms by (cases "tq_moves tq") (auto simp: inner_moves_def append_butlast_last_id)

lemma trapq_wf_iff:
  "tq_moves tq = h # ms @ [tl1] \<Longrightarrow>
   trapq_wf tq \<longleftrightarrow> h = trapq_move_alloc\<lparr>print_time := - 1\<rparr> \<and> moves_ok ms \<and> tail_ok ms tl1"
  by (simp add: trapq_wf_def inner_moves_def butlast_append)

lemma contiguous_Cons: "contiguous (m # ms) \<longleftrightarrow> ms = [] \<or> move_end m = print_time (hd ms) \<and> contiguous ms"
  by (cases ms) auto

lemma contiguous_append:
  "contiguous (ms @ ns) \<longleftrightarrow>
     contiguous ms \<and> contiguous ns \<and> (ms \<noteq> [] \<and> ns \<noteq> [] \<longrightarrow> move_end (last ms) = print_time (hd ns))"
  by (induction ms) (auto simp: contiguous_Cons)

text \<open>In a well-formed queue a move ends before the later ones start.\<close>

lemma contiguous_le:
  "contiguous (m # ms) \<Longrightarrow> \<forall>x\<in>set (m # ms). 0 < move_t x \<Longrightarrow> x \<in> set ms \<Longrightarrow> move_end m \<le> print_time x"
proof (induction ms arbitrary: m)
  case (Cons a ms)
  then show ?case
  proof (cases "x = a")
    case False
    with Cons have "move_end a \<le> print_time x" by simp
    with Cons.prems show ?thesis by simp
  qed simp
qed simp

lemma later_after:
  "contiguous (ms @ ns @ os) \<Longrightarrow> \<forall>y\<in>set (ms @ ns @ os). 0 < move_t y \<Longrightarrow> x \<in> set ms \<Longrightarrow> m \<in> set ns \<Longrightarrow> move_end x \<le> print_time m"
proof (induction ms)
  case (Cons a ms)
  then show ?case using contiguous_le [of a "ms @ ns @ os" m] by (auto simp: contiguous_Cons)
qed simp

section \<open>Appending moves\<close>

lemma add_move_moves:
  assumes "tq_moves tq = h # ms @ [tl1]"
  shows "tq_moves (trapq_add_move m tq) =
     h # (ms @ (if move_end (last (h # ms)) < print_time m then [null_move (last (h # ms)) m] else []) @ [m]) @
       [tl1\<lparr>print_time := 0\<rparr>]"
proof -
  have "(h # ms @ [tl1]) ! (length (h # ms @ [tl1]) - 2) = last (h # ms)"
    by (cases ms rule: rev_cases) (simp_all add: nth_append)
  then show ?thesis by (simp add: trapq_add_move_def assms Let_def butlast_append)
qed

lemma null_move_simps [simp]:
  "start_v (null_move p m) = 0" "half_accel (null_move p m) = 0" "axes_r (null_move p m) = coord0"
  "move_end (null_move p m) = print_time m" "start_pos (null_move p m) = start_pos m"
  by (simp_all add: null_move_def trapq_move_alloc_def Let_def)

lemma null_move_time:
  "move_end p < print_time m \<Longrightarrow> 0 < move_t (null_move p m)"
  "0 < print_time p \<Longrightarrow> print_time (null_move p m) = move_end p"
  by (simp_all add: null_move_def trapq_move_alloc_def Let_def)

text \<open>Adding a move that starts after the end of the queue: at most one move fills the gap.\<close>

lemma add_move_wf:
  assumes "trapq_wf tq" "queue_end tq \<le> print_time m" "0 < print_time m" "0 < move_t m"
  obtains ns where "inner_moves (trapq_add_move m tq) = inner_moves tq @ ns @ [m]" "trapq_wf (trapq_add_move m tq)"
    "\<forall>n\<in>set ns. is_still n \<and> move_end n = print_time m \<and> start_pos n = start_pos m"
proof -
  let ?h = "hd (tq_moves tq)" and ?ms = "inner_moves tq" and ?t = "last (tq_moves tq)"
  let ?ns = "if move_end (last (?h # ?ms)) < print_time m then [null_move (last (?h # ?ms)) m] else []"
  have sp: "tq_moves tq = ?h # ?ms @ [?t]" using assms(1) by (intro tq_moves_split) (simp add: trapq_wf_def)
  have h: "print_time ?h = - 1" "move_t ?h = 0" "moves_ok ?ms" "tail_ok ?ms ?t"
    "?h = trapq_move_alloc\<lparr>print_time := - 1\<rparr>"
    using assms(1) by (simp_all add: trapq_wf_def trapq_move_alloc_def)
  note am = add_move_moves [OF sp, of m]
  have "moves_ok (?ms @ ?ns @ [m])"
  proof (cases "?ms = []")
    case True
    then show ?thesis using h assms(3,4) null_move_time(1) [of ?h m] by (simp add: moves_ok_def)
  next
    case False
    with h(3) assms(2-4) null_move_time [of "last ?ms" m] null_move_simps(4) [of "last ?ms" m] show ?thesis
      by (auto simp: moves_ok_def queue_end_def contiguous_append)
  qed
  moreover have "tail_ok (?ms @ ?ns @ [m]) (?t\<lparr>print_time := 0\<rparr>)" using h(4) by (simp add: tail_ok_def is_still_def)
  ultimately have "trapq_wf (trapq_add_move m tq)" using trapq_wf_iff [OF am] h(5) by blast
  moreover have "inner_moves (trapq_add_move m tq) = ?ms @ ?ns @ [m]"
    unfolding inner_moves_def am by (simp add: butlast_append)
  ultimately show thesis by (intro that [of ?ns]) (simp_all add: is_still_def)
qed

text \<open>
  The distance along a move with the three phases, \<open>s\<close> after its start: what the phases cover
  that have been reached.
\<close>

definition profile :: "real \<Rightarrow> real \<Rightarrow> real \<Rightarrow> real \<Rightarrow> real \<Rightarrow> real \<Rightarrow> real" where
  "profile accel_t cruise_t sv cruise_v accel s =
     (let a = min s accel_t; c = max 0 (min (s - accel_t) cruise_t); d = max 0 (s - accel_t - cruise_t)
      in sv * a + accel / 2 * a\<^sup>2 + cruise_v * c + (cruise_v * d - accel / 2 * d\<^sup>2))"

definition along :: "coord \<Rightarrow> coord \<Rightarrow> real \<Rightarrow> coord" where
  "along pos axes d = \<lparr>cx = cx pos + cx axes * d, cy = cy pos + cy axes * d, cz = cz pos + cz axes * d\<rparr>"

lemma move_get_coord_along: "move_get_coord m t = along (start_pos m) (axes_r m) (move_get_distance m t)"
  by (simp add: move_get_coord_def along_def Let_def)

lemma along_along: "along (along pos axes d) axes e = along pos axes (d + e)"
  by (simp add: along_def algebra_simps)

lemma along_0 [simp]: "along pos axes 0 = pos"
  by (simp add: along_def)

definition phase_move :: "real \<Rightarrow> real \<Rightarrow> real \<Rightarrow> real \<Rightarrow> coord \<Rightarrow> coord \<Rightarrow> trap_move" where
  "phase_move pt t v ha pos axes =
     \<lparr>print_time = pt, move_t = t, start_v = v, half_accel = ha, start_pos = pos, axes_r = axes\<rparr>"

text \<open>A move of \<open>ms\<close> that covers a time from \<open>from_t\<close> on, before \<open>to_t\<close>, is at the place \<open>f\<close> says.\<close>

definition follows :: "trap_move list \<Rightarrow> real \<Rightarrow> real \<Rightarrow> (real \<Rightarrow> coord) \<Rightarrow> bool" where
  "follows ms from_t to_t f \<longleftrightarrow>
     (\<forall>t. from_t \<le> t \<and> t < to_t \<longrightarrow> (\<exists>m\<in>set ms. print_time m \<le> t \<and> t < move_end m)) \<and>
     (\<forall>t. \<forall>m\<in>set ms. from_t \<le> t \<and> t < to_t \<and> print_time m \<le> t \<and> t < move_end m \<longrightarrow>
        move_get_coord m (t - print_time m) = f t)"

definition phase_ok :: "real \<Rightarrow> (real \<Rightarrow> coord) \<Rightarrow> real \<times> coord \<times> trapq \<Rightarrow> bool" where
  "phase_ok pt0 f st \<longleftrightarrow>
     (let (pt, pos, tq) = st in
      0 < pt0 \<and> pt0 \<le> pt \<and> pos = f pt \<and> trapq_wf tq \<and> queue_end tq \<le> pt \<and> follows (inner_moves tq) pt0 pt f)"

lemma inner_end:
  assumes "trapq_wf tq" "m \<in> set (inner_moves tq)"
  shows "move_end m \<le> queue_end tq"
proof -
  have c: "contiguous ms \<Longrightarrow> \<forall>x\<in>set ms. 0 < move_t x \<Longrightarrow> m \<in> set ms \<Longrightarrow> move_end m \<le> move_end (last ms)" for ms
  proof (induction ms)
    case (Cons a ms)
    show ?case
    proof (cases "ms = [] \<or> m \<in> set ms")
      case True
      then show ?thesis using Cons by (auto simp: contiguous_Cons)
    next
      case False
      then have "move_end m \<le> print_time (last ms)" using Cons contiguous_le [of a ms "last ms"] by auto
      moreover have "0 < move_t (last ms)" using Cons.prems(2) False by simp
      ultimately show ?thesis using False by simp
    qed
  qed simp
  show ?thesis using assms c [of "inner_moves tq"] by (auto simp: trapq_wf_def moves_ok_def queue_end_def)
qed

text \<open>One phase extends what the queue follows.\<close>

lemma append_phase_ok:
  assumes "phase_ok pt0 f (pt, pos, tq)" "0 \<le> t"
    and "\<And>u. 0 \<le> u \<Longrightarrow> u \<le> t \<Longrightarrow> f (pt + u) = along (f pt) axes ((v + ha * u) * u)"
  shows "phase_ok pt0 f (append_phase t v ha axes (pt, pos, tq)) \<and> fst (append_phase t v ha axes (pt, pos, tq)) = pt + t"
proof (cases "t = 0")
  case True
  then show ?thesis using assms(1) by (simp add: append_phase_def)
next
  case False
  let ?m = "phase_move pt t v ha pos axes"
  have st: "append_phase t v ha axes (pt, pos, tq) = (pt + t, move_get_coord ?m t, trapq_add_move ?m tq)"
    using False by (simp add: append_phase_def phase_move_def trapq_move_alloc_def Let_def)
  have p: "0 < pt0" "pt0 \<le> pt" "pos = f pt" "trapq_wf tq" "queue_end tq \<le> pt" "follows (inner_moves tq) pt0 pt f"
    using assms(1) by (simp_all add: phase_ok_def)
  obtain ns where n: "inner_moves (trapq_add_move ?m tq) = inner_moves tq @ ns @ [?m]" "trapq_wf (trapq_add_move ?m tq)"
    "\<forall>n\<in>set ns. is_still n \<and> move_end n = print_time ?m \<and> start_pos n = start_pos ?m"
    by (rule add_move_wf [OF p(4), of ?m]) (use p assms(2) False in \<open>simp_all add: phase_move_def\<close>)
  have c: "move_get_coord ?m u = f (pt + u)" if "0 \<le> u" "u \<le> t" for u
    using assms(3) [OF that] p(3) by (simp add: move_get_coord_along move_get_distance_def phase_move_def)
  have e: "move_end m \<le> pt" if "m \<in> set (inner_moves tq)" for m using inner_end [OF p(4) that] p(5) by simp
  have nt: "move_end m \<le> pt" if "m \<in> set ns" for m using n(3) that by (simp add: phase_move_def)
  have "queue_end (trapq_add_move ?m tq) = pt + t" unfolding queue_end_def n(1) by (simp add: phase_move_def)
  moreover have "follows (inner_moves (trapq_add_move ?m tq)) pt0 (pt + t) f"
    unfolding follows_def
  proof (intro conjI allI impI ballI, goal_cases)
    case (1 s)
    show ?case
    proof (cases "s < pt")
      case True
      then have "\<exists>m\<in>set (inner_moves tq). print_time m \<le> s \<and> s < move_end m" using p(6) 1 by (auto simp: follows_def)
      then show ?thesis by (auto simp: n(1))
    next
      case False
      have "?m \<in> set (inner_moves (trapq_add_move ?m tq))" unfolding n(1) by simp
      then show ?thesis using False 1 by (intro bexI [of _ ?m]) (simp_all add: phase_move_def)
    qed
  next
    case (2 s m)
    then consider "m \<in> set (inner_moves tq)" "s < pt" | "m \<in> set ns" "s < pt" | "m = ?m"
      using e nt by (fastforce simp: n(1))
    then show ?case
    proof cases
      case 1
      then show ?thesis using p(6) 2 by (auto simp: follows_def)
    next
      case a: 2
      then have "\<exists>x\<in>set (inner_moves tq). print_time x \<le> s \<and> s < move_end x" using p(6) 2 by (auto simp: follows_def)
      then obtain x where x: "x \<in> set (inner_moves tq)" "print_time x \<le> s" "s < move_end x" by blast
      have "contiguous (inner_moves tq @ ns @ [?m])" "\<forall>y\<in>set (inner_moves tq @ ns @ [?m]). 0 < move_t y"
        using n(2) by (simp_all add: trapq_wf_def moves_ok_def n(1))
      then have "move_end x \<le> print_time m" using x(1) a(1) by (rule later_after)
      then show ?thesis using x 2 by simp
    next
      case 3
      then show ?thesis using 2 c [of "s - pt"] by (simp add: phase_move_def)
    qed
  qed
  ultimately show ?thesis using p(1,2) n(2) c [of t] assms(2) by (simp add: st phase_ok_def)
qed

lemma trapq_append_ok:
  assumes "trapq_wf tq" "queue_end tq \<le> pt" "0 < pt" "0 \<le> accel_t" "0 \<le> cruise_t" "0 \<le> decel_t"
    and "tq' = trapq_append pt accel_t cruise_t decel_t pos axes sv cruise_v accel tq"
  shows "trapq_wf tq'" "queue_end tq' \<le> pt + accel_t + cruise_t + decel_t"
    "follows (inner_moves tq') pt (pt + accel_t + cruise_t + decel_t)
       (\<lambda>t. along pos axes (profile accel_t cruise_t sv cruise_v accel (t - pt)))"
proof -
  let ?p = "profile accel_t cruise_t sv cruise_v accel"
  define f where "f t = along pos axes (?p (t - pt))" for t
  have d: "f (t + u) = along (f t) axes e" if "?p (t - pt + u) = ?p (t - pt) + e" for t u e
    using that by (simp add: f_def along_along algebra_simps)
  define s1 where "s1 = append_phase accel_t sv (1 / 2 * accel) axes (pt, pos, tq)"
  define s2 where "s2 = append_phase cruise_t cruise_v 0 axes s1"
  define s3 where "s3 = append_phase decel_t cruise_v (- (1 / 2) * accel) axes s2"
  have 0: "phase_ok pt f (pt, pos, tq)"
    using assms(1-5) by (auto simp: phase_ok_def follows_def f_def profile_def)
  have 1: "phase_ok pt f s1 \<and> fst s1 = pt + accel_t"
    unfolding s1_def by (rule append_phase_ok [OF 0 assms(4)], rule d)
      (use assms(4,5) in \<open>simp add: profile_def Let_def power2_eq_square algebra_simps\<close>)
  then obtain pos1 tq1 where s1: "s1 = (pt + accel_t, pos1, tq1)" by (cases s1) auto
  have 2: "phase_ok pt f s2 \<and> fst s2 = pt + accel_t + cruise_t"
    unfolding s2_def s1 by (rule append_phase_ok [OF _ assms(5)], use 1 s1 in simp, rule d)
      (use assms(4,5) in \<open>simp add: profile_def Let_def algebra_simps\<close>)
  then obtain pos2 tq2 where s2: "s2 = (pt + accel_t + cruise_t, pos2, tq2)" by (cases s2) auto
  have 3: "phase_ok pt f s3 \<and> fst s3 = pt + accel_t + cruise_t + decel_t"
    unfolding s3_def s2 by (rule append_phase_ok [OF _ assms(6)], use 2 s2 in simp, rule d)
      (use assms(4-6) in \<open>simp add: profile_def Let_def power2_eq_square algebra_simps\<close>)
  have "tq' = snd (snd s3)" by (simp add: assms(7) trapq_append_def s1_def s2_def s3_def)
  with 3 show "trapq_wf tq'" "queue_end tq' \<le> pt + accel_t + cruise_t + decel_t"
    "follows (inner_moves tq') pt (pt + accel_t + cruise_t + decel_t) (\<lambda>t. along pos axes (?p (t - pt)))"
    by (auto simp: phase_ok_def f_def [abs_def])
qed

section \<open>The sentinels\<close>

lemma check_sentinels_ok:
  assumes "trapq_wf tq"
  shows "trapq_wf (trapq_check_sentinels tq)" "inner_moves (trapq_check_sentinels tq) = inner_moves tq"
    "print_time (last (tq_moves (trapq_check_sentinels tq))) \<noteq> 0"
proof -
  let ?h = "hd (tq_moves tq)" and ?ms = "inner_moves tq" and ?t = "last (tq_moves tq)"
  have sp: "tq_moves tq = ?h # ?ms @ [?t]" using assms by (intro tq_moves_split) (simp add: trapq_wf_def)
  have w: "?h = trapq_move_alloc\<lparr>print_time := - 1\<rparr>" "moves_ok ?ms" "tail_ok ?ms ?t"
    using assms by (simp_all add: trapq_wf_def)
  have n2: "tq_moves tq ! (length (tq_moves tq) - 2) = last (?h # ?ms)"
    by (subst (1 2) sp) (cases ?ms rule: rev_cases; simp add: nth_append)
  have l2: "length (tq_moves tq) = 2 \<longleftrightarrow> ?ms = []" by (subst sp) simp
  define t' where "t' = (if print_time ?t \<noteq> 0 then ?t else if ?ms = [] then ?t\<lparr>print_time := NEVER_TIME\<rparr>
      else ?t\<lparr>print_time := move_end (last ?ms), start_pos := move_get_coord (last ?ms) (move_t (last ?ms))\<rparr>)"
  have bl: "butlast (tq_moves tq) = ?h # ?ms" by (subst sp) (simp add: butlast_append)
  have m: "tq_moves (trapq_check_sentinels tq) = ?h # ?ms @ [t']"
    unfolding trapq_check_sentinels_def Let_def n2 l2 bl t'_def using sp by simp
  have "print_time t' \<noteq> 0"
    using w(2) by (auto simp: t'_def moves_ok_def dest!: bspec [of _ _ "last ?ms"])
  moreover have "tail_ok ?ms t'" using w(3) by (auto simp: t'_def tail_ok_def is_still_def split: if_splits)
  ultimately show "trapq_wf (trapq_check_sentinels tq)" "inner_moves (trapq_check_sentinels tq) = ?ms"
    "print_time (last (tq_moves (trapq_check_sentinels tq))) \<noteq> 0"
    using trapq_wf_iff [OF m] w(1,2) by (simp_all add: m inner_moves_def butlast_append)
qed

section \<open>Finished moves\<close>

abbreviation moving :: "trap_move \<Rightarrow> bool" where
  "moving m \<equiv> start_v m \<noteq> 0 \<or> half_accel m \<noteq> 0"

lemma finalize_loop_eq:
  "finalize_loop pt ms hist =
     (dropWhile (\<lambda>m. \<not> move_end m > pt) ms, rev (filter moving (takeWhile (\<lambda>m. \<not> move_end m > pt) ms)) @ hist)"
  by (induction ms arbitrary: hist) auto

lemma moves_ok_split:
  assumes "moves_ok ms"
  shows "dropWhile (\<lambda>m. \<not> move_end m > pt) ms = filter (\<lambda>m. move_end m > pt) ms"
    "takeWhile (\<lambda>m. \<not> move_end m > pt) ms = filter (\<lambda>m. \<not> move_end m > pt) ms"
proof -
  have c: "contiguous ms" "\<forall>m\<in>set ms. 0 < move_t m" using assms by (simp_all add: moves_ok_def)
  then have "dropWhile (\<lambda>m. \<not> move_end m > pt) ms = filter (\<lambda>m. move_end m > pt) ms \<and>
      takeWhile (\<lambda>m. \<not> move_end m > pt) ms = filter (\<lambda>m. \<not> move_end m > pt) ms"
  proof (induction ms)
    case (Cons a ms)
    have "pt < move_end x" if "pt < move_end a" "x \<in> set ms" for x
      using contiguous_le [OF Cons.prems that(2)] that Cons.prems(2) by force
    then have "pt < move_end a \<Longrightarrow> filter (\<lambda>m. move_end m > pt) ms = ms"
      "pt < move_end a \<Longrightarrow> filter (\<lambda>m. \<not> move_end m > pt) ms = []" by (auto simp: filter_id_conv filter_empty_conv)
    with Cons show ?case by (auto simp: contiguous_Cons)
  qed simp
  then show "dropWhile (\<lambda>m. \<not> move_end m > pt) ms = filter (\<lambda>m. move_end m > pt) ms"
    "takeWhile (\<lambda>m. \<not> move_end m > pt) ms = filter (\<lambda>m. \<not> move_end m > pt) ms" by simp_all
qed

lemma history_loop_keeps: "m \<in> set hist \<Longrightarrow> move_end m > t \<Longrightarrow> m \<in> set (history_loop t hist)"
proof (cases hist)
  case (Cons h ms)
  have "m \<in> set (dropWhile (\<lambda>m. \<not> move_end m > t) xs)" if "m \<in> set xs" "move_end m > t" for xs
    using that by (induction xs) auto
  then show "m \<in> set hist \<Longrightarrow> move_end m > t \<Longrightarrow> ?thesis" using Cons by auto
qed simp

lemma moves_ok_suffix: "moves_ok (ms @ ns) \<Longrightarrow> moves_ok ns"
  by (auto simp: moves_ok_def contiguous_append)

lemma finalize_ok:
  assumes "trapq_wf tq"
  shows "trapq_wf (trapq_finalize_moves pt clear tq)"
    "inner_moves (trapq_finalize_moves pt clear tq) = filter (\<lambda>m. move_end m > pt) (inner_moves tq)"
    "tq_history (trapq_finalize_moves pt clear tq) =
       history_loop clear (rev (filter moving (filter (\<lambda>m. \<not> move_end m > pt) (inner_moves tq))) @ tq_history tq)"
proof -
  let ?h = "hd (tq_moves tq)" and ?ms = "inner_moves tq" and ?t = "last (tq_moves tq)"
  let ?r = "filter (\<lambda>m. move_end m > pt) ?ms"
  have w: "?h = trapq_move_alloc\<lparr>print_time := - 1\<rparr>" "moves_ok ?ms" "tail_ok ?ms ?t"
    using assms by (simp_all add: trapq_wf_def)
  note sp = moves_ok_split [OF w(2), of pt]
  define t' where "t' = (if ?r = [] then ?t\<lparr>print_time := NEVER_TIME\<rparr> else ?t)"
  have f: "trapq_finalize_moves pt clear tq = tq\<lparr>tq_moves := ?h # ?r @ [t'],
      tq_history := history_loop clear (rev (filter moving (filter (\<lambda>m. \<not> move_end m > pt) ?ms)) @ tq_history tq)\<rparr>"
    unfolding trapq_finalize_moves_def Let_def inner_moves_def [symmetric] finalize_loop_eq sp t'_def by simp
  then have m: "tq_moves (trapq_finalize_moves pt clear tq) = ?h # ?r @ [t']" by simp
  have "?ms = filter (\<lambda>m. \<not> move_end m > pt) ?ms @ ?r" using takeWhile_dropWhile_id [of "\<lambda>m. \<not> move_end m > pt" ?ms] sp by simp
  then have r: "moves_ok ?r" "?r \<noteq> [] \<Longrightarrow> last ?ms = last ?r"
    using w(2) moves_ok_suffix by (metis, metis last_appendR)
  have "tail_ok ?r t'" using w(3) r(2) by (auto simp: t'_def tail_ok_def is_still_def split: if_splits)
  with trapq_wf_iff [OF m] w(1) r(1) show "trapq_wf (trapq_finalize_moves pt clear tq)" by blast
  show "inner_moves (trapq_finalize_moves pt clear tq) = ?r" by (simp add: inner_moves_def m butlast_append)
  show "tq_history (trapq_finalize_moves pt clear tq) =
       history_loop clear (rev (filter moving (filter (\<lambda>m. \<not> move_end m > pt) ?ms)) @ tq_history tq)" by (simp add: f)
qed

section \<open>Properties\<close>

text \<open>The callers add moves in the order of their times, from a positive time on.\<close>

inductive trapq_step :: "trapq \<Rightarrow> trapq \<Rightarrow> bool" where
  step_append: "queue_end tq \<le> pt \<Longrightarrow> 0 < pt \<Longrightarrow> 0 \<le> accel_t \<Longrightarrow> 0 \<le> cruise_t \<Longrightarrow> 0 \<le> decel_t \<Longrightarrow>
    trapq_step tq (trapq_append pt accel_t cruise_t decel_t pos axes sv cruise_v accel tq)"
| step_check: "trapq_step tq (trapq_check_sentinels tq)"
| step_finalize: "trapq_step tq (trapq_finalize_moves pt clear tq)"
| step_position: "trapq_step tq (trapq_set_position pt pos tq)"

lemma trapq_alloc_wf: "trapq_wf trapq_alloc"
  by (simp add: trapq_wf_def trapq_alloc_def inner_moves_def moves_ok_def tail_ok_def is_still_def trapq_move_alloc_def)

lemma set_position_wf: "trapq_wf tq \<Longrightarrow> trapq_wf (trapq_set_position pt pos tq)"
  using finalize_ok(1) [of tq NEVER_TIME 0] by (simp add: trapq_set_position_def Let_def trapq_wf_def inner_moves_def)

lemma trapq_reach_wf: "trapq_step\<^sup>*\<^sup>* trapq_alloc tq \<Longrightarrow> trapq_wf tq"
proof (induction rule: rtranclp_induct)
  case base
  show ?case by (rule trapq_alloc_wf)
next
  case (step y z)
  from step(2,3) show ?case
    by cases (auto intro: trapq_append_ok(1) check_sentinels_ok(1) finalize_ok(1) set_position_wf)
qed

text \<open>
  C10: moves that are appended in the order of their times leave a queue without gaps or overlaps
  in time: every move ends when the next one starts and lasts for a positive time; and once the
  sentinels are checked, the tail sentinel starts at the time and the place the last move ends.
\<close>

theorem trapq_contiguous:
  assumes "trapq_step\<^sup>*\<^sup>* trapq_alloc tq"
  shows "contiguous (inner_moves tq) \<and> (\<forall>m\<in>set (inner_moves tq). 0 < move_t m) \<and>
     (let tq' = trapq_check_sentinels tq; tail_sentinel = last (tq_moves tq') in
      inner_moves tq' = inner_moves tq \<and>
      (inner_moves tq \<noteq> [] \<longrightarrow> print_time tail_sentinel = move_end (last (inner_moves tq)) \<and>
         start_pos tail_sentinel = move_get_coord (last (inner_moves tq)) (move_t (last (inner_moves tq)))))"
  using trapq_reach_wf [OF assms] check_sentinels_ok [OF trapq_reach_wf [OF assms]]
  by (auto simp: trapq_wf_def moves_ok_def tail_ok_def Let_def)

abbreviation demo_axis :: coord where "demo_axis \<equiv> \<lparr>cx = 1, cy = 0, cz = 0\<rparr>"

definition demo_trapq :: trapq where
  "demo_trapq = trapq_append 10 1 2 1 coord0 demo_axis 0 10 10 trapq_alloc"

lemma demo_trapq_reach: "trapq_step\<^sup>*\<^sup>* trapq_alloc demo_trapq"
  unfolding demo_trapq_def
  by (rule r_into_rtranclp, rule step_append) (simp_all add: queue_end_def inner_moves_def trapq_alloc_def)

lemmas demo_trapq_simps = demo_trapq_def trapq_append_def append_phase_def trapq_add_move_def null_move_def trapq_alloc_def
  trapq_move_alloc_def inner_moves_def move_get_coord_def move_get_distance_def coord0_def Let_def

theorem trapq_contiguous_witness:
  "print_time (last (tq_moves (trapq_check_sentinels demo_trapq))) = 14 \<and> length (inner_moves demo_trapq) = 4"
  using trapq_contiguous [OF demo_trapq_reach] by (simp add: demo_trapq_simps)

text \<open>
  C11: an appended move is executed as planned. At every time from its start to its end exactly the
  trapezoidal profile of the requested acceleration, cruise and deceleration phases gives the
  position, whatever was queued before.
\<close>

theorem trapq_append_trajectory:
  assumes "trapq_step\<^sup>*\<^sup>* trapq_alloc tq" "queue_end tq \<le> pt" "0 < pt" "0 \<le> accel_t" "0 \<le> cruise_t" "0 \<le> decel_t"
    and "pt \<le> t" "t < pt + accel_t + cruise_t + decel_t"
  shows "(\<exists>m\<in>set (inner_moves (trapq_append pt accel_t cruise_t decel_t pos axes sv cruise_v accel tq)).
       print_time m \<le> t \<and> t < move_end m) \<and>
     (\<forall>m\<in>set (inner_moves (trapq_append pt accel_t cruise_t decel_t pos axes sv cruise_v accel tq)).
       print_time m \<le> t \<and> t < move_end m \<longrightarrow>
       move_get_coord m (t - print_time m) = along pos axes (profile accel_t cruise_t sv cruise_v accel (t - pt)))"
  using trapq_append_ok(3) [OF trapq_reach_wf [OF assms(1)] assms(2-6) refl, of pos axes sv cruise_v accel] assms(7,8)
  by (auto simp: follows_def)

theorem trapq_append_trajectory_witness:
  "\<exists>m\<in>set (inner_moves demo_trapq). print_time m \<le> 12 \<and> 12 < move_end m \<and>
     move_get_coord m (12 - print_time m) = \<lparr>cx = 15, cy = 0, cz = 0\<rparr>"
proof -
  have "queue_end trapq_alloc \<le> 10" by (simp add: queue_end_def inner_moves_def trapq_alloc_def)
  from trapq_append_trajectory [OF rtranclp.rtrancl_refl this, of 1 2 1 12 coord0 demo_axis 0 10 10, folded demo_trapq_def]
  show ?thesis by (auto simp: along_def profile_def coord0_def)
qed

end
