(* ===== verification/Kinematics.thy ===== *)
theory Kinematics
  imports Trapq "HOL-Library.Monad_Syntax"
begin

text \<open>
  The kinematics of the host (\<^verbatim>\<open>src/klippy/chelper/kin_*.c\<close>): for each stepper the function from a
  time within a move to the position of the stepper. A callback gets the list of moves and the
  index of the move in it, because the input shaper and the extruder look at neighbouring moves. It has
  no result (\<open>None\<close>) where the code would follow a pointer out of the list or call through a NULL
  pointer, and where the position is not a number. The input shaper stores a position in its own move,
  so a callback also returns the kinematics.
\<close>

section \<open>The library functions of C\<close>

definition c_sqrt :: "real \<Rightarrow> real option" where
  "c_sqrt x = (if x < 0 then None else Some (sqrt x))"

definition atan2 :: "real \<Rightarrow> real \<Rightarrow> real" where
  "atan2 y x =
     (if x > 0 then arctan (y / x)
      else if x < 0 then (if y \<ge> 0 then arctan (y / x) + pi else arctan (y / x) - pi)
      else if y > 0 then pi / 2 else if y < 0 then - pi / 2 else 0)"

section \<open>The kinds of kinematics\<close>

abbreviation (input) AF_X :: u32 where "AF_X \<equiv> 1"
abbreviation (input) AF_Y :: u32 where "AF_Y \<equiv> 2"
abbreviation (input) AF_Z :: u32 where "AF_Z \<equiv> 4"

datatype axis = X | Y | Z

record shaper_pulses =
  num_pulses :: nat
  p_ind :: nat
  pulses :: "(real \<times> real) list"   \<comment> \<open>\<^verbatim>\<open>t\<close> and \<^verbatim>\<open>a\<close>, 10 entries\<close>

record pa_params =
  pressure_advance :: real
  active_print_time :: real

record rotary_params =
  rs_cos :: real
  rs_sin :: real
  shoulder_radius :: real
  shoulder_height :: real
  upper_arm2 :: real
  lower_arm2 :: real

record dual_params =
  x_scale :: real
  x_offs :: real
  y_scale :: real
  y_offs :: real

record shaper_params =
  sh_start_pos :: coord                 \<comment> \<open>\<^verbatim>\<open>is->m.start_pos\<close>\<close>
  sp_x :: shaper_pulses
  sp_y :: shaper_pulses
  sp_z :: shaper_pulses

datatype shaper_cb = Shaper_none | Shaper_x | Shaper_y | Shaper_z | Shaper_xyz
datatype post_cb = No_post | Polar_angle_fixup | Shaper_fixup

text \<open>
  What \<^verbatim>\<open>calc_position_cb\<close> points to, with the fields of the struct around \<^verbatim>\<open>sk\<close>. A wrapped
  \<^verbatim>\<open>orig_sk\<close> has its active flags, its position, its \<^verbatim>\<open>post_cb\<close> and its own kinematics.
\<close>

datatype kinematics =
    Kin_null
  | Cart axis
  | Corexy_plus | Corexy_minus
  | Corexz_plus | Corexz_minus
  | Delta (ds_arm2: real) (ds_tower_x: real) (ds_tower_y: real)
  | Deltesian (dl_arm2: real) (dl_arm_x: real)
  | Polar_radius | Polar_angle
  | Rotary rotary_params
  | Winch coord
  | Generic_cartesian coord
  | Extruder (es_pa_list: "pa_params list") (es_half_smooth_time: real) (es_inv_half_smooth_time2: real)
  | Dual_carriage dual_params orig_sk
  | Dual_null dual_params
  | Shaper shaper_cb shaper_params orig_sk
  | Shaper_null shaper_params
and orig_sk = Orig (o_flags: u32) (o_pos: real) (o_post: post_cb) (o_kin: kinematics)

record stepper_kinematics =
  step_dist :: real
  commanded_pos :: real
  last_flush_time :: real
  last_move_time :: real
  sk_tq :: "nat option"
  active_flags :: u32
  gen_steps_pre_active :: real
  gen_steps_post_active :: real
  sk_kin :: kinematics
  sk_post :: post_cb

definition sk_zero :: stepper_kinematics where
  "sk_zero =
     \<lparr>step_dist = 0, commanded_pos = 0, last_flush_time = 0, last_move_time = 0, sk_tq = None, active_flags = 0,
      gen_steps_pre_active = 0, gen_steps_post_active = 0, sk_kin = Kin_null, sk_post = No_post\<rparr>"

section \<open>Plain kinematics\<close>

fun coord_axis :: "axis \<Rightarrow> coord \<Rightarrow> real" where
  "coord_axis X c = cx c"
| "coord_axis Y c = cy c"
| "coord_axis Z c = cz c"

definition cart_stepper_calc_position :: "axis \<Rightarrow> trap_move \<Rightarrow> real \<Rightarrow> real" where
  "cart_stepper_calc_position ax m move_time = coord_axis ax (move_get_coord m move_time)"

definition corexy_stepper_plus_calc_position :: "trap_move \<Rightarrow> real \<Rightarrow> real" where
  "corexy_stepper_plus_calc_position m move_time = (let c = move_get_coord m move_time in cx c + cy c)"

definition corexy_stepper_minus_calc_position :: "trap_move \<Rightarrow> real \<Rightarrow> real" where
  "corexy_stepper_minus_calc_position m move_time = (let c = move_get_coord m move_time in cx c - cy c)"

definition corexz_stepper_plus_calc_position :: "trap_move \<Rightarrow> real \<Rightarrow> real" where
  "corexz_stepper_plus_calc_position m move_time = (let c = move_get_coord m move_time in cx c + cz c)"

definition corexz_stepper_minus_calc_position :: "trap_move \<Rightarrow> real \<Rightarrow> real" where
  "corexz_stepper_minus_calc_position m move_time = (let c = move_get_coord m move_time in cx c - cz c)"

definition delta_stepper_calc_position :: "real \<Rightarrow> real \<Rightarrow> real \<Rightarrow> trap_move \<Rightarrow> real \<Rightarrow> real option" where
  "delta_stepper_calc_position arm2 tower_x tower_y m move_time =
     (let c = move_get_coord m move_time; dx = tower_x - cx c; dy = tower_y - cy c
      in do { r \<leftarrow> c_sqrt (arm2 - dx * dx - dy * dy); Some (r + cz c) })"

definition deltesian_stepper_calc_position :: "real \<Rightarrow> real \<Rightarrow> trap_move \<Rightarrow> real \<Rightarrow> real option" where
  "deltesian_stepper_calc_position arm2 arm_x m move_time =
     (let c = move_get_coord m move_time; dx = cx c - arm_x
      in do { r \<leftarrow> c_sqrt (arm2 - dx * dx); Some (r + cz c) })"

definition polar_stepper_radius_calc_position :: "trap_move \<Rightarrow> real \<Rightarrow> real" where
  "polar_stepper_radius_calc_position m move_time =
     (let c = move_get_coord m move_time in sqrt (cx c * cx c + cy c * cy c))"

definition polar_stepper_angle_calc_position :: "real \<Rightarrow> trap_move \<Rightarrow> real \<Rightarrow> real" where
  "polar_stepper_angle_calc_position pos m move_time =
     (let c = move_get_coord m move_time; angle = atan2 (cy c) (cx c)
      in if angle - pos > pi then angle - 2 * pi
         else if angle - pos < - pi then angle + 2 * pi
         else angle)"

definition polar_stepper_angle_post_fixup :: "real \<Rightarrow> real" where
  "polar_stepper_angle_post_fixup pos =
     (if pos < - pi then pos + 2 * pi else if pos > pi then pos - 2 * pi else pos)"

definition winch_stepper_calc_position :: "coord \<Rightarrow> trap_move \<Rightarrow> real \<Rightarrow> real" where
  "winch_stepper_calc_position anchor m move_time =
     (let c = move_get_coord m move_time; dx = cx anchor - cx c; dy = cy anchor - cy c; dz = cz anchor - cz c
      in sqrt (dx * dx + dy * dy + dz * dz))"

definition generic_cartesian_stepper_calc_position :: "coord \<Rightarrow> trap_move \<Rightarrow> real \<Rightarrow> real" where
  "generic_cartesian_stepper_calc_position a m move_time =
     (let c = move_get_coord m move_time in cx a * cx c + cy a * cy c + cz a * cz c)"

text \<open>A division by \<^verbatim>\<open>dy\<close> 0 gives no number.\<close>

definition rotary_two_arm_calc :: "real \<Rightarrow> real \<Rightarrow> real \<Rightarrow> real \<Rightarrow> real option" where
  "rotary_two_arm_calc dx dy ua2 la2 =
     (if dy = 0 then None
      else let inv_dy = 1 / dy;
               c1 = 1 / 2 * inv_dy * (dx * dx + dy * dy + ua2 - la2);
               c2 = dx * inv_dy;
               scale = c2 * c2 + 1
           in do {
                r \<leftarrow> c_sqrt (scale * ua2 - c1 * c1);
                let scaled_elbow_x = c1 * c2 + r;
                let scaled_elbow_y = c1 * scale - c2 * scaled_elbow_x;
                Some (atan2 scaled_elbow_y scaled_elbow_x) })"

definition rotary_stepper_calc_position :: "rotary_params \<Rightarrow> trap_move \<Rightarrow> real \<Rightarrow> real option" where
  "rotary_stepper_calc_position rs m move_time =
     (let c = move_get_coord m move_time;
          sjz = cy c * rs_cos rs - cx c * rs_sin rs;
          sjx = cx c * rs_cos rs + cy c * rs_sin rs - shoulder_radius rs;
          sjy = cz c - shoulder_height rs
      in rotary_two_arm_calc sjx sjy (upper_arm2 rs) (lower_arm2 rs - sjz * sjz))"

section \<open>The extruder\<close>

definition extruder_integrate :: "real \<Rightarrow> real \<Rightarrow> real \<Rightarrow> real \<Rightarrow> real \<Rightarrow> real" where
  "extruder_integrate base sv ha start end_t =
     (let half_v = 1 / 2 * sv; sixth_a = 1 / 3 * ha;
          si = start * (base + start * (half_v + start * sixth_a));
          ei = end_t * (base + end_t * (half_v + end_t * sixth_a))
      in ei - si)"

definition extruder_integrate_time :: "real \<Rightarrow> real \<Rightarrow> real \<Rightarrow> real \<Rightarrow> real \<Rightarrow> real" where
  "extruder_integrate_time base sv ha start end_t =
     (let half_b = 1 / 2 * base; third_v = 1 / 3 * sv; eighth_a = 1 / 4 * ha;
          si = start * start * (half_b + start * (third_v + start * eighth_a));
          ei = end_t * end_t * (half_b + end_t * (third_v + end_t * eighth_a))
      in ei - si)"

text \<open>The loop from the last to the first entry of \<^verbatim>\<open>pa_list\<close>, on the reversed list.\<close>

fun pa_search :: "real \<Rightarrow> pa_params list \<Rightarrow> pa_params option" where
  "pa_search t [] = None"
| "pa_search t [pa] = Some pa"
| "pa_search t (pa # pb # ps) = (if active_print_time pa > t then pa_search t (pb # ps) else Some pa)"

definition pa_move_integrate :: "trap_move \<Rightarrow> pa_params list \<Rightarrow> real \<Rightarrow> real \<Rightarrow> real \<Rightarrow> real \<Rightarrow> real option" where
  "pa_move_integrate m pa_list base start end_t time_offset =
     (let start = (if start < 0 then 0 else start);
          end_t = (if end_t > move_t m then move_t m else end_t)
      in do {
           padv \<leftarrow> (if cy (axes_r m) \<noteq> 0
                    then do { pa \<leftarrow> pa_search (print_time m) (rev pa_list); Some (pressure_advance pa) }
                    else Some 0);
           let base = base + padv * start_v m;
           let sv = start_v m + padv * 2 * half_accel m;
           let ha = half_accel m;
           let iext = extruder_integrate base sv ha start end_t;
           let wgt_ext = extruder_integrate_time base sv ha start end_t;
           Some (wgt_ext - time_offset * iext) })"

text \<open>The loops over the moves before and after the current one.\<close>

fun pa_prev_loop :: "trap_move list \<Rightarrow> pa_params list \<Rightarrow> real \<Rightarrow> nat \<Rightarrow> real \<Rightarrow> real \<Rightarrow> real option" where
  "pa_prev_loop ms pa_list start_base i start res =
     (if start < 0
      then case i of
             0 \<Rightarrow> None
           | Suc j \<Rightarrow>
               let prev = ms ! j; start = start + move_t prev; base = cx (start_pos prev) - start_base
               in do {
                    v \<leftarrow> pa_move_integrate prev pa_list base start (move_t prev) start;
                    pa_prev_loop ms pa_list start_base j start (res + v) }
      else Some res)"

declare pa_prev_loop.simps [simp del]

function pa_next_loop :: "trap_move list \<Rightarrow> pa_params list \<Rightarrow> real \<Rightarrow> nat \<Rightarrow> real \<Rightarrow> real \<Rightarrow> real option" where
  "pa_next_loop ms pa_list start_base i end_t res =
     (if end_t > move_t (ms ! i)
      then let end_t = end_t - move_t (ms ! i) in
        if Suc i \<ge> length ms then None
        else let m = ms ! Suc i; base = cx (start_pos m) - start_base
             in do {
                  v \<leftarrow> pa_move_integrate m pa_list base 0 end_t end_t;
                  pa_next_loop ms pa_list start_base (Suc i) end_t (res - v) }
      else Some res)"
  by pat_completeness auto
termination by (relation "measure (\<lambda>(ms, pl, sb, i, e, r). length ms - i)") auto

declare pa_next_loop.simps [simp del]

definition pa_range_integrate :: "trap_move list \<Rightarrow> nat \<Rightarrow> real \<Rightarrow> pa_params list \<Rightarrow> real \<Rightarrow> real option" where
  "pa_range_integrate ms i move_time pa_list hst =
     (let m = ms ! i; start = move_time - hst; end_t = move_time + hst; start_base = cx (start_pos m)
      in do {
           v1 \<leftarrow> pa_move_integrate m pa_list 0 start move_time start;
           v2 \<leftarrow> pa_move_integrate m pa_list 0 move_time end_t end_t;
           res \<leftarrow> pa_prev_loop ms pa_list start_base i start (0 + v1 - v2);
           pa_next_loop ms pa_list start_base i end_t res })"

definition extruder_calc_position ::
  "pa_params list \<Rightarrow> real \<Rightarrow> real \<Rightarrow> trap_move list \<Rightarrow> nat \<Rightarrow> real \<Rightarrow> real option"
where
  "extruder_calc_position pa_list hst inv_hst2 ms i move_time =
     (let m = ms ! i in
      if hst = 0 then Some (cx (start_pos m) + move_get_distance m move_time)
      else do {
        area \<leftarrow> pa_range_integrate ms i move_time pa_list hst;
        Some (cx (start_pos m) + area * inv_hst2) })"

fun pa_cleanup :: "real \<Rightarrow> pa_params list \<Rightarrow> pa_params list" where
  "pa_cleanup t (pa # pb # ps) = (if active_print_time pb \<ge> t then pa # pb # ps else pa_cleanup t (pb # ps))"
| "pa_cleanup t ps = ps"

definition extruder_set_pressure_advance ::
  "real \<Rightarrow> real \<Rightarrow> real \<Rightarrow> stepper_kinematics \<Rightarrow> stepper_kinematics option"
where
  "extruder_set_pressure_advance pt padv smooth_time sk =
     (case sk_kin sk of
        Extruder pa_list old_hst inv_hst2 \<Rightarrow>
          let hst = smooth_time * (1 / 2);
              cleanup_time = last_flush_time sk - (if old_hst > hst then old_hst else hst);
              pa_list = pa_cleanup cleanup_time pa_list;
              sk = sk\<lparr>gen_steps_pre_active := hst, gen_steps_post_active := hst\<rparr>
          in if hst = 0 then Some (sk\<lparr>sk_kin := Extruder pa_list hst inv_hst2\<rparr>)
             else if pa_list = [] then None
             else let pa_list = (if pressure_advance (last pa_list) = padv then pa_list
                                 else pa_list @ [\<lparr>pressure_advance = padv, active_print_time = pt\<rparr>])
                  in Some (sk\<lparr>sk_kin := Extruder pa_list hst (1 / (hst * hst))\<rparr>)
      | _ \<Rightarrow> None)"

section \<open>The input shaper\<close>

text \<open>The first pulse with a positive time.\<close>

fun first_positive :: "(real \<times> real) list \<Rightarrow> nat" where
  "first_positive [] = 0"
| "first_positive (p # ps) = (if fst p > 0 then 0 else Suc (first_positive ps))"

definition shift_pulses :: "shaper_pulses \<Rightarrow> shaper_pulses" where
  "shift_pulses sp =
     (let ps = take (num_pulses sp) (pulses sp);
          ts = (\<Sum>(pt, a)\<leftarrow>ps. a * pt);
          ps = map (\<lambda>(pt, a). (pt - ts, a)) ps
      in sp\<lparr>pulses := ps @ drop (num_pulses sp) (pulses sp), p_ind := first_positive ps\<rparr>)"

fun increasing :: "real list \<Rightarrow> bool" where
  "increasing (x # y # xs) \<longleftrightarrow> \<not> x \<ge> y \<and> increasing (y # xs)"
| "increasing xs \<longleftrightarrow> True"

text \<open>The amplitudes and times are arrays of \<open>n\<close> entries; amplitudes with the sum 0 give no numbers.\<close>

definition init_shaper :: "int \<Rightarrow> real list \<Rightarrow> real list \<Rightarrow> shaper_pulses \<Rightarrow> (int \<times> shaper_pulses) option" where
  "init_shaper n a ts sp =
     (if n < 0 \<or> n > 10 then Some (- 1, sp\<lparr>num_pulses := 0\<rparr>)
      else let k = nat n; a = take k a; ts = take k ts in
        if \<not> increasing ts then Some (- 1, sp)
        else if k > 0 \<and> sum_list a = 0 then None
        else let inv_a = 1 / sum_list a;
                 ps = rev (map (\<lambda>(pt, v). (- pt, v * inv_a)) (zip ts a))
             in Some (0, shift_pulses (sp\<lparr>pulses := ps @ drop k (pulses sp), num_pulses := k\<rparr>)))"

definition get_axis_position :: "trap_move \<Rightarrow> axis \<Rightarrow> real \<Rightarrow> real" where
  "get_axis_position m ax move_time =
     coord_axis ax (start_pos m) + coord_axis ax (axes_r m) * move_get_distance m move_time"

fun back_walk :: "trap_move list \<Rightarrow> nat \<Rightarrow> real \<Rightarrow> (nat \<times> real) option" where
  "back_walk ms i t =
     (if t < 0 then case i of 0 \<Rightarrow> None | Suc j \<Rightarrow> back_walk ms j (t + move_t (ms ! j)) else Some (i, t))"

declare back_walk.simps [simp del]

function fwd_walk :: "trap_move list \<Rightarrow> nat \<Rightarrow> real \<Rightarrow> (nat \<times> real) option" where
  "fwd_walk ms i t =
     (if i \<ge> length ms then None
      else if t > move_t (ms ! i) then fwd_walk ms (Suc i) (t - move_t (ms ! i)) else Some (i, t))"
  by pat_completeness auto
termination by (relation "measure (\<lambda>(ms, i, t). length ms - i)") auto

declare fwd_walk.simps [simp del]

fun shaper_loop ::
  "(nat \<Rightarrow> real \<Rightarrow> (nat \<times> real) option) \<Rightarrow> trap_move list \<Rightarrow> axis \<Rightarrow> (real \<times> real) list \<Rightarrow> nat \<Rightarrow> real \<Rightarrow> real \<Rightarrow> real option"
where
  "shaper_loop walk ms ax [] i t res = Some res"
| "shaper_loop walk ms ax ((pt, a) # ps) i t res =
     (case walk i (t + pt) of
        None \<Rightarrow> None
      | Some (i, t) \<Rightarrow> shaper_loop walk ms ax ps i (t - pt) (res + a * get_axis_position (ms ! i) ax t))"

definition shaper_calc_axis :: "trap_move list \<Rightarrow> nat \<Rightarrow> axis \<Rightarrow> real \<Rightarrow> shaper_pulses \<Rightarrow> real option" where
  "shaper_calc_axis ms i ax move_time sp =
     do {
       res \<leftarrow> shaper_loop (back_walk ms) ms ax (rev (take (p_ind sp) (pulses sp))) i move_time 0;
       shaper_loop (fwd_walk ms) ms ax (drop (p_ind sp) (take (num_pulses sp) (pulses sp))) i move_time res }"

section \<open>The callbacks\<close>

abbreviation (input) DUMMY_T :: real where "DUMMY_T \<equiv> 500"

text \<open>The move inside a \<^verbatim>\<open>struct dual_carriage_stepper\<close> or \<^verbatim>\<open>struct input_shaper\<close>.\<close>

definition dummy_move :: "coord \<Rightarrow> trap_move" where
  "dummy_move pos = trapq_move_alloc\<lparr>move_t := 2 * DUMMY_T, start_pos := pos\<rparr>"

definition dual_carriage_coord :: "dual_params \<Rightarrow> trap_move \<Rightarrow> real \<Rightarrow> coord" where
  "dual_carriage_coord dc m move_time =
     (let pos = move_get_coord m move_time
      in \<lparr>cx = cx pos * x_scale dc + x_offs dc, cy = cy pos * y_scale dc + y_offs dc, cz = cz pos\<rparr>)"

text \<open>The position the shaper stores in its move, or none when all pulses are off and the call is passed on.\<close>

definition shaper_x_start :: "shaper_params \<Rightarrow> trap_move list \<Rightarrow> nat \<Rightarrow> real \<Rightarrow> coord option option" where
  "shaper_x_start is ms i move_time =
     (if num_pulses (sp_x is) = 0 then Some None
      else do { v \<leftarrow> shaper_calc_axis ms i X move_time (sp_x is); Some (Some ((sh_start_pos is)\<lparr>cx := v\<rparr>)) })"

definition shaper_y_start :: "shaper_params \<Rightarrow> trap_move list \<Rightarrow> nat \<Rightarrow> real \<Rightarrow> coord option option" where
  "shaper_y_start is ms i move_time =
     (if num_pulses (sp_y is) = 0 then Some None
      else do { v \<leftarrow> shaper_calc_axis ms i Y move_time (sp_y is); Some (Some ((sh_start_pos is)\<lparr>cy := v\<rparr>)) })"

definition shaper_z_start :: "shaper_params \<Rightarrow> trap_move list \<Rightarrow> nat \<Rightarrow> real \<Rightarrow> coord option option" where
  "shaper_z_start is ms i move_time =
     (if num_pulses (sp_z is) = 0 then Some None
      else do { v \<leftarrow> shaper_calc_axis ms i Z move_time (sp_z is); Some (Some ((sh_start_pos is)\<lparr>cz := v\<rparr>)) })"

definition shaper_xyz_start :: "shaper_params \<Rightarrow> trap_move list \<Rightarrow> nat \<Rightarrow> real \<Rightarrow> coord option option" where
  "shaper_xyz_start is ms i move_time =
     (if num_pulses (sp_x is) = 0 \<and> num_pulses (sp_y is) = 0 \<and> num_pulses (sp_z is) = 0 then Some None
      else do {
        let c = move_get_coord (ms ! i) move_time;
        x \<leftarrow> (if num_pulses (sp_x is) \<noteq> 0 then shaper_calc_axis ms i X move_time (sp_x is) else Some (cx c));
        y \<leftarrow> (if num_pulses (sp_y is) \<noteq> 0 then shaper_calc_axis ms i Y move_time (sp_y is) else Some (cy c));
        z \<leftarrow> (if num_pulses (sp_z is) \<noteq> 0 then shaper_calc_axis ms i Z move_time (sp_z is) else Some (cz c));
        Some (Some \<lparr>cx = x, cy = y, cz = z\<rparr>) })"

fun shaper_start :: "shaper_cb \<Rightarrow> shaper_params \<Rightarrow> trap_move list \<Rightarrow> nat \<Rightarrow> real \<Rightarrow> coord option option" where
  "shaper_start Shaper_none is ms i move_time = None"
| "shaper_start Shaper_x is ms i move_time = shaper_x_start is ms i move_time"
| "shaper_start Shaper_y is ms i move_time = shaper_y_start is ms i move_time"
| "shaper_start Shaper_z is ms i move_time = shaper_z_start is ms i move_time"
| "shaper_start Shaper_xyz is ms i move_time = shaper_xyz_start is ms i move_time"

text \<open>
  The call \<^verbatim>\<open>sk->calc_position_cb(sk, m, move_time)\<close> for the move \<open>ms ! i\<close>, where \<open>pos\<close> is
  \<^verbatim>\<open>sk->commanded_pos\<close>.
\<close>

fun calc_position_cb :: "kinematics \<Rightarrow> real \<Rightarrow> trap_move list \<Rightarrow> nat \<Rightarrow> real \<Rightarrow> (real \<times> kinematics) option" where
  "calc_position_cb (Dual_carriage dc (Orig fl op po k)) pos ms i t =
     do {
       (p, k) \<leftarrow> calc_position_cb k op [dummy_move (dual_carriage_coord dc (ms ! i) t)] 0 DUMMY_T;
       Some (p, Dual_carriage dc (Orig fl op po k)) }"
| "calc_position_cb (Shaper cb is (Orig fl op po k)) pos ms i t =
     (case shaper_start cb is ms i t of
        None \<Rightarrow> None
      | Some None \<Rightarrow>
          do { (p, k) \<leftarrow> calc_position_cb k op ms i t; Some (p, Shaper cb is (Orig fl op po k)) }
      | Some (Some c) \<Rightarrow>
          do {
            (p, k) \<leftarrow> calc_position_cb k op [dummy_move c] 0 DUMMY_T;
            Some (p, Shaper cb (is\<lparr>sh_start_pos := c\<rparr>) (Orig fl op po k)) })"
| "calc_position_cb k pos ms i t =
     do {
       p \<leftarrow> (case k of
               Cart ax \<Rightarrow> Some (cart_stepper_calc_position ax (ms ! i) t)
             | Corexy_plus \<Rightarrow> Some (corexy_stepper_plus_calc_position (ms ! i) t)
             | Corexy_minus \<Rightarrow> Some (corexy_stepper_minus_calc_position (ms ! i) t)
             | Corexz_plus \<Rightarrow> Some (corexz_stepper_plus_calc_position (ms ! i) t)
             | Corexz_minus \<Rightarrow> Some (corexz_stepper_minus_calc_position (ms ! i) t)
             | Delta arm2 tx ty \<Rightarrow> delta_stepper_calc_position arm2 tx ty (ms ! i) t
             | Deltesian arm2 ax \<Rightarrow> deltesian_stepper_calc_position arm2 ax (ms ! i) t
             | Polar_radius \<Rightarrow> Some (polar_stepper_radius_calc_position (ms ! i) t)
             | Polar_angle \<Rightarrow> Some (polar_stepper_angle_calc_position pos (ms ! i) t)
             | Rotary rs \<Rightarrow> rotary_stepper_calc_position rs (ms ! i) t
             | Winch anchor \<Rightarrow> Some (winch_stepper_calc_position anchor (ms ! i) t)
             | Generic_cartesian a \<Rightarrow> Some (generic_cartesian_stepper_calc_position a (ms ! i) t)
             | Extruder pl hst inv2 \<Rightarrow> extruder_calc_position pl hst inv2 ms i t
             | _ \<Rightarrow> None);
       Some (p, k) }"

text \<open>The call \<^verbatim>\<open>sk->post_cb(sk)\<close>: the new \<^verbatim>\<open>commanded_pos\<close>.\<close>

fun run_post_cb :: "post_cb \<Rightarrow> kinematics \<Rightarrow> real \<Rightarrow> (real \<times> kinematics) option" where
  "run_post_cb Polar_angle_fixup k pos = Some (polar_stepper_angle_post_fixup pos, k)"
| "run_post_cb Shaper_fixup (Shaper cb is (Orig fl op po k)) pos =
     do { (p, k) \<leftarrow> run_post_cb po k pos; Some (p, Shaper cb is (Orig fl p po k)) }"
| "run_post_cb _ k pos = None"

section \<open>Allocation and settings\<close>

definition cartesian_stepper_alloc :: "char \<Rightarrow> stepper_kinematics" where
  "cartesian_stepper_alloc ax =
     (if ax = CHR ''x'' then sk_zero\<lparr>sk_kin := Cart X, active_flags := AF_X\<rparr>
      else if ax = CHR ''y'' then sk_zero\<lparr>sk_kin := Cart Y, active_flags := AF_Y\<rparr>
      else if ax = CHR ''z'' then sk_zero\<lparr>sk_kin := Cart Z, active_flags := AF_Z\<rparr>
      else sk_zero)"

definition corexy_stepper_alloc :: "char \<Rightarrow> stepper_kinematics" where
  "corexy_stepper_alloc ty =
     sk_zero\<lparr>sk_kin := (if ty = CHR ''+'' then Corexy_plus else if ty = CHR ''-'' then Corexy_minus else Kin_null),
       active_flags := AF_X OR AF_Y\<rparr>"

definition corexz_stepper_alloc :: "char \<Rightarrow> stepper_kinematics" where
  "corexz_stepper_alloc ty =
     sk_zero\<lparr>sk_kin := (if ty = CHR ''+'' then Corexz_plus else if ty = CHR ''-'' then Corexz_minus else Kin_null),
       active_flags := AF_X OR AF_Z\<rparr>"

definition delta_stepper_alloc :: "real \<Rightarrow> real \<Rightarrow> real \<Rightarrow> stepper_kinematics" where
  "delta_stepper_alloc arm2 tx ty = sk_zero\<lparr>sk_kin := Delta arm2 tx ty, active_flags := AF_X OR AF_Y OR AF_Z\<rparr>"

definition deltesian_stepper_alloc :: "real \<Rightarrow> real \<Rightarrow> stepper_kinematics" where
  "deltesian_stepper_alloc arm2 ax = sk_zero\<lparr>sk_kin := Deltesian arm2 ax, active_flags := AF_X OR AF_Z\<rparr>"

definition polar_stepper_alloc :: "char \<Rightarrow> stepper_kinematics" where
  "polar_stepper_alloc ty =
     (if ty = CHR ''r'' then sk_zero\<lparr>sk_kin := Polar_radius, active_flags := AF_X OR AF_Y\<rparr>
      else if ty = CHR ''a''
      then sk_zero\<lparr>sk_kin := Polar_angle, sk_post := Polar_angle_fixup, active_flags := AF_X OR AF_Y\<rparr>
      else sk_zero\<lparr>active_flags := AF_X OR AF_Y\<rparr>)"

definition rotary_delta_stepper_alloc :: "real \<Rightarrow> real \<Rightarrow> real \<Rightarrow> real \<Rightarrow> real \<Rightarrow> stepper_kinematics" where
  "rotary_delta_stepper_alloc sr sh angle upper_arm lower_arm =
     sk_zero\<lparr>sk_kin := Rotary \<lparr>rs_cos = cos angle, rs_sin = sin angle, shoulder_radius = sr, shoulder_height = sh,
         upper_arm2 = upper_arm * upper_arm, lower_arm2 = lower_arm * lower_arm\<rparr>,
       active_flags := AF_X OR AF_Y OR AF_Z\<rparr>"

definition winch_stepper_alloc :: "coord \<Rightarrow> stepper_kinematics" where
  "winch_stepper_alloc anchor = sk_zero\<lparr>sk_kin := Winch anchor, active_flags := AF_X OR AF_Y OR AF_Z\<rparr>"

definition generic_cartesian_stepper_set_coeffs :: "coord \<Rightarrow> stepper_kinematics \<Rightarrow> stepper_kinematics" where
  "generic_cartesian_stepper_set_coeffs a sk =
     sk\<lparr>sk_kin := Generic_cartesian a,
       active_flags := (if cx a \<noteq> 0 then AF_X else 0) OR (if cy a \<noteq> 0 then AF_Y else 0) OR
         (if cz a \<noteq> 0 then AF_Z else 0)\<rparr>"

definition generic_cartesian_stepper_alloc :: "coord \<Rightarrow> stepper_kinematics" where
  "generic_cartesian_stepper_alloc a = generic_cartesian_stepper_set_coeffs a sk_zero"

definition extruder_stepper_alloc :: stepper_kinematics where
  "extruder_stepper_alloc =
     sk_zero\<lparr>sk_kin := Extruder [\<lparr>pressure_advance = 0, active_print_time = 0\<rparr>] 0 0, active_flags := AF_X\<rparr>"

text \<open>The parameters that are freed; the stepper itself is freed with them.\<close>

definition extruder_stepper_free :: "stepper_kinematics \<Rightarrow> pa_params list" where
  "extruder_stepper_free sk = (case sk_kin sk of Extruder pa_list hst inv2 \<Rightarrow> pa_list | _ \<Rightarrow> [])"

section \<open>Dual carriages\<close>

definition orig_of :: "stepper_kinematics \<Rightarrow> orig_sk" where
  "orig_of sk = Orig (active_flags sk) (commanded_pos sk) (sk_post sk) (sk_kin sk)"

definition dual_carriage_alloc :: stepper_kinematics where
  "dual_carriage_alloc = sk_zero\<lparr>sk_kin := Dual_null \<lparr>x_scale = 1, x_offs = 0, y_scale = 1, y_offs = 0\<rparr>\<rparr>"

definition dual_carriage_set_sk :: "stepper_kinematics \<Rightarrow> stepper_kinematics \<Rightarrow> stepper_kinematics option" where
  "dual_carriage_set_sk orig sk =
     (case sk_kin sk of
        Dual_null dc \<Rightarrow> Some (sk\<lparr>sk_kin := Dual_carriage dc (orig_of orig), active_flags := active_flags orig\<rparr>)
      | Dual_carriage dc old \<Rightarrow> Some (sk\<lparr>sk_kin := Dual_carriage dc (orig_of orig), active_flags := active_flags orig\<rparr>)
      | _ \<Rightarrow> None)"

definition transform_flags :: "u32 \<Rightarrow> real \<Rightarrow> u32 \<Rightarrow> u32 \<Rightarrow> u32" where
  "transform_flags af scale orig fl =
     (if scale = 0 then fl AND NOT af else if orig AND af \<noteq> 0 then fl OR af else fl)"

definition dual_carriage_set_transform ::
  "char \<Rightarrow> real \<Rightarrow> real \<Rightarrow> stepper_kinematics \<Rightarrow> (int \<times> stepper_kinematics) option"
where
  "dual_carriage_set_transform ax scale offs sk =
     (case sk_kin sk of
        Dual_carriage dc orig \<Rightarrow>
          if ax = CHR ''x''
          then Some (0, sk\<lparr>sk_kin := Dual_carriage (dc\<lparr>x_scale := scale, x_offs := offs\<rparr>) orig,
                 active_flags := transform_flags AF_X scale (o_flags orig) (active_flags sk)\<rparr>)
          else if ax = CHR ''y''
          then Some (0, sk\<lparr>sk_kin := Dual_carriage (dc\<lparr>y_scale := scale, y_offs := offs\<rparr>) orig,
                 active_flags := transform_flags AF_Y scale (o_flags orig) (active_flags sk)\<rparr>)
          else Some (- 1, sk)
      | Dual_null dc \<Rightarrow>
          if ax = CHR ''x''
          then if scale \<noteq> 0 then None
               else Some (0, sk\<lparr>sk_kin := Dual_null (dc\<lparr>x_scale := scale, x_offs := offs\<rparr>),
                      active_flags := active_flags sk AND NOT AF_X\<rparr>)
          else if ax = CHR ''y''
          then if scale \<noteq> 0 then None
               else Some (0, sk\<lparr>sk_kin := Dual_null (dc\<lparr>y_scale := scale, y_offs := offs\<rparr>),
                      active_flags := active_flags sk AND NOT AF_Y\<rparr>)
          else Some (- 1, sk)
      | _ \<Rightarrow> None)"

section \<open>Shaper settings\<close>

definition zero_pulses :: shaper_pulses where
  "zero_pulses = \<lparr>num_pulses = 0, p_ind = 0, pulses = replicate 10 (0, 0)\<rparr>"

definition input_shaper_alloc :: stepper_kinematics where
  "input_shaper_alloc =
     sk_zero\<lparr>sk_kin := Shaper_null \<lparr>sh_start_pos = coord0, sp_x = zero_pulses, sp_y = zero_pulses, sp_z = zero_pulses\<rparr>\<rparr>"

text \<open>One axis of \<^verbatim>\<open>shaper_note_generation_time\<close>.\<close>

definition note_axis :: "bool \<Rightarrow> shaper_pulses \<Rightarrow> real \<times> real \<Rightarrow> real \<times> real" where
  "note_axis active sp pp =
     (if active \<and> num_pulses sp \<noteq> 0
      then let last_t = fst (pulses sp ! (num_pulses sp - 1)); first_t = - fst (pulses sp ! 0)
           in (if last_t > fst pp then last_t else fst pp, if first_t > snd pp then first_t else snd pp)
      else pp)"

definition shaper_note_generation_time :: "shaper_params \<Rightarrow> stepper_kinematics \<Rightarrow> stepper_kinematics" where
  "shaper_note_generation_time is sk =
     (let fl = active_flags sk;
          pp = (if fl AND AF_X \<noteq> 0 \<and> num_pulses (sp_x is) \<noteq> 0
                then (fst (pulses (sp_x is) ! (num_pulses (sp_x is) - 1)), - fst (pulses (sp_x is) ! 0)) else (0, 0));
          pp = note_axis (fl AND AF_Y \<noteq> 0) (sp_y is) pp;
          pp = note_axis (fl AND AF_Z \<noteq> 0) (sp_z is) pp
      in sk\<lparr>gen_steps_pre_active := fst pp, gen_steps_post_active := snd pp\<rparr>)"

definition shaper_cb_of :: "u32 \<Rightarrow> shaper_cb" where
  "shaper_cb_of fl =
     (if fl = AF_X then Shaper_x else if fl = AF_Y then Shaper_y else if fl = AF_Z then Shaper_z else Shaper_xyz)"

definition input_shaper_update_sk :: "stepper_kinematics \<Rightarrow> stepper_kinematics option" where
  "input_shaper_update_sk sk =
     (case sk_kin sk of
        Shaper cb is orig \<Rightarrow>
          let kin_flags = o_flags orig AND (AF_X OR AF_Y OR AF_Z)
          in Some (shaper_note_generation_time is
               (sk\<lparr>sk_kin := Shaper (shaper_cb_of kin_flags) is orig, active_flags := o_flags orig\<rparr>))
      | _ \<Rightarrow> None)"

definition shaper_wrap :: "shaper_params \<Rightarrow> stepper_kinematics \<Rightarrow> stepper_kinematics \<Rightarrow> int \<times> stepper_kinematics" where
  "shaper_wrap is orig sk =
     (let fl = active_flags orig in
      if fl \<noteq> AF_X \<and> fl \<noteq> AF_Y \<and> fl \<noteq> AF_Z \<and> fl AND (AF_X OR AF_Y OR AF_Z) = 0 then (- 1, sk)
      else let sk = sk\<lparr>sk_kin := Shaper (shaper_cb_of fl) is (orig_of orig), active_flags := fl,
                   commanded_pos := commanded_pos orig, last_flush_time := last_flush_time orig,
                   last_move_time := last_move_time orig\<rparr>
           in (0, if sk_post orig \<noteq> No_post then sk\<lparr>sk_post := Shaper_fixup\<rparr> else sk))"

definition input_shaper_set_sk :: "stepper_kinematics \<Rightarrow> stepper_kinematics \<Rightarrow> (int \<times> stepper_kinematics) option" where
  "input_shaper_set_sk orig sk =
     (case sk_kin sk of
        Shaper_null is \<Rightarrow> Some (shaper_wrap is orig sk)
      | Shaper cb is old \<Rightarrow> Some (shaper_wrap is orig sk)
      | _ \<Rightarrow> None)"

definition input_shaper_set_shaper_params ::
  "char \<Rightarrow> int \<Rightarrow> real list \<Rightarrow> real list \<Rightarrow> stepper_kinematics \<Rightarrow> (int \<times> stepper_kinematics) option"
where
  "input_shaper_set_shaper_params ax n a ts sk =
     (if ax \<noteq> CHR ''x'' \<and> ax \<noteq> CHR ''y'' \<and> ax \<noteq> CHR ''z'' then Some (- 1, sk)
      else case sk_kin sk of
        Shaper cb is orig \<Rightarrow>
          let fl = (if ax = CHR ''x'' then AF_X else if ax = CHR ''y'' then AF_Y else AF_Z);
              sp = (if ax = CHR ''x'' then sp_x is else if ax = CHR ''y'' then sp_y is else sp_z is)
          in if o_flags orig AND fl = 0 then Some (0, sk)
             else do {
               (status, sp) \<leftarrow> init_shaper n a ts sp;
               let is = (if ax = CHR ''x'' then is\<lparr>sp_x := sp\<rparr> else if ax = CHR ''y'' then is\<lparr>sp_y := sp\<rparr>
                         else is\<lparr>sp_z := sp\<rparr>);
               Some (status, shaper_note_generation_time is (sk\<lparr>sk_kin := Shaper cb is orig\<rparr>)) }
      | _ \<Rightarrow> None)"

end
