(* ===== verification/Itersolve.thy ===== *)
theory Itersolve
  imports Kinematics Stepcompress
begin

text \<open>
  The iterative solver of the host (\<^verbatim>\<open>src/klippy/chelper/itersolve.c\<close>): it searches the times at
  which a stepper passes the middle between two steps and hands them to the step compression. The
  pointer to a move is its index in the list of moves, sentinels included. The search for a step
  is a loop that need not end for an arbitrary function of time, so it has a result only if it ends;
  a division by 0 gives a time that fails the comparison with the bounds.
\<close>

section \<open>The search\<close>

record solver =
  gs_time :: real          \<comment> \<open>\<^verbatim>\<open>guess\<close>\<close>
  gs_pos :: real
  og_time :: real          \<comment> \<open>\<^verbatim>\<open>old_guess\<close>\<close>
  og_pos :: real
  sv_sdir :: int
  is_dir_change :: bool
  have_bracket :: bool
  check_oscillate :: bool
  target :: real
  last_time :: real
  low_time :: real
  high_time :: real

abbreviation (input) SEEK_TIME_RESET :: real where "SEEK_TIME_RESET \<equiv> 1 / 10000"
abbreviation (input) NANO :: real where "NANO \<equiv> 1 / 1000000000"

text \<open>The next time to look at; none when the range holds no further step.\<close>

definition next_guess :: "real \<Rightarrow> solver \<Rightarrow> (real \<times> solver) option" where
  "next_guess end_t sv =
     (let guess_dist = gs_pos sv - target sv; og_dist = og_pos sv - target sv;
          next_time = (og_time sv * guess_dist - gs_time sv * og_dist) / (guess_dist - og_dist)
      in if guess_dist - og_dist \<noteq> 0 \<and> next_time > low_time sv \<and> next_time < high_time sv then Some (next_time, sv)
         else if have_bracket sv then Some ((low_time sv + high_time sv) * (1 / 2), sv\<lparr>check_oscillate := False\<rparr>)
         else if gs_time sv \<ge> end_t then None
         else let high = 2 * high_time sv - last_time sv
              in Some (high_time sv, sv\<lparr>high_time := (if high > end_t then end_t else high)\<rparr>))"

definition set_guess :: "real \<Rightarrow> real \<Rightarrow> solver \<Rightarrow> solver" where
  "set_guess t p sv = sv\<lparr>og_time := gs_time sv, og_pos := gs_pos sv, gs_time := t, gs_pos := p\<rparr>"

text \<open>The new bounds after a guess that is not close to the target.\<close>

definition update_bounds :: "real \<Rightarrow> real \<Rightarrow> solver \<Rightarrow> solver" where
  "update_bounds half_step rel_dist sv =
     (if rel_dist > 0
      then let sv = (if have_bracket sv \<and> og_time sv \<le> low_time sv
                     then (if check_oscillate sv then sv\<lparr>og_time := gs_time sv, og_pos := gs_pos sv\<rparr> else sv)
                            \<lparr>check_oscillate := True\<rparr>
                     else sv)
           in sv\<lparr>high_time := gs_time sv, have_bracket := True\<rparr>
      else if rel_dist < - (half_step + half_step + 1 / 100000000)
      then let d = (if sv_sdir sv = 0 then 1 else 0)
           in sv\<lparr>sv_sdir := d,
                target := (if d \<noteq> 0 then target sv + half_step + half_step else target sv - half_step - half_step),
                low_time := last_time sv, high_time := gs_time sv, is_dir_change := True, have_bracket := True,
                check_oscillate := False\<rparr>
      else sv\<lparr>low_time := gs_time sv\<rparr>)"

text \<open>What to do with a guess: submit it, or continue, after a commit or without.\<close>

datatype verdict = Submit | Continue bool

definition judge_guess :: "real \<Rightarrow> solver \<Rightarrow> verdict \<times> solver" where
  "judge_guess half_step sv =
     (let guess_dist = gs_pos sv - target sv in
      if \<bar>guess_dist\<bar> > NANO
      then let rel_dist = (if sv_sdir sv \<noteq> 0 then guess_dist else - guess_dist);
               sv = update_bounds half_step rel_dist sv
           in if \<not> have_bracket sv \<or> high_time sv - low_time sv > NANO
              then (Continue (\<not> is_dir_change sv \<and> rel_dist \<ge> - half_step), sv)
              else (Submit, sv)
      else (Submit, sv))"

text \<open>The reset of the bounds after a step.\<close>

definition after_step :: "real \<Rightarrow> real \<Rightarrow> solver \<Rightarrow> solver" where
  "after_step half_step end_t sv =
     (let delta = 3 / 2 * (gs_time sv - last_time sv);
          delta = (if delta < NANO then NANO else delta);
          delta = (if is_dir_change sv \<and> delta > SEEK_TIME_RESET then SEEK_TIME_RESET else delta);
          high = gs_time sv + delta
      in sv\<lparr>target := (if sv_sdir sv \<noteq> 0 then target sv + half_step + half_step else target sv - half_step - half_step),
           last_time := gs_time sv, low_time := gs_time sv, high_time := (if high > end_t then end_t else high),
           is_dir_change := False, have_bracket := False, check_oscillate := False\<rparr>)"

text \<open>Sequencing for computations that may not end.\<close>

definition obind :: "('a, 's) outcome option \<Rightarrow> ('a \<Rightarrow> 's \<Rightarrow> ('b, 's) outcome option) \<Rightarrow> ('b, 's) outcome option" where
  "obind r f =
     (case r of None \<Rightarrow> None | Some (Ok a s) \<Rightarrow> f a s | Some (Shutdown m s) \<Rightarrow> Some (Shutdown m s) | Some Fault \<Rightarrow> Some Fault)"

lemma obind_simps [simp]:
  "obind None f = None" "obind (Some (Ok a s)) f = f a s" "obind (Some (Shutdown m s)) f = Some (Shutdown m s)"
  "obind (Some Fault) f = Some Fault"
  by (simp_all add: obind_def)

text \<open>
  The loop of \<^verbatim>\<open>itersolve_gen_steps_range\<close> for the move \<open>ms ! i\<close>; \<open>pos\<close> is \<^verbatim>\<open>sk->commanded_pos\<close>. The
  result of \<^verbatim>\<open>stepcompress_commit\<close> is not looked at.
\<close>

partial_function (option) solve_loop ::
  "real \<Rightarrow> trap_move list \<Rightarrow> nat \<Rightarrow> real \<Rightarrow> real \<Rightarrow> solver \<Rightarrow> kinematics \<Rightarrow> stepcompress \<Rightarrow>
     (int \<times> solver \<times> kinematics, stepcompress) outcome option"
where
  "solve_loop pos ms i end_t half_step sv k sc =
     (case next_guess end_t sv of
        None \<Rightarrow> Some (Ok (0, sv, k) sc)
      | Some (t, sv) \<Rightarrow>
          (case calc_position_cb k pos ms i t of
             None \<Rightarrow> Some Fault
           | Some (p, k) \<Rightarrow>
               (case judge_guess half_step (set_guess t p sv) of
                  (Continue commit, sv) \<Rightarrow>
                    (case (if commit then stepcompress_commit sc else Ok 0 sc) of
                       Ok ret sc \<Rightarrow> solve_loop pos ms i end_t half_step sv k sc
                     | Shutdown m s \<Rightarrow> Some (Shutdown m s)
                     | Fault \<Rightarrow> Some Fault)
                | (Submit, sv) \<Rightarrow>
                    (case stepcompress_append (sv_sdir sv) (print_time (ms ! i)) (gs_time sv) sc of
                       Ok ret sc \<Rightarrow>
                         if ret \<noteq> 0 then Some (Ok (ret, sv, k) sc)
                         else solve_loop pos ms i end_t half_step (after_step half_step end_t sv) k sc
                     | Shutdown m s \<Rightarrow> Some (Shutdown m s)
                     | Fault \<Rightarrow> Some Fault))))"

text \<open>The part of the move the range covers.\<close>

definition range_start :: "trap_move \<Rightarrow> real \<Rightarrow> real" where
  "range_start m abs_start = (let start = abs_start - print_time m in if start < 0 then 0 else start)"

definition range_end :: "trap_move \<Rightarrow> real \<Rightarrow> real" where
  "range_end m abs_end = (let end_t = abs_end - print_time m in if end_t > move_t m then move_t m else end_t)"

definition solver_init :: "real \<Rightarrow> real \<Rightarrow> real \<Rightarrow> real \<Rightarrow> int \<Rightarrow> solver" where
  "solver_init start end_t pos half_step sdir0 =
     \<lparr>gs_time = start, gs_pos = pos, og_time = start, og_pos = pos, sv_sdir = sdir0, is_dir_change = False,
      have_bracket = False, check_oscillate = False, target = pos + (if sdir0 \<noteq> 0 then half_step else - half_step),
      last_time = start, low_time = start,
      high_time = (if start + SEEK_TIME_RESET > end_t then end_t else start + SEEK_TIME_RESET)\<rparr>"

definition itersolve_gen_steps_range ::
  "trap_move list \<Rightarrow> nat \<Rightarrow> real \<Rightarrow> real \<Rightarrow> stepper_kinematics \<Rightarrow> stepcompress \<Rightarrow>
     (int \<times> stepper_kinematics, stepcompress) outcome option"
where
  "itersolve_gen_steps_range ms i abs_start abs_end sk sc =
     (let m = ms ! i; half_step = 1 / 2 * step_dist sk;
          start = range_start m abs_start; end_t = range_end m abs_end
      in obind (solve_loop (commanded_pos sk) ms i end_t half_step
                  (solver_init start end_t (commanded_pos sk) half_step (stepcompress_get_step_dir sc)) (sk_kin sk) sc)
           (\<lambda>(ret, sv, k) sc.
              if ret \<noteq> 0 then Some (Ok (ret, sk\<lparr>sk_kin := k\<rparr>) sc)
              else let pos = target sv - (if sv_sdir sv \<noteq> 0 then half_step else - half_step)
                   in if sk_post sk = No_post then Some (Ok (0, sk\<lparr>sk_kin := k, commanded_pos := pos\<rparr>) sc)
                      else case run_post_cb (sk_post sk) k pos of
                        None \<Rightarrow> Some Fault
                      | Some (pos, k) \<Rightarrow> Some (Ok (0, sk\<lparr>sk_kin := k, commanded_pos := pos\<rparr>) sc)))"

section \<open>The interface\<close>

definition check_active :: "stepper_kinematics \<Rightarrow> trap_move \<Rightarrow> bool" where
  "check_active sk m \<longleftrightarrow>
     (let af = active_flags sk in
      af AND AF_X \<noteq> 0 \<and> cx (axes_r m) \<noteq> 0 \<or> af AND AF_Y \<noteq> 0 \<and> cy (axes_r m) \<noteq> 0 \<or>
      af AND AF_Z \<noteq> 0 \<and> cz (axes_r m) \<noteq> 0)"

text \<open>The first move from index \<open>i\<close> on that ends after \<open>t\<close>.\<close>

function skip_moves :: "real \<Rightarrow> trap_move list \<Rightarrow> nat \<Rightarrow> nat option" where
  "skip_moves t ms i =
     (if i \<ge> length ms then None else if t \<ge> move_end (ms ! i) then skip_moves t ms (Suc i) else Some i)"
  by pat_completeness auto
termination by (relation "measure (\<lambda>(t, ms, i). length ms - i)") auto

declare skip_moves.simps [simp del]

text \<open>Going back over skipped moves that start after \<open>abs_start\<close>.\<close>

fun pre_back :: "trap_move list \<Rightarrow> real \<Rightarrow> nat \<Rightarrow> nat \<Rightarrow> nat option" where
  "pre_back ms abs_start 0 pm = None"
| "pre_back ms abs_start (Suc skip_count) pm =
     (if skip_count \<noteq> 0 \<and> print_time (ms ! pm) > abs_start
      then case pm of 0 \<Rightarrow> None | Suc p \<Rightarrow> pre_back ms abs_start skip_count p
      else Some pm)"

fun range_loop ::
  "trap_move list \<Rightarrow> real \<Rightarrow> real \<Rightarrow> nat list \<Rightarrow> stepper_kinematics \<Rightarrow> stepcompress \<Rightarrow>
     (int \<times> stepper_kinematics, stepcompress) outcome option"
where
  "range_loop ms abs_start abs_end [] sk sc = Some (Ok (0, sk) sc)"
| "range_loop ms abs_start abs_end (i # is) sk sc =
     obind (itersolve_gen_steps_range ms i abs_start abs_end sk sc)
       (\<lambda>(ret, sk) sc. if ret \<noteq> 0 then Some (Ok (ret, sk) sc) else range_loop ms abs_start abs_end is sk sc)"

text \<open>The steps leading up to activity, in the moves before \<open>ms ! i\<close>.\<close>

definition pre_steps ::
  "trap_move list \<Rightarrow> nat \<Rightarrow> real \<Rightarrow> real \<Rightarrow> real \<Rightarrow> nat \<Rightarrow> stepper_kinematics \<Rightarrow> stepcompress \<Rightarrow>
     (int \<times> stepper_kinematics, stepcompress) outcome option"
where
  "pre_steps ms i last_flush flush_time force_steps_time skip_count sk sc =
     (let abs_start = print_time (ms ! i) - gen_steps_pre_active sk;
          abs_start = (if abs_start < last_flush then last_flush else abs_start);
          abs_start = (if abs_start < force_steps_time then force_steps_time else abs_start)
      in if i = 0 then Some Fault
         else case pre_back ms abs_start skip_count (i - 1) of
           None \<Rightarrow> Some Fault
         | Some pm \<Rightarrow> range_loop ms abs_start flush_time [pm..<i] sk sc)"

function generate_loop ::
  "real \<Rightarrow> real \<Rightarrow> trap_move list \<Rightarrow> nat \<Rightarrow> nat \<Rightarrow> real \<Rightarrow> stepper_kinematics \<Rightarrow> stepcompress \<Rightarrow>
     (int \<times> stepper_kinematics, stepcompress) outcome option"
where
  "generate_loop last_flush flush_time ms i skip_count force_steps_time sk sc =
     (if i \<ge> length ms then Some Fault
      else let m = ms ! i in
        if check_active sk m
        then obind (if skip_count \<noteq> 0 \<and> gen_steps_pre_active sk \<noteq> 0
                    then pre_steps ms i last_flush flush_time force_steps_time skip_count sk sc
                    else Some (Ok (0, sk) sc))
               (\<lambda>(ret, sk) sc.
                  if ret \<noteq> 0 then Some (Ok (ret, sk) sc)
                  else obind (itersolve_gen_steps_range ms i last_flush flush_time sk sc)
                    (\<lambda>(ret, sk) sc.
                       if ret \<noteq> 0 then Some (Ok (ret, sk) sc)
                       else if move_end m \<ge> flush_time then Some (Ok (0, sk\<lparr>last_move_time := flush_time\<rparr>) sc)
                       else let sk = sk\<lparr>last_move_time := move_end m\<rparr>
                            in generate_loop last_flush flush_time ms (Suc i) 0
                                 (last_move_time sk + gen_steps_post_active sk) sk sc))
        else obind (if print_time m < force_steps_time
                    then itersolve_gen_steps_range ms i last_flush
                           (if force_steps_time > flush_time then flush_time else force_steps_time) sk sc
                    else Some (Ok (0, sk) sc))
               (\<lambda>(ret, sk) sc.
                  if ret \<noteq> 0 then Some (Ok (ret, sk) sc)
                  else if flush_time + gen_steps_pre_active sk \<le> move_end m then Some (Ok (0, sk) sc)
                  else generate_loop last_flush flush_time ms (Suc i)
                         (if print_time m < force_steps_time then 1 else Suc skip_count) force_steps_time sk sc))"
  by pat_completeness auto
termination by (relation "measure (\<lambda>(lf, ft, ms, i, sc, f, sk, c). length ms - i)") auto

declare generate_loop.simps [simp del]

text \<open>The moves are those of \<^verbatim>\<open>*sk->tq\<close>, if the stepper has one.\<close>

definition itersolve_generate_steps ::
  "trap_move list option \<Rightarrow> real \<Rightarrow> stepper_kinematics \<Rightarrow> stepcompress \<Rightarrow>
     (int \<times> stepper_kinematics, stepcompress) outcome option"
where
  "itersolve_generate_steps tq flush_time sk sc =
     (let last_flush = last_flush_time sk; sk = sk\<lparr>last_flush_time := flush_time\<rparr> in
      case tq of
        None \<Rightarrow> Some (Ok (0, sk) sc)
      | Some ms \<Rightarrow>
          (case skip_moves last_flush ms 0 of
             None \<Rightarrow> Some Fault
           | Some i \<Rightarrow>
               generate_loop last_flush flush_time ms i 0 (last_move_time sk + gen_steps_post_active sk) sk sc))"

text \<open>The loop of \<^verbatim>\<open>itersolve_check_active\<close>.\<close>

function active_loop :: "stepper_kinematics \<Rightarrow> real \<Rightarrow> trap_move list \<Rightarrow> nat \<Rightarrow> real option" where
  "active_loop sk flush_time ms i =
     (if i \<ge> length ms then None
      else if check_active sk (ms ! i) then Some (print_time (ms ! i))
      else if flush_time \<le> move_end (ms ! i) then Some 0
      else active_loop sk flush_time ms (Suc i))"
  by pat_completeness auto
termination by (relation "measure (\<lambda>(sk, ft, ms, i). length ms - i)") auto

declare active_loop.simps [simp del]

definition itersolve_check_active :: "stepper_kinematics \<Rightarrow> trapq option \<Rightarrow> real \<Rightarrow> (real \<times> trapq option) option" where
  "itersolve_check_active sk tq flush_time =
     (case tq of
        None \<Rightarrow> Some (0, None)
      | Some q \<Rightarrow>
          let q = trapq_check_sentinels q in
          case skip_moves (last_flush_time sk) (tq_moves q) 0 of
            None \<Rightarrow> None
          | Some i \<Rightarrow> map_option (\<lambda>r. (r, Some q)) (active_loop sk flush_time (tq_moves q) i))"

definition itersolve_is_active_axis :: "stepper_kinematics \<Rightarrow> char \<Rightarrow> int" where
  "itersolve_is_active_axis sk ax =
     (let a = of_char ax :: int in
      if a < 120 \<or> a > 122 then 0 else of_bool (active_flags sk AND push_bit (nat (a - 120)) AF_X \<noteq> 0))"

definition itersolve_set_trapq :: "nat option \<Rightarrow> real \<Rightarrow> stepper_kinematics \<Rightarrow> stepper_kinematics" where
  "itersolve_set_trapq tq sd sk = sk\<lparr>sk_tq := tq, step_dist := sd\<rparr>"

definition itersolve_get_trapq :: "stepper_kinematics \<Rightarrow> nat option" where
  "itersolve_get_trapq sk = sk_tq sk"

definition itersolve_calc_position_from_coord :: "coord \<Rightarrow> stepper_kinematics \<Rightarrow> (real \<times> stepper_kinematics) option" where
  "itersolve_calc_position_from_coord c sk =
     (let m = trapq_move_alloc\<lparr>start_pos := c, move_t := 1000\<rparr>
      in do {
           (p, k) \<leftarrow> calc_position_cb (sk_kin sk) (commanded_pos sk) [m] 0 500;
           Some (p, sk\<lparr>sk_kin := k\<rparr>) })"

definition itersolve_set_position :: "coord \<Rightarrow> stepper_kinematics \<Rightarrow> stepper_kinematics option" where
  "itersolve_set_position c sk =
     do { (p, sk) \<leftarrow> itersolve_calc_position_from_coord c sk; Some (sk\<lparr>commanded_pos := p\<rparr>) }"

definition itersolve_get_commanded_pos :: "stepper_kinematics \<Rightarrow> real" where
  "itersolve_get_commanded_pos sk = commanded_pos sk"

definition itersolve_get_gen_steps_pre_active :: "stepper_kinematics \<Rightarrow> real" where
  "itersolve_get_gen_steps_pre_active sk = gen_steps_pre_active sk"

definition itersolve_get_gen_steps_post_active :: "stepper_kinematics \<Rightarrow> real" where
  "itersolve_get_gen_steps_post_active sk = gen_steps_post_active sk"

end
