(* ===== verification/Spec2Isabelle.thy ===== *)
theory Spec2Isabelle
  imports Msgblock Command_Props Serial_Irq Stepper_Inv Endstop_Props Adccmds_Props Gpiocmds_Props
    Buttons_Props Pulse_Counter Pwmcmds Stepcompress_Props Serialqueue_Inv Serial_Link Itersolve
begin

text \<open>
  A verification library for the C parts of Klipper: the firmware that runs on the
  micro-controller (\<^verbatim>\<open>src/src\<close>) and the C helpers of the host (\<^verbatim>\<open>src/klippy/chelper\<close>).

  \<^bold>\<open>The program.\<close> The host plans motion, turns it into step times, compresses the step times of each
  stepper into arithmetic progressions, packs them as commands into numbered blocks and sends the
  blocks over a serial line or a CAN bus, repeating them until they are acknowledged. The firmware
  checks and acknowledges the blocks, dispatches their commands to handlers, and runs everything
  that has to happen at a given clock from one sorted list of timers. Steppers, end stops, trigger
  synchronisation, outputs, inputs, buttons, counters and filters are clients of that list.

  \<^bold>\<open>How the code is modelled.\<close> A C structure is a record and the state of a component is a record
  that extends the state of the components it calls, so that an operation works in every larger
  state: \<open>board\<close>, \<open>sched\<close>, \<open>basecmd\<close>, then \<open>command\<close> and \<open>serial\<close> on one branch, \<open>motion\<close>,
  \<open>tsync\<close> and its users on another, and \<open>gpiocmds\<close>, \<open>buttonsm\<close>, \<open>counterm\<close>, \<open>pwmcmds\<close>. Objects the
  firmware allocates are kept in maps from object ids; pointers between them are optional ids, so
  lists threaded through objects (the timer list, the signals of a trsync) are linked lists in the
  model too. Integers are words of their C width and wrap as in C. On the host, where the code
  relies on signed arithmetic, an overflow has no result. A \<^verbatim>\<open>double\<close> is a real number. An operation
  that can stop returns an \<open>outcome\<close>: \<open>Ok\<close> with a result, \<open>Shutdown\<close> with the message given to the
  macro \<^verbatim>\<open>shutdown\<close> and the state left behind, or \<open>Fault\<close> for an access outside an array, a NULL
  pointer or another step C does not define. The clock, the pins, the ADC, the bytes read and the
  results of system calls are inputs; what the code writes to pins or to the wire is a log. Code the
  build generates (the command table) is a parameter.

  \<^bold>\<open>Loops.\<close> Loops over lists are structural; the others are functions with a termination proof
  (\<open>input_loop\<close> by the bytes left, \<open>build_loop\<close> by the messages left, \<open>command_loop\<close> by the room in
  the buffer, \<open>command_dispatch_loop\<close> by the bytes left, \<open>inner_loop\<close> by the steps left).
  Loops over linked lists of objects, and loops that wait for the clock, are partial functions into
  \<open>option\<close>, and their ending is a theorem where the code relies on it. No fuel is used.

  \<^bold>\<open>Theories.\<close>
  \<^item> \<open>Prelude\<close>: word sizes, the type \<open>outcome\<close>, the clock comparison \<open>timer_is_before\<close>, arrays.
  \<^item> \<open>Crc16\<close> (\<^verbatim>\<open>generic/crc16_ccitt.c\<close>, \<^verbatim>\<open>msgblock.c\<close>): both checksum routines equal the bit-serial CRC.
  \<^item> \<open>Vlq\<close> (\<^verbatim>\<open>command.c\<close>, \<^verbatim>\<open>msgblock.c\<close>): variable length integers, encode and parse are inverse.
  \<^item> \<open>Msgblock\<close> (\<^verbatim>\<open>msgblock.c\<close>): blocks, their check, messages, clock conversion.
  \<^item> \<open>Board\<close>: clock, pins and output log of the micro-controller, the macro \<^verbatim>\<open>shutdown\<close>.
  \<^item> \<open>Sched\<close>, \<open>Sched_Inv\<close> (\<^verbatim>\<open>sched.c\<close>): the timer list with its cached insert position, tasks and the
    shutdown state; the list refines a sorted list of timers.
  \<^item> \<open>Basecmd\<close>, \<open>Basecmd_Props\<close> (\<^verbatim>\<open>basecmd.c\<close>): chunk allocation, move pool, move queues, object ids,
    statistics, identify.
  \<^item> \<open>Command\<close>, \<open>Command_Props\<close> (\<^verbatim>\<open>command.c\<close>): encoding, parsing, dispatch, finding blocks.
  \<^item> \<open>Serial_Irq\<close> (\<^verbatim>\<open>generic/serial_irq.c\<close>): the console buffers, with receive interrupts during a copy.
  \<^item> \<open>Stepper\<close>, \<open>Stepper_Props\<close>, \<open>Stepper_Inv\<close> (\<^verbatim>\<open>stepper.c\<close>): the three step event paths, commands,
    stopping; step times, positions, an invariant over all steps.
  \<^item> \<open>Trsync\<close>, \<open>Trsync_Props\<close> (\<^verbatim>\<open>trsync.c\<close>), \<open>Endstop\<close>, \<open>Endstop_Props\<close> (\<^verbatim>\<open>endstop.c\<close>): triggers stop
    every registered stepper; debouncing of end stops.
  \<^item> \<open>Sos_Filter\<close> (\<^verbatim>\<open>sos_filter.c\<close>), \<open>Trigger_Analog\<close> (\<^verbatim>\<open>trigger_analog.c\<close>), \<open>Adccmds\<close>, \<open>Adccmds_Props\<close>
    (\<^verbatim>\<open>adccmds.c\<close>): fixed point filters, analog triggers and analog inputs.
  \<^item> \<open>Gpiocmds\<close>, \<open>Gpiocmds_Props\<close> (\<^verbatim>\<open>gpiocmds.c\<close>), \<open>Pwmcmds\<close> (\<^verbatim>\<open>pwmcmds.c\<close>): scheduled outputs and the
    maximum time away from the default value.
  \<^item> \<open>Buttons\<close>, \<open>Buttons_Props\<close> (\<^verbatim>\<open>buttons.c\<close>), \<open>Pulse_Counter\<close> (\<^verbatim>\<open>pulse_counter.c\<close>): polled inputs.
  \<^item> \<open>Stepcompress\<close>, \<open>Stepcompress_Props\<close> (\<^verbatim>\<open>stepcompress.c\<close>): the search for moves, the check of a move,
    the queue of step times and the history.
  \<^item> \<open>Pollreactor\<close> (\<^verbatim>\<open>pollreactor.c\<close>): timers and callbacks of the host's threads; the locale
    \<open>reactor_client\<close> states what a callback owes the loop.
  \<^item> \<open>Serialqueue\<close>, \<open>Serialqueue_Props\<close>, \<open>Serialqueue_Inv\<close> (\<^verbatim>\<open>serialqueue.c\<close>): command queues, blocks,
    acknowledgements, retransmission and reading. Sends of other threads are interleaved with the
    callbacks where the code takes \<^verbatim>\<open>transmit_requests.lock\<close>.
  \<^item> this theory: the path of a move from the queue of step times on the host to the handler
    \<^verbatim>\<open>command_queue_step\<close> on the micro-controller.

  \<^bold>\<open>Assumptions.\<close> The 64-bit sequence numbers of the host are assumed to stay below \<open>2 ^ 62\<close>; a
  message handed to the host's queues fits a block and has a clock below \<^verbatim>\<open>MAX_CLOCK\<close> (\<open>msg_ok\<close>). The
  floating point computations are exact. Interrupts run between operations except where a theory
  says otherwise (\<open>Serial_Irq\<close>).

  \<^bold>\<open>Not modelled.\<close> Drivers that only move bytes between a chip and the host (bus commands, displays,
  bulk sensors), the CAN and USB transports of the firmware, the processor specific code and the
  vendor libraries under \<^verbatim>\<open>src/lib\<close>, whose meaning is in registers of the hardware; motion planning
  and kinematics of the host, which are floating point numerics; the Python software, whose contract
  with the C code is the interface of the modelled components; the loop \<^verbatim>\<open>sched_main\<close>, start-up and
  \<^verbatim>\<open>longjmp\<close> itself.
\<close>

section \<open>From the step times of the host to the stepper of the micro-controller\<close>

text \<open>The parser of \<^verbatim>\<open>queue_step\<close> (\<^verbatim>\<open>src/src/stepper.c\<close>), as the build generates it from \<^verbatim>\<open>DECL_COMMAND\<close>.\<close>

definition queue_step_parser :: "u16 \<Rightarrow> ('z motion_scheme) command_parser" where
  "queue_step_parser m =
     \<lparr>cp_encoded_msgid = m, cp_num_args = 4, cp_flags = 0,
      cp_param_types = [PT_byte, PT_uint32, PT_uint16, PT_int16], cp_func = (\<lambda>args buf s. command_queue_step args s)\<rparr>"

lemma queue_step_dispatch:
  assumes "m \<noteq> 0" "m < 2 ^ 14" "unat m < length index" "index ! unat m = queue_step_parser m"
    and "\<not> sched_is_shutdown s" "payload = encode_msgid m @ vlq_bytes [a, b, c, d]"
  shows "command_dispatch index (make_block seq payload) (length payload + MESSAGE_MIN) s = command_queue_step [a, b, c, d] s"
proof -
  have "list_all (cmd_ok index) [(m, [a, b, c, d])]"
    using assms(1-4) by (simp add: cmd_ok_def queue_step_parser_def is_int_type_def)
  moreover have "payload = concat (map cmd_bytes [(m, [a, b, c, d])])" using assms(6) by (simp add: cmd_bytes_def)
  ultimately have "command_dispatch index (make_block seq payload) (length payload + MESSAGE_MIN) s =
      run_commands index (make_block seq payload) [(m, [a, b, c, d])] s" by (rule dispatch_block_runs)
  also have "\<dots> = command_queue_step [a, b, c, d] s"
    using assms(4,5) by (cases "command_queue_step [a, b, c, d] s") (simp_all add: queue_step_parser_def)
  finally show ?thesis .
qed

lemma count_add_lossless:
  "ucast (ucast (c :: u16) :: u32) = c" "ucast (scast (a :: u16) :: u32) = a"
  by (rule word16_eqI, unfold all_less_16, simp add: bit_simps)+

text \<open>
  C2: The step times the host compresses reach the stepper code of the micro-controller.
  When \<^verbatim>\<open>queue_flush\<close> returns, every message it queued, framed as a block and dispatched by the
  micro-controller, runs \<^verbatim>\<open>command_queue_step\<close> with the id of the stepper and the interval, count and
  increment of one move, which survive the 32-bit arguments; and the steps of these moves, at the
  times the stepper code makes them, match the step times taken off the queue with an error of at
  most \<^verbatim>\<open>max_error\<close> ticks. Hypotheses: the flush returns, the host's tag of the command is the
  micro-controller's id of it, the command table holds the parser of \<^verbatim>\<open>queue_step\<close> there, and the
  micro-controller is not shut down.
\<close>

theorem queue_step_end_to_end:
  assumes "queue_flush mc sc = Ok ret sc'"
    and "encode_int (queue_step_msgtag sc) = encode_msgid m" "m \<noteq> 0" "m < 2 ^ 14"
    and "unat m < length index" "index ! unat m = queue_step_parser m" "\<not> sched_is_shutdown s"
  shows "\<exists>mvs qms req. msg_queue sc' = msg_queue sc @ qms \<and> pend sc = req @ pend sc' \<and>
     list_all2 (\<lambda>r a. r - a \<le> max_error sc) req (moves_steps (ucast (last_step_clock sc)) mvs) \<and>
     list_all2 (\<lambda>qm mv. \<exists>c a. ucast c = mv_count mv \<and> ucast a = mv_add mv \<and>
       (\<forall>seq. command_dispatch index (make_block seq (qm_bytes qm)) (length (qm_bytes qm) + MESSAGE_MIN) s =
          command_queue_step [sc_oid sc, mv_interval mv, c, a] s)) qms mvs"
proof -
  from queue_flush_result [of mc sc] assms(1) obtain mvs qms req where
    f: "msg_queue sc' = msg_queue sc @ qms" "pend sc = req @ pend sc'"
      "list_all2 (\<lambda>r a. r - a \<le> max_error sc) req (moves_steps (ucast (last_step_clock sc)) mvs)"
      "map qm_bytes qms = map (\<lambda>m. vlq_bytes (move_message sc m)) mvs"
    unfolding flush_result_def flushed_def by blast
  have "\<exists>c a. ucast c = mv_count mv \<and> ucast a = mv_add mv \<and>
       (\<forall>seq. command_dispatch index (make_block seq (qm_bytes qm)) (length (qm_bytes qm) + MESSAGE_MIN) s =
          command_queue_step [sc_oid sc, mv_interval mv, c, a] s)"
    if "qm_bytes qm = vlq_bytes (move_message sc mv)" for qm mv
  proof -
    have "qm_bytes qm = encode_msgid m @ vlq_bytes [sc_oid sc, mv_interval mv, ucast (mv_count mv), scast (mv_add mv)]"
      using that assms(2) by (simp add: move_message_def)
    from queue_step_dispatch [OF assms(3-7) this] count_add_lossless show ?thesis by blast
  qed
  then have "list_all2 (\<lambda>qm mv. \<exists>c a. ucast c = mv_count mv \<and> ucast a = mv_add mv \<and>
       (\<forall>seq. command_dispatch index (make_block seq (qm_bytes qm)) (length (qm_bytes qm) + MESSAGE_MIN) s =
          command_queue_step [sc_oid sc, mv_interval mv, c, a] s)) qms mvs"
    using f(4) by (auto simp: list_all2_conv_all_nth list_eq_iff_nth_eq)
  with f(1-3) show ?thesis by blast
qed

theorem queue_step_end_to_end_witness:
  "\<exists>sc' mvs qms. queue_flush 1000 (demo_sc [100, 200, 300]) = Ok 0 sc' \<and>
     list_all2 (\<lambda>r a. r - a \<le> 5) [100, 200, 300] (moves_steps 0 mvs) \<and> length qms = length mvs \<and>
     msg_queue sc' = qms"
proof -
  let ?index = "replicate 7 (queue_step_parser 0) @ [queue_step_parser 7] :: motion command_parser list"
  obtain sc' where s: "queue_flush 1000 (demo_sc [100, 200, 300]) = Ok 0 sc'" "pend sc' = []" using demo_flush by blast
  have d: "pend (demo_sc [100, 200, 300]) = [100, 200, 300]" "max_error (demo_sc [100, 200, 300]) = 5"
    "last_step_clock (demo_sc [100, 200, 300]) = 0" "queue_step_msgtag (demo_sc [100, 200, 300]) = 7"
    "msg_queue (demo_sc [100, 200, 300]) = []" by (simp_all add: pend_def demo_sc_simps)
  have "encode_int 7 = encode_msgid 7" by code_simp
  moreover have "\<not> sched_is_shutdown demo_motion" by (simp add: sched_is_shutdown_def demo_motion_simps)
  ultimately obtain mvs qms req where "msg_queue sc' = qms" "[100, 200, 300] = req"
    "list_all2 (\<lambda>r a. r - a \<le> 5) req (moves_steps 0 mvs)" "length qms = length mvs"
    using queue_step_end_to_end [OF s(1), of 7 ?index demo_motion] s
    by (auto simp: d nth_append dest!: list_all2_lengthD [of _ "msg_queue sc'"])
  with s(1) show ?thesis by blast
qed

end
